(* ===== verification/Bitcoin_Types.thy ===== *)
theory Bitcoin_Types
  imports Prelude
begin

text \<open>
  The data the node works on and the code it calls outside this repository.

  The records carry the fields of rust-bitcoin's types that the sources read. The functions
  of rust-bitcoin, of the hash crates and of bitcoinkernel are not code of this repository:
  they are the fields of \<^verbatim>\<open>bitcoin_api\<close>, a value every definition that calls them takes as an
  argument. What the code relies on is stated about that value as a named predicate
  (\<open>amount_laws\<close> and the like), each of them documented behaviour of the library.
  \<open>demo_api\<close> is one concrete value that satisfies them.
\<close>

section \<open>Transactions, headers and blocks\<close>

type_synonym hash = bytes
type_synonym script = bytes
type_synonym amount = u64

definition all_zeros :: hash where
  "all_zeros = replicate 32 0"

record outpoint =
  op_txid :: hash
  op_vout :: u32

record txin =
  previous_output :: outpoint
  script_sig :: script
  sequence :: u32
  witness :: "bytes list"

record txout =
  value_sat :: amount
  script_pubkey :: script

datatype absolute_lock_time = Blocks u32 | Seconds u32

datatype relative_lock_time = RelBlocks u16 | RelTime u16

record transaction =
  tx_version :: u32
  lock_time :: absolute_lock_time
  tx_input :: "txin list"
  tx_output :: "txout list"

record header =
  hdr_version :: u32
  prev_blockhash :: hash
  merkle_root :: hash
  hdr_time :: u32
  hdr_bits :: u32
  hdr_nonce :: u32

record block =
  blk_header :: header
  txdata :: "transaction list"

text \<open>An unspent output with the metadata block validation needs.\<close>

record utxo_data =
  txout :: txout
  utxo_is_coinbase :: bool
  creation_height :: u32
  creation_time :: u32

type_synonym utxo_map = "outpoint \<rightharpoonup> utxo_data"

section \<open>Code outside the repository\<close>

text \<open>A parsed script instruction: \<^verbatim>\<open>Instruction::PushBytes\<close> or \<^verbatim>\<open>Instruction::Op\<close>; a position
  that does not parse is the left summand, with the parser's message.\<close>

datatype instruction = PushBytes bytes | Op u8

datatype opcode_class =
    OP_CHECKSIG
  | OP_CHECKSIGVERIFY
  | OP_CHECKMULTISIG
  | OP_CHECKMULTISIGVERIFY
  | PushNum int
  | OtherClass

type_synonym work = "256 word"

record bitcoin_api =
  compute_txid :: "transaction \<Rightarrow> hash"
  block_hash :: "header \<Rightarrow> hash"
  parse_block_hash :: "string \<Rightarrow> hash"
  is_coinbase :: "transaction \<Rightarrow> bool"
  is_null :: "outpoint \<Rightarrow> bool"
  is_op_return :: "script \<Rightarrow> bool"
  is_final :: "u32 \<Rightarrow> bool"
  to_relative_lock_time :: "u32 \<Rightarrow> relative_lock_time option"
  is_time_locked :: "u32 \<Rightarrow> bool"
  lock_time_zero :: absolute_lock_time
  amount_checked_add :: "amount \<Rightarrow> amount \<Rightarrow> amount option"
  amount_max :: amount
  max_money :: amount
  one_btc :: amount
  max_block_sigops_cost :: usize
  legacy_total_sigop_cost :: "transaction \<Rightarrow> usize"
  block_coinbase :: "block \<Rightarrow> transaction option"
  check_witness_commitment :: "block \<Rightarrow> bool"
  block_weight :: "block \<Rightarrow> u64"
  max_block_weight :: u64
  instructions :: "script \<Rightarrow> (string + instruction) list"
  instructions_minimal :: "script \<Rightarrow> (string + instruction) list"
  read_scriptint :: "bytes \<Rightarrow> int option"
  classify :: "u8 \<Rightarrow> opcode_class"
  is_push_only :: "script \<Rightarrow> bool"
  is_p2sh :: "script \<Rightarrow> bool"
  is_witness_program :: "script \<Rightarrow> bool"
  is_p2wpkh :: "script \<Rightarrow> bool"
  is_p2wsh :: "script \<Rightarrow> bool"
  witness_scale_factor :: usize
  sha256d :: "bytes \<Rightarrow> hash"
  work_to_le_bytes :: "work \<Rightarrow> bytes"
  work_from_be_bytes :: "bytes \<Rightarrow> work"

section \<open>Documented behaviour the code relies on\<close>

text \<open>\<^verbatim>\<open>Amount::checked_add\<close> returns \<^verbatim>\<open>None\<close> exactly when the sum of the two satoshi counts
  overflows a \<^verbatim>\<open>u64\<close>.\<close>

definition amount_laws :: "bitcoin_api \<Rightarrow> bool" where
  "amount_laws L \<longleftrightarrow> (\<forall>a b. amount_checked_add L a b = checked_add a b)"

lemma amount_lawsD: "amount_laws L \<Longrightarrow> amount_checked_add L a b = checked_add a b"
  by (simp add: amount_laws_def)

lemma amount_add_Some:
  "amount_laws L \<Longrightarrow> amount_checked_add L a b = Some c \<Longrightarrow> unat c = unat a + unat b"
  by (simp add: amount_laws_def checked_add_Some)

text \<open>\<^verbatim>\<open>Work::to_le_bytes\<close> and \<^verbatim>\<open>Work::from_be_bytes\<close> are the 32-byte little-endian and big-endian
  representations of the 256-bit number.\<close>

definition work_laws :: "bitcoin_api \<Rightarrow> bool" where
  "work_laws L \<longleftrightarrow>
     (\<forall>w. length (work_to_le_bytes L w) = 32 \<and> le_value (work_to_le_bytes L w) = unat w) \<and>
     (\<forall>bs. length bs = 32 \<longrightarrow> unat (work_from_be_bytes L bs) = be_value bs)"

section \<open>A concrete library\<close>

text \<open>A library whose functions compute, for evaluating the definitions on examples. The hash
  functions are short and not cryptographic.\<close>

definition demo_hash :: "bytes \<Rightarrow> hash" where
  "demo_hash bs = take 32 (to_le_bytes 8 (foldl (\<lambda>acc b. (acc * 31 + unat b + 7) mod 2 ^ 61) 1 bs)
     @ replicate 24 1)"

definition demo_api :: bitcoin_api where
  "demo_api = \<lparr>
     compute_txid = (\<lambda>tx. demo_hash (concat (map (\<lambda>i. op_txid (previous_output i)) (tx_input tx))
       @ concat (map (\<lambda>out. u64_to_le_bytes (value_sat out)) (tx_output tx)))),
     block_hash = (\<lambda>h. demo_hash (u32_to_le_bytes (hdr_nonce h) @ prev_blockhash h)),
     parse_block_hash = (\<lambda>s. demo_hash (map (\<lambda>c. of_nat (of_char c)) s)),
     is_coinbase = (\<lambda>tx. case tx_input tx of
       [i] \<Rightarrow> op_txid (previous_output i) = all_zeros | _ \<Rightarrow> False),
     is_null = (\<lambda>out. op_txid out = all_zeros \<and> op_vout out = 0xFFFFFFFF),
     is_op_return = (\<lambda>s. case s of [] \<Rightarrow> False | b # _ \<Rightarrow> b = 0x6A),
     is_final = (\<lambda>s. s = 0xFFFFFFFF),
     to_relative_lock_time = (\<lambda>s. if s < 0x10000 then Some (RelBlocks (ucast s)) else None),
     is_time_locked = (\<lambda>s. False),
     lock_time_zero = Blocks 0,
     amount_checked_add = checked_add,
     amount_max = - 1,
     max_money = 2100000000000000,
     one_btc = 100000000,
     max_block_sigops_cost = 80000,
     legacy_total_sigop_cost = (\<lambda>tx. of_nat (length (tx_output tx))),
     block_coinbase = (\<lambda>b. case txdata b of [] \<Rightarrow> None | tx # _ \<Rightarrow> Some tx),
     check_witness_commitment = (\<lambda>b. True),
     block_weight = (\<lambda>b. of_nat (length (txdata b))),
     max_block_weight = 4000000,
     instructions = (\<lambda>s. if s = [] then [] else [Inr (PushBytes (tl s))]),
     instructions_minimal = (\<lambda>s. if s = [] then [] else [Inr (PushBytes (tl s))]),
     read_scriptint = (\<lambda>bs. Some (int (le_value bs))),
     classify = (\<lambda>b. if b = 0xAC then OP_CHECKSIG else if b = 0xAE then OP_CHECKMULTISIG
       else if 0x51 \<le> b \<and> b \<le> 0x60 then PushNum (int (unat b) - 0x50) else OtherClass),
     is_push_only = (\<lambda>s. True),
     is_p2sh = (\<lambda>s. length s = 23),
     is_witness_program = (\<lambda>s. length s = 22 \<or> length s = 34),
     is_p2wpkh = (\<lambda>s. length s = 22),
     is_p2wsh = (\<lambda>s. length s = 34),
     witness_scale_factor = 4,
     sha256d = demo_hash,
     work_to_le_bytes = (\<lambda>w. to_le_bytes 32 (unat w)),
     work_from_be_bytes = (\<lambda>bs. of_nat (be_value bs)) \<rparr>"

lemma demo_amount_laws: "amount_laws demo_api"
  by (simp add: amount_laws_def demo_api_def)

lemma demo_work_laws: "work_laws demo_api"
proof -
  have "unat w < 256 ^ 32" for w :: work
    using unsigned_less [of w, where ?'a = nat] by simp
  moreover have "be_value bs < 2 ^ 256" if "length bs = 32" for bs
    using le_value_less [of "rev bs"] that by (simp add: be_value_def)
  ultimately show ?thesis
    by (simp add: work_laws_def demo_api_def le_value_to_le_bytes unat_of_nat)
qed

end
