(* ===== verification/Merkle.thy ===== *)
theory Merkle
  imports Bitcoin_Types
begin

text \<open>
  Transaction Merkle trees: \<^verbatim>\<open>floresta-chain/src/pruned_utreexo/merkle.rs\<close> (the root with mutation
  detection, the inclusion branch) and \<^verbatim>\<open>floresta-watch-only/src/merkle.rs\<close> (the proof a wallet
  keeps and verifies). The double SHA-256 of 64 packed bytes is the parameter \<open>h\<close>.

  Lemmas: the branch computed for a position always leads to the root (the contract of the
  \<^verbatim>\<open>MerkleBackend\<close> trait, the locale \<open>merkle_backend\<close>), and an unmutated list is determined by
  its root when \<open>h\<close> does not collide.
\<close>

section \<open>Definitions\<close>

text \<open>\<^verbatim>\<open>reduce_level\<close>: hash the pairs of a level, duplicating an unpaired last hash.\<close>

fun reduce_level :: "(bytes \<Rightarrow> hash) \<Rightarrow> hash list \<Rightarrow> hash list" where
  "reduce_level h (left # right # rest) = h (left @ right) # reduce_level h rest"
| "reduce_level h [left] = [h (left @ left)]"
| "reduce_level h [] = []"

text \<open>The \<^verbatim>\<open>chunks_exact(2)\<close> scan: is there a real pair of equal siblings?\<close>

fun level_mutated :: "hash list \<Rightarrow> bool" where
  "level_mutated (a # b # rest) \<longleftrightarrow> a = b \<or> level_mutated rest"
| "level_mutated _ \<longleftrightarrow> False"

lemma length_reduce_level [simp]: "length (reduce_level h level) = (length level + 1) div 2"
  by (induction h level rule: reduce_level.induct) simp_all

function root_loop :: "(bytes \<Rightarrow> hash) \<Rightarrow> hash list \<Rightarrow> bool \<Rightarrow> hash list \<times> bool" where
  "root_loop h level mutated =
     (if 1 < length level
      then root_loop h (reduce_level h level) (mutated \<or> level_mutated level)
      else (level, mutated))"
  by pat_completeness auto
termination
  by (relation "measure (\<lambda>(h, level, mutated). length level)") auto

declare root_loop.simps [simp del]

definition calculate_root :: "(bytes \<Rightarrow> hash) \<Rightarrow> hash list \<Rightarrow> (hash \<times> bool) option" where
  "calculate_root h txids =
     (if txids = [] then None
      else case root_loop h txids False of (level, mutated) \<Rightarrow> Some (hd level, mutated))"

text \<open>\<^verbatim>\<open>level.get(position ^ 1).copied().unwrap_or(level[position])\<close>.\<close>

definition sibling :: "hash list \<Rightarrow> nat \<Rightarrow> hash" where
  "sibling level position =
     (let i = position XOR 1 in if i < length level then level ! i else level ! position)"

function branch_loop :: "(bytes \<Rightarrow> hash) \<Rightarrow> hash list \<Rightarrow> nat \<Rightarrow> hash list" where
  "branch_loop h level position =
     (if 1 < length level
      then sibling level position # branch_loop h (reduce_level h level) (drop_bit 1 position)
      else [])"
  by pat_completeness auto
termination
  by (relation "measure (\<lambda>(h, level, position). length level)") auto

declare branch_loop.simps [simp del]

definition calculate_branch :: "(bytes \<Rightarrow> hash) \<Rightarrow> hash list \<Rightarrow> nat \<Rightarrow> hash list option" where
  "calculate_branch h leaves position =
     (if length leaves \<le> position then None else Some (branch_loop h leaves position))"

text \<open>\<^verbatim>\<open>Consensus::check_merkle_root\<close>: the txids, when the header commits to their root and the
  tree has no equal real siblings. The root of an empty list is zero.\<close>

definition check_merkle_root :: "bitcoin_api \<Rightarrow> block \<Rightarrow> hash list option" where
  "check_merkle_root L b =
     (let txids = map (compute_txid L) (txdata b);
          (root, mutated) = (case calculate_root (sha256d L) txids of
             Some r \<Rightarrow> r | None \<Rightarrow> (all_zeros, False))
      in if \<not> mutated \<and> merkle_root (blk_header b) = root then Some txids else None)"

text \<open>The wallet's proof. A \<^verbatim>\<open>target\<close> outside the list makes \<^verbatim>\<open>from_block_hashes\<close> panic, which is
  \<open>None\<close> here.\<close>

record merkle_proof =
  target :: hash
  pos :: u64
  hashes :: "hash list"

definition merkle_proof_new :: merkle_proof where
  "merkle_proof_new = \<lparr>target = all_zeros, pos = 0, hashes = []\<rparr>"

definition from_block_hashes ::
  "(hash list \<Rightarrow> nat \<Rightarrow> hash list option) \<Rightarrow> hash list \<Rightarrow> u64 \<Rightarrow> merkle_proof option" where
  "from_block_hashes branch tx_list t =
     (if unat t < length tx_list
      then case branch tx_list (unat t) of
             None \<Rightarrow> None
           | Some proof \<Rightarrow> Some \<lparr>target = tx_list ! unat t, pos = t, hashes = proof\<rparr>
      else None)"

definition from_block ::
  "bitcoin_api \<Rightarrow> (hash list \<Rightarrow> nat \<Rightarrow> hash list option) \<Rightarrow> block \<Rightarrow> u64 \<Rightarrow> merkle_proof option" where
  "from_block L branch b t = from_block_hashes branch (map (compute_txid L) (txdata b)) t"

definition parent_hash :: "(bytes \<Rightarrow> hash) \<Rightarrow> hash \<Rightarrow> hash \<Rightarrow> hash" where
  "parent_hash h left right = h (left @ right)"

fun verify_loop :: "(bytes \<Rightarrow> hash) \<Rightarrow> hash list \<Rightarrow> hash \<Rightarrow> u64 \<Rightarrow> hash" where
  "verify_loop h [] computed placement = computed"
| "verify_loop h (x # xs) computed placement =
     verify_loop h xs
       (if placement AND 1 = 0 then parent_hash h computed x else parent_hash h x computed)
       (drop_bit 1 placement)"

definition merkle_proof_verify :: "(bytes \<Rightarrow> hash) \<Rightarrow> merkle_proof \<Rightarrow> hash \<Rightarrow> bool" where
  "merkle_proof_verify h p root \<longleftrightarrow> root = verify_loop h (hashes p) (target p) (pos p)"

section \<open>The contract of a Merkle backend\<close>

text \<open>\<^verbatim>\<open>MerkleBackend\<close> (\<^verbatim>\<open>floresta-common/src/merkle.rs\<close>): a branch exists exactly for the positions
  of the list, and folding it from a leaf gives the root of the list. A wallet that builds its
  proofs with such a backend can verify them.\<close>

fun fold_branch :: "(bytes \<Rightarrow> hash) \<Rightarrow> hash list \<Rightarrow> hash \<Rightarrow> nat \<Rightarrow> hash" where
  "fold_branch h [] x i = x"
| "fold_branch h (s # ss) x i = fold_branch h ss (if even i then h (x @ s) else h (s @ x)) (i div 2)"

locale merkle_backend =
  fixes h :: "bytes \<Rightarrow> hash"
    and branch :: "hash list \<Rightarrow> nat \<Rightarrow> hash list option"
    and root :: "hash list \<Rightarrow> hash"
  assumes branch_None: "branch leaves i = None \<longleftrightarrow> length leaves \<le> i"
    and branch_root: "branch leaves i = Some ss \<Longrightarrow> fold_branch h ss (leaves ! i) i = root leaves"
begin

lemma verify_loop_fold: "verify_loop h ss x p = fold_branch h ss x (unat p)"
proof (induction ss arbitrary: x p)
  case Nil
  then show ?case by simp
next
  case (Cons s ss)
  have "p AND 1 = 0 \<longleftrightarrow> even (unat p)"
    by (simp add: and_one_eq word_arith_nat_mod unat_0_iff [symmetric] even_iff_mod_2_eq_zero
        flip: word_arith_nat_mod) (simp add: unat_mod even_iff_mod_2_eq_zero)
  moreover have "unat (drop_bit 1 p) = unat p div 2"
    by (simp add: drop_bit_eq_div unat_div)
  ultimately show ?case
    by (simp add: Cons.IH parent_hash_def)
qed

lemma from_block_hashes_defined:
  "(\<exists>p. from_block_hashes branch leaves t = Some p) \<longleftrightarrow> unat t < length leaves"
  using branch_None [of leaves "unat t"]
  by (cases "branch leaves (unat t)") (auto simp: from_block_hashes_def)

lemma proof_verifies:
  assumes "from_block_hashes branch leaves t = Some p"
  shows "merkle_proof_verify h p (root leaves)"
  using assms branch_root [of leaves "unat t"]
  by (auto simp: from_block_hashes_def merkle_proof_verify_def verify_loop_fold
      split: if_splits option.splits)

end

section \<open>Branches lead to the root\<close>

definition level_root :: "(bytes \<Rightarrow> hash) \<Rightarrow> hash list \<Rightarrow> hash" where
  "level_root h level = hd (fst (root_loop h level False))"

definition tree_mutated :: "(bytes \<Rightarrow> hash) \<Rightarrow> hash list \<Rightarrow> bool" where
  "tree_mutated h level = snd (root_loop h level False)"

lemma root_loop_flag:
  "root_loop h level m = (fst (root_loop h level False), m \<or> snd (root_loop h level False))"
proof (induction "length level" arbitrary: level m rule: less_induct)
  case less
  show ?case
  proof (cases "1 < length level")
    case True
    let ?next = "reduce_level h level"
    have "length ?next < length level" using True by simp
    note IH = less [OF this]
    show ?thesis
      using True IH [of "m \<or> level_mutated level"] IH [of "level_mutated level"]
      by (simp add: root_loop.simps [of h level])
  next
    case False
    then show ?thesis by (simp add: root_loop.simps [of h level])
  qed
qed

lemma level_root_step: "1 < length level \<Longrightarrow> level_root h level = level_root h (reduce_level h level)"
  by (simp add: level_root_def root_loop.simps [of h level])
    (metis fst_conv root_loop_flag)

lemma level_root_single: "length level \<le> 1 \<Longrightarrow> level_root h level = hd level"
  by (simp add: level_root_def root_loop.simps [of h level])

lemma tree_mutated_step:
  "1 < length level \<Longrightarrow>
   tree_mutated h level \<longleftrightarrow> level_mutated level \<or> tree_mutated h (reduce_level h level)"
  by (simp add: tree_mutated_def root_loop.simps [of h level])
    (metis snd_conv root_loop_flag)

lemma calculate_root_eq:
  "calculate_root h txids =
     (if txids = [] then None else Some (level_root h txids, tree_mutated h txids))"
  by (simp add: calculate_root_def level_root_def tree_mutated_def split: prod.split)

lemma xor_one_nat: "(n::nat) XOR Suc 0 = (if even n then Suc n else n - Suc 0)"
  using xor_one_eq [of n] by simp

lemma sibling_Cons2: "sibling (a # b # rest) (Suc (Suc j)) = sibling rest j"
  by (cases j) (auto simp: sibling_def Let_def xor_one_nat)

lemma reduce_level_nth:
  "i < length level \<Longrightarrow> reduce_level h level ! (i div 2) =
     (if even i then h (level ! i @ sibling level i) else h (sibling level i @ level ! i))"
proof (induction h level arbitrary: i rule: reduce_level.induct)
  case (1 h a b rest)
  consider "i = 0" | "i = 1" | "2 \<le> i" by linarith
  then show ?case
  proof cases
    case 3
    then obtain j where j: "i = Suc (Suc j)" by (metis Suc_diff_Suc Suc_1 Suc_le_lessD diff_zero
          le_add_diff_inverse2 add_2_eq_Suc')
    with "1.IH" [of j] "1.prems" show ?thesis
      by (simp add: sibling_Cons2)
  qed (simp_all add: sibling_def xor_one_nat Let_def)
next
  case (2 h a)
  then show ?case by (simp add: sibling_def xor_one_nat Let_def)
next
  case (3 h)
  then show ?case by simp
qed

lemma fold_branch_loop:
  "i < length level \<Longrightarrow> fold_branch h (branch_loop h level i) (level ! i) i = level_root h level"
proof (induction h level i rule: branch_loop.induct)
  case (1 h level i)
  show ?case
  proof (cases "1 < length level")
    case True
    have "i div 2 < length (reduce_level h level)"
      using "1.prems" by simp
    with "1.IH" [OF True]
    have "fold_branch h (branch_loop h (reduce_level h level) (i div 2))
            (reduce_level h level ! (i div 2)) (i div 2) = level_root h (reduce_level h level)"
      by (simp add: drop_bit_eq_div)
    with True "1.prems" show ?thesis
      by (simp add: branch_loop.simps [of h level] level_root_step drop_bit_eq_div
          reduce_level_nth split: if_splits)
  next
    case False
    with "1.prems" have "i = 0" and "length level = 1" by auto
    then show ?thesis
      by (simp add: branch_loop.simps [of h level] level_root_single hd_conv_nth flip: length_0_conv)
  qed
qed

interpretation consensus_merkle: merkle_backend h "calculate_branch h" "level_root h" for h
  by unfold_locales (auto simp: calculate_branch_def fold_branch_loop split: if_splits)

section \<open>An unmutated list is determined by its root\<close>

fun tree_depth :: "nat \<Rightarrow> nat" where
  "tree_depth n = (if n \<le> 1 then 0 else Suc (tree_depth ((n + 1) div 2)))"

declare tree_depth.simps [simp del]

text \<open>A collision of \<open>h\<close> on packed pairs.\<close>

definition collides :: "(bytes \<Rightarrow> hash) \<Rightarrow> bool" where
  "collides h \<longleftrightarrow> (\<exists>x y. length x = 64 \<and> length y = 64 \<and> x \<noteq> y \<and> h x = h y)"

lemma collides_pair:
  assumes "h (a @ b) = h (c @ d)" and "length a = 32" "length b = 32" "length c = 32" "length d = 32"
    and "\<not> collides h"
  shows "a = c \<and> b = d"
proof -
  have "a @ b = c @ d"
    using assms unfolding collides_def
    by (metis (no_types, opaque_lifting) length_append numeral_Bit0)
  then show ?thesis using assms by simp
qed

lemma reduce_level_inject:
  assumes "reduce_level h xs = reduce_level h ys" and "\<not> collides h"
    and "\<forall>x \<in> set xs. length x = 32" and "\<forall>y \<in> set ys. length y = 32"
    and "\<not> level_mutated xs" and "\<not> level_mutated ys"
  shows "xs = ys"
  using assms
proof (induction h xs arbitrary: ys rule: reduce_level.induct)
  case (1 h a b rest)
  then show ?case
    by (cases ys rule: level_mutated.cases) (auto dest!: collides_pair)
next
  case (2 h a)
  then show ?case
    by (cases ys rule: level_mutated.cases)
      (auto dest!: collides_pair elim: reduce_level.elims)
next
  case (3 h)
  then show ?case by (cases ys rule: level_mutated.cases) auto
qed

lemma reduce_level_lengths:
  "\<forall>x. length (h x) = 32 \<Longrightarrow> \<forall>y \<in> set (reduce_level h xs). length y = 32"
  by (induction h xs rule: reduce_level.induct) auto

lemma tree_depth_0: "tree_depth n = 0 \<longleftrightarrow> n \<le> 1"
  by (simp add: tree_depth.simps [of n])

lemma tree_depth_Suc: "tree_depth n = Suc k \<longleftrightarrow> 1 < n \<and> tree_depth ((n + 1) div 2) = k"
  by (auto simp: tree_depth.simps [of n])

lemma level_root_inject:
  assumes "\<not> collides h" and "\<forall>x. length (h x) = 32"
    and "level_root h xs = level_root h ys"
    and "\<forall>x \<in> set xs. length x = 32" and "\<forall>y \<in> set ys. length y = 32"
    and "\<not> tree_mutated h xs" and "\<not> tree_mutated h ys"
    and "xs \<noteq> []" and "ys \<noteq> []"
    and "tree_depth (length xs) = k" and "tree_depth (length ys) = k"
  shows "xs = ys"
  using assms(3-)
proof (induction k arbitrary: xs ys)
  case 0
  then obtain x y where "xs = [x]" "ys = [y]"
    by (metis tree_depth_0 length_0_conv le_Suc_eq One_nat_def le_zero_eq length_Suc_conv)
  with "0.prems"(1) show ?case by (simp add: level_root_single)
next
  case (Suc k)
  have len: "1 < length xs" "1 < length ys"
    using Suc.prems(8,9) by (simp_all add: tree_depth_Suc)
  have "reduce_level h xs = reduce_level h ys"
  proof (rule Suc.IH)
    show "level_root h (reduce_level h xs) = level_root h (reduce_level h ys)"
      using Suc.prems(1) len by (simp add: level_root_step)
    show "\<not> tree_mutated h (reduce_level h xs)" "\<not> tree_mutated h (reduce_level h ys)"
      using Suc.prems(4,5) len by (simp_all add: tree_mutated_step)
    show "tree_depth (length (reduce_level h xs)) = k" "tree_depth (length (reduce_level h ys)) = k"
      using Suc.prems(8,9) by (simp_all add: tree_depth_Suc)
    show "reduce_level h xs \<noteq> []" "reduce_level h ys \<noteq> []"
      using len by (simp_all flip: length_greater_0_conv)
  qed (use assms(2) reduce_level_lengths in blast)+
  moreover have "\<not> level_mutated xs" "\<not> level_mutated ys"
    using Suc.prems(4,5) len by (simp_all add: tree_mutated_step)
  ultimately show ?case
    using reduce_level_inject Suc.prems(2,3) assms(1) by blast
qed

section \<open>Duplicated tails\<close>

lemma reduce_level_duplicate:
  "odd (length xs) \<Longrightarrow> reduce_level h (xs @ [last xs]) = reduce_level h xs"
  by (induction h xs rule: reduce_level.induct) (auto split: if_splits)

lemma level_mutated_duplicate: "odd (length xs) \<Longrightarrow> level_mutated (xs @ [last xs])"
  by (induction xs rule: level_mutated.induct) (auto split: if_splits)

section \<open>Properties\<close>

text \<open>C9. For every position of a non-empty list of leaves the wallet builds a Merkle proof with
  the consensus backend, and that proof verifies against the root the block validation computes.\<close>

theorem merkle_proof_verifies:
  assumes "unat t < length leaves"
  shows "\<exists>p root mutated. from_block_hashes (calculate_branch h) leaves t = Some p
    \<and> calculate_root h leaves = Some (root, mutated) \<and> merkle_proof_verify h p root"
proof -
  obtain p where p: "from_block_hashes (calculate_branch h) leaves t = Some p"
    using assms consensus_merkle.from_block_hashes_defined by blast
  moreover have "leaves \<noteq> []" using assms by auto
  ultimately show ?thesis
    using consensus_merkle.proof_verifies [OF p] by (auto simp: calculate_root_eq)
qed

theorem merkle_proof_verifies_witness:
  "\<exists>p root mutated. from_block_hashes (calculate_branch demo_hash) [[1], [2], [3]] 2 = Some p
    \<and> calculate_root demo_hash [[1], [2], [3]] = Some (root, mutated)
    \<and> merkle_proof_verify demo_hash p root"
  by (rule merkle_proof_verifies) simp


definition demo_leaf_tx :: "u64 \<Rightarrow> transaction" where
  "demo_leaf_tx v = \<lparr>tx_version = 1, lock_time = Blocks 0, tx_input = [],
     tx_output = [\<lparr>value_sat = v, script_pubkey = []\<rparr>]\<rparr>"

definition demo_block_of :: "u64 list \<Rightarrow> block" where
  "demo_block_of vs = \<lparr>blk_header = \<lparr>hdr_version = 1, prev_blockhash = [], merkle_root = all_zeros,
      hdr_time = 0, hdr_bits = 0, hdr_nonce = 0\<rparr>, txdata = map demo_leaf_tx vs\<rparr>"

definition demo_merkle_api :: bitcoin_api where
  "demo_merkle_api = demo_api\<lparr>sha256d := (\<lambda>_. all_zeros),
     compute_txid := (\<lambda>tx. replicate 32 (ucast (value_sat (hd (tx_output tx)))))\<rparr>"




end
