(* ===== verification/Errors.thy ===== *)
theory Errors
  imports Bitcoin_Types
begin

text \<open>
  The error types of \<^verbatim>\<open>floresta-chain\<close> (\<^verbatim>\<open>error.rs\<close>, \<^verbatim>\<open>extensions.rs\<close>, \<^verbatim>\<open>udata.rs\<close> and
  \<^verbatim>\<open>flat_chain_store.rs\<close>) and the conversions that \<^verbatim>\<open>?\<close> applies. Errors of other crates are
  carried as their message. \<^verbatim>\<open>Database\<close> holds the error of the only store of the repository.
  \<open>Panicked\<close> is not a constructor of the source: it stands for a panic of the running thread,
  so that a property can say that there is none. \<open>OutOfFuel\<close> is not one either: it is the result of
  a loop of the model that has used up its iterations, where the loop of the source would go on.
\<close>

datatype block_validation_errors =
    BlockDoesntExtendTip
  | InvalidCoinbase string
  | UtxoNotFound outpoint
  | ScriptValidationError string
  | NullPrevOut
  | EmptyInputs
  | EmptyOutputs
  | ScriptError
  | BlockTooBig
  | TooManySigops
  | TooManyCoins
  | NotEnoughPow
  | BadDiffBits
  | BadVersion
  | BadMerkleRoot
  | BadWitnessCommitment
  | NotEnoughMoney
  | FirstTxIsNotCoinbase
  | BadCoinbaseOutValue
  | EmptyBlock
  | BlockExtendsAnOrphanChain
  | BadBip34
  | BadUtreexoProof
  | CoinbaseNotMatured
  | NonFinalTransaction
  | UnspendableUTXO
  | BIP94TimeWarp
  | DuplicateInput
  | BadRelativeLockTime

record transaction_error =
  te_txid :: hash
  te_error :: block_validation_errors

text \<open>The compact leaf a proof carries for a spent output (\<^verbatim>\<open>udata.rs\<close>), which the error of a leaf
  that cannot be reconstructed holds.\<close>

datatype script_pubkey_kind =
    Other bytes
  | PubKeyHash
  | WitnessV0PubKeyHash
  | ScriptHash
  | WitnessV0ScriptHash

record compact_leaf_data =
  cl_header_code :: u32
  cl_amount :: u64
  spk_ty :: script_pubkey_kind

datatype leaf_error_kind =
    EmptyStack
  | InvalidInstruction string
  | NotPushBytes
  | GenesisCreationHeight

record utreexo_leaf_error =
  le_leaf :: compact_leaf_data
  le_txid :: hash
  le_vin :: nat
  le_kind :: leaf_error_kind

datatype flat_chainstore_error =
    Io string
  | HeaderNotFound
  | FullIndex
  | OversizedIndex
  | UnsupportedSchema u32
  | PoisonedLock
  | BadMagic u32
  | OversizedAccumulator
  | InvalidMetadataPointer
  | CorruptedDatabase
  | InvalidValidationIndex

datatype blockchain_error =
    BlockNotPresent
  | OrphanOrInvalidBlock
  | BlockValidation block_validation_errors
  | TransactionError transaction_error
  | InvalidUtreexoProof
  | AccumulatorError string
  | UtreexoLeaf utreexo_leaf_error
  | Database flat_chainstore_error
  | ChainNotInitialized
  | InvalidTip string
  | BadValidationIndex
  | OperationOverflow
  | Panicked string
  | OutOfFuel

datatype block_ext_error =
    ExtBadMerkleRoot
  | ExtBadWitnessCommitment
  | ExtBlockTooBig
  | ExtTooManySigops

text \<open>\<^verbatim>\<open>From<BlockExtError>\<close> for \<^verbatim>\<open>BlockValidationErrors\<close> and for \<^verbatim>\<open>BlockchainError\<close>.\<close>

fun from_block_ext_error :: "block_ext_error \<Rightarrow> block_validation_errors" where
  "from_block_ext_error ExtBadMerkleRoot = BadMerkleRoot"
| "from_block_ext_error ExtBadWitnessCommitment = BadWitnessCommitment"
| "from_block_ext_error ExtBlockTooBig = BlockTooBig"
| "from_block_ext_error ExtTooManySigops = TooManySigops"

definition blockchain_from_ext :: "block_ext_error \<Rightarrow> blockchain_error" where
  "blockchain_from_ext e = BlockValidation (from_block_ext_error e)"

text \<open>The \<^verbatim>\<open>tx_err!\<close> macro.\<close>

definition tx_err :: "hash \<Rightarrow> block_validation_errors \<Rightarrow> transaction_error" where
  "tx_err txid e = \<lparr>te_txid = txid, te_error = e\<rparr>"

end
