(* ===== verification/Chain_Params.thy ===== *)
theory Chain_Params
  imports Errors
begin

text \<open>
  \<^verbatim>\<open>chainparams.rs\<close>: the consensus parameters of each network, the assume-valid and
  assume-utreexo constants, the script-verification flags of a block, the DNS seeds and the
  list of buried deployments. rust-bitcoin's \<^verbatim>\<open>Params::new\<close>, \<^verbatim>\<open>genesis_block\<close>, the parsing of accumulator
  hash literals and the values of the service flags come from \<open>network_api\<close>.
\<close>

section \<open>Definitions\<close>

datatype network = Bitcoin | Testnet | Testnet4 | Signet | Regtest

record params =
  bip34_height :: u32
  bip65_height :: u32
  bip66_height :: u32
  allow_min_difficulty_blocks :: bool
  no_pow_retargeting :: bool
  pow_target_spacing :: u64
  max_attainable_target :: "256 word"
  miner_confirmation_window :: u32

record network_api =
  params_new :: "network \<Rightarrow> params"
  genesis_block :: "network \<Rightarrow> block"
  parse_node_hash :: "string \<Rightarrow> hash"
  bitcoin_halving_interval :: u32
  sf_none :: u64
  sf_network :: u64
  sf_witness :: u64
  sf_compact_filters :: u64

definition VERIFY_NONE :: u32 where "VERIFY_NONE = 0"
definition VERIFY_P2SH :: u32 where "VERIFY_P2SH = push_bit 0 1"
definition VERIFY_WITNESS :: u32 where "VERIFY_WITNESS = push_bit 11 1"

datatype subsidy_halving_interval = HalvingBitcoin | HalvingRegtest

fun halving_get :: "network_api \<Rightarrow> subsidy_halving_interval \<Rightarrow> u32" where
  "halving_get N HalvingBitcoin = bitcoin_halving_interval N"
| "halving_get N HalvingRegtest = 150"

record chain_params =
  cp_params :: params
  genesis :: block
  subsidy_interval :: subsidy_halving_interval
  pow_target_timespan :: u64
  coinbase_maturity :: u32
  segwit_activation_height :: u32
  csv_activation_height :: u32
  exceptions :: "hash \<rightharpoonup> u32"
  cp_network :: network
  enforce_bip94 :: bool

record dns_seed =
  seed :: string
  filters :: u64

record assume_utreexo_value =
  au_block_hash :: hash
  au_height :: u32
  au_roots :: "hash list"
  au_leaves :: u64

definition get_assume_utreexo :: "bitcoin_api \<Rightarrow> network_api \<Rightarrow> network \<Rightarrow> assume_utreexo_value" where
  "get_assume_utreexo L N network =
     (let gen = block_hash L (blk_header (genesis_block N network));
          from_genesis = \<lparr>au_block_hash = gen, au_height = 0, au_roots = [], au_leaves = 0\<rparr>
      in case network of
        Bitcoin \<Rightarrow> \<lparr>
          au_block_hash = parse_block_hash L
            ''000000000000000000009d36aae180d04aeac872adb14e22f65c8b6647a8bf79'',
          au_height = 939969,
          au_roots = map (parse_node_hash N) [
            ''08daaf0c6bc41531885cfcfdeb89c34bd4d06ab4b105cf0e81bd74ab082693f5'',
            ''8d4166d0303d41f7023cd35b95b24455b99b2f4a2728083bba3d172727900bed'',
            ''08d95bc9b7bc0bc07c9f626322c0092bd16c198fcb96d290fe1a191e9719b4c9'',
            ''e663da82fd6523124b4ae5b52d1790460cfdd16ae7733fb5ef7d9d0e8911f516'',
            ''87a9dd5e49e99b29c394622207a27f0c2ba51a8325eedccc8f604b07b3dafe23'',
            ''174bed42eb80a6e5adec1e97f7fc8e736e96d99d0f4d6cdcfed0343281934aa3'',
            ''16a4b567f72e39d928b8fc84afc50e035bba5639c5bdaa01b53ddb806190f96a'',
            ''d1a2df40385aa7c5ac3b9fc9f1ebd4fa9c2d007842fa70e3f60a434762ae8855'',
            ''cf985706bc58a2fb89edc2f28b7c4bf04af440c0534da01b27a2a7eea5f98391'',
            ''6d3c3406b7b99e476a754f3d04a1bec2442b2699c8b7d317ee0aca877b59a74f'',
            ''f166e22db463c0c1ec2c374d6ddff56699ae27d52443622154a4f6f29b2d6bac'',
            ''11270cc9d63da0cf47b2a75e8948576fecc9f6405981f7306c2b58b0fcb37ef6'',
            ''fc9bcdcf61bf2ee5480326d24a460ef520f4b02d1cec8a309784795ddcc4bcd9'',
            ''c97717ab33820c8efe9d464ff48a1d593e06e4c99135686ae96cc7328a290a79'',
            ''5b3c899b033b43989ed57db0854e2deb084de27fcf8596e9c60738ccd08d16c1'',
            ''745b78a30e984590b7ceb3a433adb363862cf84b747cb55e500eb25164b5f71f'',
            ''d338cb3e81a902b4e0301f69ac9443f7a9bb423446bbac41306c7e839bae4866'',
            ''d3078b9c3bb20af622559fc2837d339210cd4e1e13ebdb66d19ca70e83e91a00''],
          au_leaves = 3066490760\<rparr>
      | Signet \<Rightarrow> \<lparr>
          au_block_hash = parse_block_hash L
            ''000000068d38e9cfa53268a08b32dab55118a58e5212729b016ee3c9c66387a6'',
          au_height = 296870,
          au_roots = map (parse_node_hash N) [
            ''2f50b3b1ed71ab671b8f9e90dcd1a73aba00ee9e8441f34c388efe224956257c'',
            ''cfbc9f1139665175ffdf6f949ec8e82956172e128ca4c1fca228ef5b6816c196'',
            ''31bcb14a70b18a8c22a4144e270dcdae8795cda26e938ed9c676dbba4443b8ad'',
            ''cb90b5ad4df6ff872f315575a8dda593f6d1382349f6f2e41e315f7ceb8a084f'',
            ''ca0db15d9e59ae69691e82b3e9b2fb65b7b932275cd86795337a066fb1f371a7'',
            ''d802536c657b0b52e34929ebf26033f0354d1ac65f2186f34e967fafa5b0c3fd'',
            ''fe157607ceec8e0f46d401f0f1a0d3421bfe40abaef708d9694246e512be27da'',
            ''87a75c823e13bb8d0111c238a0a9b5d8d89ba79395f7970418d9981ad5b0ffc3'',
            ''4670816e7c71a989e2d4da8dd491a045681536276e386913dca98c7f6fbe5156'',
            ''ed1e927d905d01616e066492d1f4a014151b74801299a596918d103c438e2551'',
            ''5c8e0755507f65c79972aaadf49a86f3c5f02a75d855a6a3380707830cc20ae2''],
          au_leaves = 126113034\<rparr>
      | Testnet \<Rightarrow> from_genesis
      | Testnet4 \<Rightarrow> from_genesis
      | Regtest \<Rightarrow> from_genesis)"

datatype assume_valid_arg = Disabled | Hardcoded | UserInput hash

definition get_assume_valid :: "bitcoin_api \<Rightarrow> network \<Rightarrow> assume_valid_arg \<Rightarrow> hash option" where
  "get_assume_valid L network arg =
     (case arg of
        Disabled \<Rightarrow> None
      | UserInput h \<Rightarrow> Some h
      | Hardcoded \<Rightarrow> Some (parse_block_hash L (case network of
          Bitcoin \<Rightarrow> ''000000000000000000019d4afaefa42fc5b4211a7edcce7681a1478df661ead6''
        | Signet \<Rightarrow> ''00000008f507c8db68879442b1eea8c312fd66b445d4dd9b1b12c4bc8188ef64''
        | Testnet \<Rightarrow> ''000000005cf458fb1f79c8fee78822eead52aee40530a6bbe018cd61f22d6bb1''
        | Testnet4 \<Rightarrow> ''000000000066d17b237cd1ac323526731084c3eed82caeacd1ec028c6fea7276''
        | Regtest \<Rightarrow> ''0f9188f13cb7b2c71f2a335e3a4fc328bf5beb436012afca590b1a11466e2206'')))"

text \<open>Flags of bitcoinkernel used below; the bit values are constants of that crate.\<close>

record kernel_flags =
  K_TAPROOT :: u32
  K_CHECKLOCKTIMEVERIFY :: u32
  K_DERSIG :: u32
  K_CHECKSEQUENCEVERIFY :: u32
  K_NULLDUMMY :: u32

definition get_validation_flags :: "kernel_flags \<Rightarrow> chain_params \<Rightarrow> u32 \<Rightarrow> hash \<Rightarrow> u32" where
  "get_validation_flags K cp height hash =
     (case exceptions cp hash of
        Some flag \<Rightarrow> flag
      | None \<Rightarrow>
         (let flags = VERIFY_P2SH OR VERIFY_WITNESS OR K_TAPROOT K;
              flags = (if bip65_height (cp_params cp) \<le> height
                       then flags OR K_CHECKLOCKTIMEVERIFY K else flags);
              flags = (if bip66_height (cp_params cp) \<le> height then flags OR K_DERSIG K else flags);
              flags = (if csv_activation_height cp \<le> height
                       then flags OR K_CHECKSEQUENCEVERIFY K else flags);
              flags = (if segwit_activation_height cp \<le> height then flags OR K_NULLDUMMY K else flags)
          in flags))"

definition get_sigop_flags :: "chain_params \<Rightarrow> hash \<Rightarrow> u32" where
  "get_sigop_flags cp hash =
     (case exceptions cp hash of Some flag \<Rightarrow> flag | None \<Rightarrow> VERIFY_P2SH OR VERIFY_WITNESS)"

definition get_exceptions :: "bitcoin_api \<Rightarrow> (hash \<rightharpoonup> u32)" where
  "get_exceptions L = Map.empty
     (parse_block_hash L ''00000000000002dc756eebf4f49723ed8d30cc28a5f108eb94b1ba88ac4f9c22''
        \<mapsto> VERIFY_NONE,
      parse_block_hash L ''0000000000000000000f14c35b2d841e986ab5441de8c585d5ffe55ea1e395ad''
        \<mapsto> VERIFY_P2SH OR VERIFY_WITNESS,
      parse_block_hash L ''00000000dd30457c001f4095d208cc1296b0eed002427aa599874af7a432b105''
        \<mapsto> VERIFY_NONE)"

definition chain_params_from :: "bitcoin_api \<Rightarrow> network_api \<Rightarrow> network \<Rightarrow> chain_params" where
  "chain_params_from L N network =
     (let base = \<lparr>cp_params = params_new N network, genesis = genesis_block N network,
            subsidy_interval = HalvingBitcoin, pow_target_timespan = 14 * 24 * 60 * 60,
            coinbase_maturity = 100, segwit_activation_height = 481824,
            csv_activation_height = 419328, exceptions = get_exceptions L,
            cp_network = network, enforce_bip94 = False\<rparr>
      in case network of
        Bitcoin \<Rightarrow> base
      | Testnet \<Rightarrow> base\<lparr>segwit_activation_height := 834624, csv_activation_height := 770112\<rparr>
      | Testnet4 \<Rightarrow> base\<lparr>segwit_activation_height := 1, csv_activation_height := 1,
          enforce_bip94 := True\<rparr>
      | Signet \<Rightarrow> base\<lparr>csv_activation_height := 1, segwit_activation_height := 1\<rparr>
      | Regtest \<Rightarrow> base\<lparr>pow_target_timespan := 24 * 60 * 60, subsidy_interval := HalvingRegtest,
          csv_activation_height := 1, segwit_activation_height := 0\<rparr>)"

text \<open>\<^verbatim>\<open>service_flags\<close> of \<^verbatim>\<open>floresta-common\<close>.\<close>

definition UTREEXO :: u64 where "UTREEXO = push_bit 12 1"
definition UTREEXO_ARCHIVE :: u64 where "UTREEXO_ARCHIVE = push_bit 13 1"

definition get_chain_dns_seeds :: "network_api \<Rightarrow> network \<Rightarrow> dns_seed list" where
  "get_chain_dns_seeds N network =
     (let none = sf_none N;
          x9 = sf_network N OR sf_witness N;
          x49 = sf_network N OR sf_witness N OR sf_compact_filters N;
          x1009 = sf_network N OR sf_witness N OR UTREEXO;
          x1000 = UTREEXO;
          dns = (\<lambda>s f. \<lparr>seed = s, filters = f\<rparr>)
      in case network of
        Bitcoin \<Rightarrow> [dns ''seed.calvinkim.info'' x1009,
          dns ''seed.bitcoin.luisschwab.com'' x1009,
          dns ''seed.bitcoin.sipa.be'' x9,
          dns ''dnsseed.bluematt.me'' x49,
          dns ''seed.bitcoinstats.com'' x49,
          dns ''seed.btc.petertodd.org'' x49,
          dns ''seed.bitcoin.sprovoost.nl'' x49,
          dns ''dnsseed.emzy.de'' x49,
          dns ''seed.bitcoin.wiz.biz'' x49,
          dns ''bitcoin.seed.dlsouza.lol'' x1000]
      | Signet \<Rightarrow> [dns ''signet.seed.dlsouza.lol'' x1000,
          dns ''seed.signet.bitcoin.sprovoost.nl'' x49,
          dns ''signet.seed.utreexo.net'' x1009]
      | Testnet \<Rightarrow> [dns ''testnet-seed.bitcoin.jonasschnelli.ch'' x49,
          dns ''testnet.seed.dlsouza.lol'' x1000,
          dns ''seed.tbtc.petertodd.org'' x49,
          dns ''seed.testnet.bitcoin.sprovoost.nl'' x49,
          dns ''testnet-seed.bluematt.me'' none]
      | Testnet4 \<Rightarrow> [dns ''seed.testnet4.bitcoin.sprovoost.nl'' none,
          dns ''seed.testnet4.wiz.biz'' none]
      | Regtest \<Rightarrow> [])"

definition buried_deployments_for :: "network \<Rightarrow> (string \<times> u32) list" where
  "buried_deployments_for network =
     (case network of
        Bitcoin \<Rightarrow> [(''bip34'', 227931), (''bip66'', 363725), (''bip65'', 388381), (''csv'', 419328), (''segwit'', 481824)]
      | Testnet \<Rightarrow> [(''bip34'', 21111), (''bip66'', 330776), (''bip65'', 581885), (''csv'', 770112), (''segwit'', 834624)]
      | Testnet4 \<Rightarrow> [(''bip34'', 1), (''bip66'', 1), (''bip65'', 1), (''csv'', 1), (''segwit'', 1)]
      | Signet \<Rightarrow> [(''bip34'', 1), (''bip66'', 1), (''bip65'', 1), (''csv'', 1), (''segwit'', 1)]
      | Regtest \<Rightarrow> [(''bip34'', 1), (''bip66'', 1), (''bip65'', 1), (''csv'', 1), (''segwit'', 0)])"

section \<open>Properties\<close>

lemmas chain_params_defs = chain_params_from_def Let_def

text \<open>On every network the CSV and SegWit heights that validation uses are the heights the node
  reports in its list of buried deployments.\<close>

theorem buried_deployments_agree:
  "map_of (buried_deployments_for n) ''csv'' = Some (csv_activation_height (chain_params_from L N n))
   \<and> map_of (buried_deployments_for n) ''segwit''
       = Some (segwit_activation_height (chain_params_from L N n))"
  by (cases n) (simp_all add: chain_params_defs buried_deployments_for_def)

end
