(* ===== verification/Sigops.thy ===== *)
theory Sigops
  imports Chain_Params
begin

text \<open>
  \<^verbatim>\<open>sigops.rs\<close>: the signature-operation cost of a transaction. Legacy counting is delegated to
  rust-bitcoin (\<^verbatim>\<open>Transaction::total_sigop_cost\<close> without prevouts); the P2SH and witness rules
  that depend on the spent outputs are implemented here. Costs are \<^verbatim>\<open>usize\<close>, 64 bits wide.
\<close>

section \<open>Definitions\<close>

definition legacy_sigop_cost :: "bitcoin_api \<Rightarrow> transaction \<Rightarrow> usize" where
  "legacy_sigop_cost L tx = legacy_total_sigop_cost L tx"

text \<open>\<^verbatim>\<open>script.instructions().map_while(Result::ok)\<close>: the instructions before the first one that
  does not parse.\<close>

fun ok_prefix :: "('e + 'a) list \<Rightarrow> 'a list" where
  "ok_prefix (Inr x # xs) = x # ok_prefix xs"
| "ok_prefix _ = []"

fun instruction_opcode :: "instruction \<Rightarrow> u8 option" where
  "instruction_opcode (Op opcode) = Some opcode"
| "instruction_opcode (PushBytes b) = None"

fun count_sigops_loop :: "bitcoin_api \<Rightarrow> instruction list \<Rightarrow> usize \<Rightarrow> usize option \<Rightarrow> usize" where
  "count_sigops_loop L [] count last_pushnum = count"
| "count_sigops_loop L (i # is) count last_pushnum =
     (case instruction_opcode i of
        None \<Rightarrow> count_sigops_loop L is count None
      | Some opcode \<Rightarrow>
         (case classify L opcode of
            OP_CHECKSIG \<Rightarrow> count_sigops_loop L is (count + 1) None
          | OP_CHECKSIGVERIFY \<Rightarrow> count_sigops_loop L is (count + 1) None
          | OP_CHECKMULTISIG \<Rightarrow>
              count_sigops_loop L is (count + (case last_pushnum of Some n \<Rightarrow> n | None \<Rightarrow> 20)) None
          | OP_CHECKMULTISIGVERIFY \<Rightarrow>
              count_sigops_loop L is (count + (case last_pushnum of Some n \<Rightarrow> n | None \<Rightarrow> 20)) None
          | PushNum n \<Rightarrow>
              count_sigops_loop L is count (if 1 \<le> n \<and> n \<le> 16 then Some (of_int n) else None)
          | OtherClass \<Rightarrow> count_sigops_loop L is count None))"

definition count_sigops_accurate :: "bitcoin_api \<Rightarrow> script \<Rightarrow> usize" where
  "count_sigops_accurate L s = count_sigops_loop L (ok_prefix (instructions L s)) 0 None"

definition pushed_redeem_script :: "bitcoin_api \<Rightarrow> script \<Rightarrow> script option" where
  "pushed_redeem_script L sig =
     (if \<not> is_push_only L sig then None
      else if instructions L sig = [] then None
      else case last (instructions L sig) of
             Inr (PushBytes bs) \<Rightarrow> Some bs
           | _ \<Rightarrow> None)"

definition p2sh_sigop_cost :: "bitcoin_api \<Rightarrow> txin \<Rightarrow> script \<Rightarrow> usize" where
  "p2sh_sigop_cost L input prevout =
     (if \<not> is_p2sh L prevout then 0
      else case pushed_redeem_script L (script_sig input) of
             None \<Rightarrow> 0
           | Some redeem_script \<Rightarrow>
               saturating_mul (count_sigops_accurate L redeem_script) (witness_scale_factor L))"

definition witness_program :: "bitcoin_api \<Rightarrow> txin \<Rightarrow> script \<Rightarrow> script option" where
  "witness_program L input prevout =
     (if is_witness_program L prevout then Some prevout
      else if is_p2sh L prevout then pushed_redeem_script L (script_sig input)
      else None)"

definition witness_sigop_cost :: "bitcoin_api \<Rightarrow> txin \<Rightarrow> script \<Rightarrow> usize" where
  "witness_sigop_cost L input prevout =
     (case witness_program L input prevout of
        None \<Rightarrow> 0
      | Some program \<Rightarrow>
          if is_p2wpkh L program then 1
          else if is_p2wsh L program then
            (if witness input = [] then 0 else count_sigops_accurate L (last (witness input)))
          else 0)"

definition input_sigop_cost :: "bitcoin_api \<Rightarrow> utxo_map \<Rightarrow> u32 \<Rightarrow> txin \<Rightarrow> usize \<Rightarrow> usize" where
  "input_sigop_cost L utxos flags input cost =
     (case utxos (previous_output input) of
        None \<Rightarrow> cost
      | Some prevout \<Rightarrow>
         (let prevout_script = script_pubkey (txout prevout);
              cost = (if flags AND VERIFY_P2SH \<noteq> 0
                      then saturating_add cost (p2sh_sigop_cost L input prevout_script) else cost);
              cost = (if flags AND VERIFY_WITNESS \<noteq> 0
                      then saturating_add cost (witness_sigop_cost L input prevout_script) else cost)
          in cost))"

definition sigop_cost :: "bitcoin_api \<Rightarrow> transaction \<Rightarrow> utxo_map \<Rightarrow> u32 \<Rightarrow> usize" where
  "sigop_cost L tx utxos flags =
     (let cost = legacy_sigop_cost L tx
      in if is_coinbase L tx \<or> flags AND (VERIFY_P2SH OR VERIFY_WITNESS) = 0 then cost
         else fold (input_sigop_cost L utxos flags) (tx_input tx) cost)"

section \<open>The counting rule without a running state\<close>

text \<open>What Bitcoin Core's rule says position by position: a signature check is one operation; a
  multi-signature check is the number pushed by the instruction just before it when that is a
  small-integer opcode, and 20 otherwise.\<close>

definition pushed_number :: "bitcoin_api \<Rightarrow> instruction \<Rightarrow> usize option" where
  "pushed_number L i =
     (case map_option (classify L) (instruction_opcode i) of
        Some (PushNum n) \<Rightarrow> if 1 \<le> n \<and> n \<le> 16 then Some (of_int n) else None
      | _ \<Rightarrow> None)"

definition instr_sigops :: "bitcoin_api \<Rightarrow> usize option \<Rightarrow> instruction \<Rightarrow> usize" where
  "instr_sigops L prev i =
     (case map_option (classify L) (instruction_opcode i) of
        Some OP_CHECKSIG \<Rightarrow> 1
      | Some OP_CHECKSIGVERIFY \<Rightarrow> 1
      | Some OP_CHECKMULTISIG \<Rightarrow> (case prev of Some n \<Rightarrow> n | None \<Rightarrow> 20)
      | Some OP_CHECKMULTISIGVERIFY \<Rightarrow> (case prev of Some n \<Rightarrow> n | None \<Rightarrow> 20)
      | _ \<Rightarrow> 0)"

definition position_sigops :: "bitcoin_api \<Rightarrow> instruction list \<Rightarrow> nat \<Rightarrow> usize" where
  "position_sigops L is k =
     instr_sigops L (if k = 0 then None else pushed_number L (is ! (k - 1))) (is ! k)"

lemma count_sigops_loop_Cons:
  "count_sigops_loop L (i # is) count prev
    = count_sigops_loop L is (count + instr_sigops L prev i) (pushed_number L i)"
  by (auto simp: pushed_number_def instr_sigops_def split: option.split opcode_class.split)

lemma count_sigops_loop_sum:
  "count_sigops_loop L is count prev = count + (\<Sum>k < length is.
     instr_sigops L (if k = 0 then prev else pushed_number L (is ! (k - 1))) (is ! k))"
proof (induction "is" arbitrary: count prev)
  case Nil
  then show ?case by simp
next
  case (Cons i "is")
  have "(if Suc k = 0 then prev else pushed_number L ((i # is) ! (Suc k - 1)))
      = (if k = 0 then pushed_number L i else pushed_number L (is ! (k - 1)))" for k
    by (cases k) simp_all
  with Cons.IH show ?case
    by (simp add: count_sigops_loop_Cons sum.lessThan_Suc_shift algebra_simps
        del: count_sigops_loop.simps sum.lessThan_Suc)
qed

lemma input_sigop_cost_ge: "cost \<le> input_sigop_cost L utxos flags input cost"
  by (auto simp: input_sigop_cost_def Let_def saturating_add_ge split: option.split
      intro: order_trans [OF saturating_add_ge saturating_add_ge])

section \<open>Properties\<close>

text \<open>The accurate count of a script, computed by one pass with a remembered push, is the sum
  over its positions of what each instruction costs given the instruction just before it.\<close>

theorem count_sigops_positionwise:
  "count_sigops_accurate L s
    = (let is = ok_prefix (instructions L s) in \<Sum>k < length is. position_sigops L is k)"
  by (simp add: count_sigops_accurate_def count_sigops_loop_sum position_sigops_def Let_def)

text \<open>The cost of a transaction is never below its legacy cost, and it is the legacy cost alone
  for a coinbase or when neither P2SH nor SegWit is enforced.\<close>

lemma sigop_cost_bounds:
  "legacy_sigop_cost L tx \<le> sigop_cost L tx utxos flags
   \<and> sigop_cost L tx utxos 0 = legacy_sigop_cost L tx"
proof -
  have "cost \<le> fold (input_sigop_cost L utxos flags) ins cost" for ins cost
    by (induction ins arbitrary: cost) (auto intro: order_trans [OF input_sigop_cost_ge])
  then show ?thesis by (simp add: sigop_cost_def Let_def)
qed

end
