(* ===== verification/Extensions.thy ===== *)
theory Extensions
  imports Sigops Merkle "HOL-Library.Multiset"
begin

text \<open>
  \<^verbatim>\<open>extensions.rs\<close>: the checks on a block that need nothing but the block, the BIP30 and BIP68
  predicates, the header queries that go through a chain (median time past, confirmations,
  next and previous block) and the multiplication of a 256-bit work by a 32-bit factor.
  A chain is seen through the read-only operations of \<^verbatim>\<open>BlockchainInterface\<close> that the header
  queries call (\<open>chain_view\<close>).
\<close>

section \<open>Definitions\<close>

definition is_bip30_unspendable :: "bitcoin_api \<Rightarrow> block \<Rightarrow> u32 \<Rightarrow> bool" where
  "is_bip30_unspendable L b height =
     (let bhash_91722 = parse_block_hash L
            ''00000000000271a2dc26e7667f8419f2e15416dc6955e5a6c6cdf3f2574dd08e'';
          bhash_91812 = parse_block_hash L
            ''00000000000af0aed4792b1acee3d966af36cf5def14935db8de83d6f9306f2f''
      in if height = 91722 then block_hash L (blk_header b) = bhash_91722
         else if height = 91812 then block_hash L (blk_header b) = bhash_91812
         else False)"

definition is_bip68_enabled :: "transaction \<Rightarrow> bool" where
  "is_bip68_enabled tx \<longleftrightarrow> 2 \<le> tx_version tx"

definition check_block_structure :: "bitcoin_api \<Rightarrow> block \<Rightarrow> block_ext_error + hash list" where
  "check_block_structure L b =
     bindE (ok_or ExtBadMerkleRoot (check_merkle_root L b)) (\<lambda>txids.
     bindE (reject_if (\<not> check_witness_commitment L b) ExtBadWitnessCommitment) (\<lambda>_.
     bindE (reject_if (block_weight L b > max_block_weight L) ExtBlockTooBig) (\<lambda>_.
     let cost = sum_list (map (legacy_sigop_cost L) (txdata b)) in
     bindE (reject_if (cost > max_block_sigops_cost L) ExtTooManySigops) (\<lambda>_.
     Inr txids))))"

datatype header_ext_error = ExtChain blockchain_error | BlockNotFound | ExtChainWorkOverflow

record chain_view =
  view_get_height :: "blockchain_error + u32"
  view_get_block_hash :: "u32 \<Rightarrow> blockchain_error + hash"
  view_get_block_header :: "hash \<Rightarrow> blockchain_error + header"
  view_get_block_height :: "hash \<Rightarrow> blockchain_error + u32 option"
  view_get_work :: "hash \<Rightarrow> blockchain_error + work"

definition MEDIAN_TIME_PAST_BLOCK_COUNT :: nat where
  "MEDIAN_TIME_PAST_BLOCK_COUNT = 11"

text \<open>The loop of \<^verbatim>\<open>median_time_past_with\<close>; the first argument counts the iterations left.\<close>

fun collect_timestamps ::
  "nat \<Rightarrow> (header \<Rightarrow> 'e + header) \<Rightarrow> header \<Rightarrow> u32 list \<Rightarrow> 'e + u32 list" where
  "collect_timestamps 0 previous_header current block_timestamps = Inr block_timestamps"
| "collect_timestamps (Suc n) previous_header current block_timestamps =
     (let block_timestamps = block_timestamps @ [hdr_time current]
      in if length block_timestamps = MEDIAN_TIME_PAST_BLOCK_COUNT
            \<or> prev_blockhash current = all_zeros
         then Inr block_timestamps
         else bindE (previous_header current) (\<lambda>current.
                collect_timestamps n previous_header current block_timestamps))"

definition median_time_past_with :: "(header \<Rightarrow> 'e + header) \<Rightarrow> header \<Rightarrow> 'e + u32" where
  "median_time_past_with previous_header h =
     bindE (collect_timestamps MEDIAN_TIME_PAST_BLOCK_COUNT previous_header h []) (\<lambda>ts.
     Inr (sort ts ! (length ts div 2)))"

definition get_previous_block_header :: "chain_view \<Rightarrow> header \<Rightarrow> header_ext_error + header" where
  "get_previous_block_header chain h =
     map_err ExtChain (view_get_block_header chain (prev_blockhash h))"

definition calculate_median_time_past :: "chain_view \<Rightarrow> header \<Rightarrow> header_ext_error + u32" where
  "calculate_median_time_past chain = median_time_past_with (get_previous_block_header chain)"

definition calculate_chain_work :: "bitcoin_api \<Rightarrow> chain_view \<Rightarrow> header \<Rightarrow> header_ext_error + work" where
  "calculate_chain_work L chain h = map_err ExtChain (view_get_work chain (block_hash L h))"

definition ext_get_height :: "bitcoin_api \<Rightarrow> chain_view \<Rightarrow> header \<Rightarrow> header_ext_error + u32" where
  "ext_get_height L chain h =
     (case view_get_block_height chain (block_hash L h) of
        Inr (Some height) \<Rightarrow> Inr height
      | Inr None \<Rightarrow> Inl BlockNotFound
      | Inl e \<Rightarrow> Inl (ExtChain e))"

definition get_next_block_hash ::
  "bitcoin_api \<Rightarrow> chain_view \<Rightarrow> header \<Rightarrow> header_ext_error + hash option" where
  "get_next_block_hash L chain h =
     bindE (ext_get_height L chain h) (\<lambda>height.
     case view_get_block_hash chain (height + 1) of
       Inr opt_hash \<Rightarrow> Inr (Some opt_hash)
     | Inl _ \<Rightarrow> Inr None)"

definition get_confirmations :: "bitcoin_api \<Rightarrow> chain_view \<Rightarrow> header \<Rightarrow> header_ext_error + u32" where
  "get_confirmations L chain h =
     bindE (ext_get_height L chain h) (\<lambda>height.
     bindE (map_err ExtChain (view_get_height chain)) (\<lambda>chain_height.
     Inr (chain_height - height + 1)))"

datatype chain_work_overflow = ChainWorkOverflow

fun chunks_exact4 :: "bytes \<Rightarrow> u32 list" where
  "chunks_exact4 (a # b # c # d # rest) = u32_from_le_bytes [a, b, c, d] # chunks_exact4 rest"
| "chunks_exact4 _ = []"

definition u32_to_be_bytes :: "u32 \<Rightarrow> bytes" where
  "u32_to_be_bytes w = rev (u32_to_le_bytes w)"

text \<open>The loop over the 32-bit words of the work. The source stores the word with index \<open>i\<close> at
  the word offset \<open>n - 1 - i\<close> of the result, so each word goes in front of the earlier ones.\<close>

fun multiply_words :: "u32 list \<Rightarrow> u32 \<Rightarrow> u64 \<Rightarrow> bytes \<Rightarrow> u64 \<times> bytes" where
  "multiply_words [] factor carry_high result_bytes = (carry_high, result_bytes)"
| "multiply_words (word # words) factor carry_high result_bytes =
     (let product = ucast word * ucast factor + carry_high
      in multiply_words words factor (drop_bit 32 product)
           (u32_to_be_bytes (ucast product) @ result_bytes))"

definition multiply_work_by_u32 :: "bitcoin_api \<Rightarrow> work \<Rightarrow> u32 \<Rightarrow> chain_work_overflow + work" where
  "multiply_work_by_u32 L w factor =
     (if factor = 0 then Inr (work_from_be_bytes L (replicate 32 0))
      else if factor = 1 then Inr w
      else
        (let by_chunks = chunks_exact4 (work_to_le_bytes L w);
             (carry_high, result_bytes) = multiply_words by_chunks factor 0 []
         in if carry_high > 0 then Inl ChainWorkOverflow
            else Inr (work_from_be_bytes L result_bytes)))"

section \<open>Multiplication\<close>

fun words_value :: "u32 list \<Rightarrow> nat" where
  "words_value [] = 0"
| "words_value (w # ws) = unat w + 2 ^ 32 * words_value ws"

lemma be_value_append: "be_value (xs @ ys) = be_value xs * 256 ^ length ys + be_value ys"
  by (simp add: be_value_def le_value_append algebra_simps)

lemma u32_to_be_bytes_value: "be_value (u32_to_be_bytes w) = unat w"
proof -
  have "unat w < 256 ^ 4" using unsigned_less [of w, where ?'a = nat] by simp
  then show ?thesis
    by (simp add: be_value_def u32_to_be_bytes_def u32_to_le_bytes_def le_value_to_le_bytes)
qed

lemma length_u32_to_be_bytes [simp]: "length (u32_to_be_bytes w) = 4"
  by (simp add: u32_to_be_bytes_def)

lemma chunks_exact4_value:
  "length bs mod 4 = 0 \<Longrightarrow> words_value (chunks_exact4 bs) = le_value bs
     \<and> length (chunks_exact4 bs) = length bs div 4"
proof (induction bs rule: chunks_exact4.induct)
  case (1 a b c d rest)
  have "le_value [a, b, c, d] < 2 ^ 32" using le_value_less [of "[a, b, c, d]"] by simp
  then have "unat (u32_from_le_bytes [a, b, c, d]) = le_value [a, b, c, d]"
    by (simp only: u32_from_le_bytes_def unat_of_nat) simp
  moreover have "length rest mod 4 = 0" using 1(2) by simp
  ultimately show ?case using 1(1) by (simp add: algebra_simps)
qed simp_all

lemma word_product_step:
  fixes word factor :: u32 and carry :: u64
  assumes "unat carry < 2 ^ 32"
  defines "product \<equiv> (ucast word * ucast factor + carry :: u64)"
  shows "unat product = unat word * unat factor + unat carry"
    and "unat (drop_bit 32 product) = unat product div 2 ^ 32"
    and "unat (ucast product :: u32) = unat product mod 2 ^ 32"
    and "unat (drop_bit 32 product) < 2 ^ 32"
proof -
  have "unat word \<le> 2 ^ 32 - 1" "unat factor \<le> 2 ^ 32 - 1"
    using unsigned_less [of word, where ?'a = nat] unsigned_less [of factor, where ?'a = nat]
    by simp_all
  then have "unat word * unat factor \<le> (2 ^ 32 - 1) * (2 ^ 32 - 1)"
    by (rule mult_le_mono)
  with assms(1) have *: "unat word * unat factor + unat carry < 2 ^ 64" by simp
  have "unat (ucast x :: u64) = unat x" for x :: u32
    using unsigned_less [of x, where ?'a = nat] by (simp add: unsigned_ucast_eq take_bit_eq_mod)
  with * have prod: "unat (ucast word * ucast factor :: u64) = unat word * unat factor"
    by (simp add: unat_word_ariths)
  show "unat product = unat word * unat factor + unat carry"
    using * by (simp add: product_def unat_add_no_overflow prod)
  show dr: "unat (drop_bit 32 product) = unat product div 2 ^ 32"
    by (simp add: drop_bit_eq_div unat_div)
  show "unat (ucast product :: u32) = unat product mod 2 ^ 32"
    by (simp add: unsigned_ucast_eq take_bit_eq_mod)
  have "unat product < 2 ^ 64" using unsigned_less [of product, where ?'a = nat] by simp
  then show "unat (drop_bit 32 product) < 2 ^ 32" by (simp add: dr)
qed

lemma carry_step_arith:
  fixes a b c m r R :: nat
  assumes "c * 256 ^ (4 * n + (4 + k)) + r = a * 256 ^ (4 + k) + (m * 256 ^ k + b) \<and> P"
    and "a * 2 ^ 32 + m = R"
  shows "c * 256 ^ (4 * n + (4 + k)) + r = R * 256 ^ k + b \<and> P"
  using assms by (auto simp: power_add algebra_simps)

lemma multiply_words_correct:
  assumes "unat carry < 2 ^ 32" and "multiply_words ws factor carry bs = (c, r)"
  shows "unat c * 256 ^ (4 * length ws + length bs) + be_value r
      = (words_value ws * unat factor + unat carry) * 256 ^ length bs + be_value bs
    \<and> length r = 4 * length ws + length bs"
  using assms
proof (induction ws arbitrary: carry bs)
  case Nil
  then show ?case by simp
next
  case (Cons w ws)
  let ?p = "ucast w * ucast factor + carry :: u64"
  note step = word_product_step [OF Cons.prems(1), of w factor]
  let ?q = "unat ?p div 2 ^ 32"
  have IH: "unat c * 256 ^ (4 * length ws + (4 + length bs)) + be_value r
      = (words_value ws * unat factor + ?q) * 256 ^ (4 + length bs)
        + (unat ?p mod 2 ^ 32 * 256 ^ length bs + be_value bs)
      \<and> length r = 4 * length ws + (4 + length bs)"
    using Cons.IH [OF step(4), of "u32_to_be_bytes (ucast ?p) @ bs"] Cons.prems(2) step(2,3)
    by (simp add: Let_def be_value_append u32_to_be_bytes_value)
  have "?q * 2 ^ 32 + unat ?p mod 2 ^ 32 = unat w * unat factor + unat carry"
    using step(1) by (simp add: div_mult_mod_eq)
  then have "(words_value ws * unat factor + ?q) * 2 ^ 32 + unat ?p mod 2 ^ 32
      = words_value (w # ws) * unat factor + unat carry"
    by (simp add: algebra_simps)
  from carry_step_arith [OF IH this] show ?case by (simp only: list.size mult_Suc_right) (simp add: ac_simps)
qed

section \<open>Timestamps\<close>

text \<open>A list of headers from a block back to a block without parent, as a lookup of the previous
  header gives them.\<close>

fun header_chain :: "(header \<Rightarrow> 'e + header) \<Rightarrow> header list \<Rightarrow> bool" where
  "header_chain prev [] = False"
| "header_chain prev [h] = (prev_blockhash h = all_zeros)"
| "header_chain prev (h # h' # hs) =
     (prev_blockhash h \<noteq> all_zeros \<and> prev h = Inr h' \<and> header_chain prev (h' # hs))"

lemma collect_timestamps_chain:
  assumes "header_chain prev (h # hs)" and "length ts + n = MEDIAN_TIME_PAST_BLOCK_COUNT" and "0 < n"
  shows "collect_timestamps n prev h ts = Inr (ts @ map hdr_time (take n (h # hs)))"
  using assms
proof (induction n arbitrary: h hs ts)
  case 0
  then show ?case by simp
next
  case (Suc n)
  show ?case
  proof (cases hs)
    case Nil
    with Suc.prems show ?thesis by (simp add: Let_def)
  next
    case (Cons h' hs')
    with Suc.prems Suc.IH [of h' hs' "ts @ [hdr_time h]"] show ?thesis
      by (cases n) (simp_all add: Let_def)
  qed
qed

lemma sorted_less_count:
  assumes "sorted xs" and "k < length xs"
  shows "length (filter (\<lambda>x. x < xs ! k) xs) \<le> k"
    and "length (filter (\<lambda>x. xs ! k < x) xs) < length xs - k"
proof -
  have "filter (\<lambda>x. x < xs ! k) (drop k xs) = []"
    using assms by (auto simp: filter_empty_conv in_set_conv_nth sorted_iff_nth_mono not_less)
  then have "filter (\<lambda>x. x < xs ! k) xs = filter (\<lambda>x. x < xs ! k) (take k xs)"
    by (metis append_Nil2 append_take_drop_id filter_append)
  then show "length (filter (\<lambda>x. x < xs ! k) xs) \<le> k"
    using length_filter_le [of _ "take k xs"] assms(2) by (metis length_take min.absorb4)
  have "filter (\<lambda>x. xs ! k < x) (take (Suc k) xs) = []"
    using assms
    by (auto simp: filter_empty_conv in_set_conv_nth sorted_iff_nth_mono not_less less_Suc_eq_le)
  then have "filter (\<lambda>x. xs ! k < x) xs = filter (\<lambda>x. xs ! k < x) (drop (Suc k) xs)"
    by (metis append_Nil append_take_drop_id filter_append)
  then show "length (filter (\<lambda>x. xs ! k < x) xs) < length xs - k"
    using length_filter_le [of "\<lambda>x. xs ! k < x" "drop (Suc k) xs"] assms(2) by simp
qed

lemma length_filter_sort: "length (filter P (sort xs)) = length (filter P xs)"
  by (metis mset_filter mset_sort size_mset)

lemma multiply_work_exact:
  assumes "work_laws L"
  shows "multiply_work_by_u32 L w factor =
    (if unat w * unat factor < 2 ^ 256 then Inr (w * ucast factor) else Inl ChainWorkOverflow)"
proof (cases "factor = 0 \<or> factor = 1")
  case True
  have "unat (work_from_be_bytes L (replicate 32 0)) = 0"
    using assms by (simp add: work_laws_def be_value_def) (simp add: eval_nat_numeral)
  moreover have "unat w < 2 ^ 256" using unsigned_less [of w, where ?'a = nat] by simp
  ultimately show ?thesis
    using True by (auto simp: multiply_work_by_u32_def unat_eq_0)
next
  case False
  obtain c r where cr: "multiply_words (chunks_exact4 (work_to_le_bytes L w)) factor 0 [] = (c, r)"
    by (cases "multiply_words (chunks_exact4 (work_to_le_bytes L w)) factor 0 []")
  have "words_value (chunks_exact4 (work_to_le_bytes L w)) = unat w"
    and "length (chunks_exact4 (work_to_le_bytes L w)) = 8"
    using assms chunks_exact4_value [of "work_to_le_bytes L w"] by (simp_all add: work_laws_def)
  with multiply_words_correct [OF _ cr]
  have prod: "unat c * 256 ^ 32 + be_value r = unat w * unat factor" and len: "length r = 32"
    by (simp_all add: be_value_def)
  have r: "be_value r < 256 ^ 32" using le_value_less [of "rev r"] len by (simp add: be_value_def)
  have no_carry: "c = 0 \<longleftrightarrow> unat w * unat factor < 2 ^ 256"
    using prod r by (cases "unat c") (auto simp: unat_eq_0)
  have "unat (work_from_be_bytes L r) = unat (w * ucast factor)" if "c = 0"
    using that assms len prod no_carry
    by (simp add: work_laws_def unat_word_ariths unsigned_ucast_eq take_bit_eq_mod mod_mult_right_eq)
  with False cr no_carry show ?thesis
    by (simp add: multiply_work_by_u32_def word_gt_0 flip: word_unat_eq_iff)
qed

section \<open>Properties\<close>

text \<open>C11. The schoolbook multiplication over eight 32-bit words computes the product of the work
  and the factor, and reports an overflow exactly when the product does not fit 256 bits.\<close>

theorem multiply_work_correct:
  assumes "work_laws L"
  shows "multiply_work_by_u32 L w factor =
    (if unat w * unat factor < 2 ^ 256 then Inr (w * ucast factor) else Inl ChainWorkOverflow)"
  using assms by (rule multiply_work_exact)

theorem multiply_work_correct_witness:
  "multiply_work_by_u32 demo_api (2 ^ 200 + 5) 1000
    = (if unat (2 ^ 200 + 5 :: work) * unat (1000 :: u32) < 2 ^ 256
       then Inr ((2 ^ 200 + 5) * ucast (1000 :: u32)) else Inl ChainWorkOverflow)"
  by (rule multiply_work_correct [OF demo_work_laws])

text \<open>C12. The median time past of a block is the middle element of the sorted timestamps of the
  block and its ancestors, at most eleven of them: no more than half of them are before it, and
  fewer than half are after it.\<close>

theorem median_time_past_correct:
  assumes "header_chain prev (h # hs)"
  shows "\<exists>m. median_time_past_with prev h = Inr m
    \<and> (let ts = map hdr_time (take 11 (h # hs)) in
         m \<in> set ts
       \<and> 2 * length (filter (\<lambda>t. t < m) ts) \<le> length ts
       \<and> 2 * length (filter (\<lambda>t. m < t) ts) < length ts)"
proof -
  let ?ts = "map hdr_time (take 11 (h # hs))"
  let ?k = "length ?ts div 2"
  have k: "?k < length (sort ?ts)" by simp
  have "median_time_past_with prev h = Inr (sort ?ts ! ?k)"
    using collect_timestamps_chain [OF assms, of "[]" 11]
    by (simp add: median_time_past_with_def MEDIAN_TIME_PAST_BLOCK_COUNT_def)
  moreover have "sort ?ts ! ?k \<in> set ?ts" by (metis k nth_mem set_sort)
  moreover note sorted_less_count [OF sorted_sort k, unfolded length_filter_sort length_sort]
  then have "2 * length (filter (\<lambda>t. t < sort ?ts ! ?k) ?ts) \<le> length ?ts"
    and "2 * length (filter (\<lambda>t. sort ?ts ! ?k < t) ?ts) < length ?ts"
    by linarith+
  ultimately show ?thesis unfolding Let_def by blast
qed

definition demo_header :: "hash \<Rightarrow> u32 \<Rightarrow> header" where
  "demo_header prev time = \<lparr>hdr_version = 4, prev_blockhash = prev, merkle_root = [], hdr_time = time,
     hdr_bits = 0, hdr_nonce = time\<rparr>"

theorem median_time_past_correct_witness:
  "\<exists>m. median_time_past_with (\<lambda>_. Inr (demo_header all_zeros 7) :: unit + header) (demo_header [1] 9) = Inr m
    \<and> (let ts = map hdr_time (take 11 [demo_header [1] 9, demo_header all_zeros 7]) in
         m \<in> set ts
       \<and> 2 * length (filter (\<lambda>t. t < m) ts) \<le> length ts
       \<and> 2 * length (filter (\<lambda>t. m < t) ts) < length ts)"
  by (rule median_time_past_correct) (auto simp: demo_header_def all_zeros_def dest: arg_cong [of _ _ length])

end
