(* ===== verification/Swift_Sync_Agg.thy ===== *)
theory Swift_Sync_Agg
  imports Bitcoin_Types "HOL-Library.Multiset"
begin

text \<open>
  The SwiftSync aggregator of \<^verbatim>\<open>consensus.rs\<close> (module \<^verbatim>\<open>swift_sync_agg\<close> and
  \<^verbatim>\<open>Consensus::add_outputs_to_agg\<close>): a pair of 64-bit limbs to which the keyed hashes of
  outpoints are added and from which they are subtracted, both with wrap-around. The SipHash
  engine is code of another crate: \<open>sip_api\<close>.

  The locale \<open>aggregator\<close> is the contract (adding commutes, removing undoes adding); inside it,
  any interleaving of the same additions and removals ends in the same value, and equal multisets
  cancel. The optimised path over a cached \<^verbatim>\<open>txid\<close> midstate equals adding each outpoint.
\<close>

section \<open>Definitions\<close>

record 'e sip_api =
  with_keys :: "u64 \<Rightarrow> u64 \<Rightarrow> 'e"
  engine_input :: "'e \<Rightarrow> bytes \<Rightarrow> 'e"
  engine_to_u64 :: "'e \<Rightarrow> u64"

record sip_hash_keys =
  k0 :: u64
  k1 :: u64
  k2 :: u64
  k3 :: u64

record 'e txid_hash_midstate =
  base0 :: 'e
  base1 :: 'e

definition midstate_new :: "'e sip_api \<Rightarrow> sip_hash_keys \<Rightarrow> hash \<Rightarrow> 'e txid_hash_midstate" where
  "midstate_new S keys txid =
     \<lparr>base0 = engine_input S (with_keys S (k0 keys) (k1 keys)) txid,
      base1 = engine_input S (with_keys S (k2 keys) (k3 keys)) txid\<rparr>"

definition finalize_with_vout :: "'e sip_api \<Rightarrow> 'e txid_hash_midstate \<Rightarrow> u32 \<Rightarrow> u64 \<times> u64" where
  "finalize_with_vout S m vout =
     (let vout_le = u32_to_le_bytes vout
      in (engine_to_u64 S (engine_input S (base0 m) vout_le),
          engine_to_u64 S (engine_input S (base1 m) vout_le)))"

datatype swift_sync_agg = SwiftSyncAgg u64 u64

definition agg_zero :: swift_sync_agg where
  "agg_zero = SwiftSyncAgg 0 0"

fun agg_is_zero :: "swift_sync_agg \<Rightarrow> bool" where
  "agg_is_zero (SwiftSyncAgg a b) \<longleftrightarrow> a = 0 \<and> b = 0"

fun agg_wrapping_add :: "swift_sync_agg \<Rightarrow> u64 \<times> u64 \<Rightarrow> swift_sync_agg" where
  "agg_wrapping_add (SwiftSyncAgg a b) (x, y) = SwiftSyncAgg (a + x) (b + y)"

fun agg_wrapping_sub :: "swift_sync_agg \<Rightarrow> u64 \<times> u64 \<Rightarrow> swift_sync_agg" where
  "agg_wrapping_sub (SwiftSyncAgg a b) (x, y) = SwiftSyncAgg (a - x) (b - y)"

definition sip64 :: "'e sip_api \<Rightarrow> u64 \<Rightarrow> u64 \<Rightarrow> bytes \<Rightarrow> u64" where
  "sip64 S key0 key1 msg = engine_to_u64 S (engine_input S (with_keys S key0 key1) msg)"

definition hash_outpoint :: "'e sip_api \<Rightarrow> sip_hash_keys \<Rightarrow> outpoint \<Rightarrow> u64 \<times> u64" where
  "hash_outpoint S keys out =
     (let bs = op_txid out @ u32_to_le_bytes (op_vout out)
      in (sip64 S (k0 keys) (k1 keys) bs, sip64 S (k2 keys) (k3 keys) bs))"

definition agg_add :: "'e sip_api \<Rightarrow> sip_hash_keys \<Rightarrow> swift_sync_agg \<Rightarrow> outpoint \<Rightarrow> swift_sync_agg" where
  "agg_add S salt agg out = agg_wrapping_add agg (hash_outpoint S salt out)"

definition agg_add_with_vout ::
  "'e sip_api \<Rightarrow> swift_sync_agg \<Rightarrow> 'e txid_hash_midstate \<Rightarrow> u32 \<Rightarrow> swift_sync_agg" where
  "agg_add_with_vout S agg hasher vout = agg_wrapping_add agg (finalize_with_vout S hasher vout)"

definition agg_remove :: "'e sip_api \<Rightarrow> sip_hash_keys \<Rightarrow> swift_sync_agg \<Rightarrow> outpoint \<Rightarrow> swift_sync_agg" where
  "agg_remove S salt agg out = agg_wrapping_sub agg (hash_outpoint S salt out)"

text \<open>\<^verbatim>\<open>impl Add for SwiftSyncAgg\<close> (and \<^verbatim>\<open>AddAssign\<close>), which combines the deltas of two blocks.\<close>

fun agg_plus :: "swift_sync_agg \<Rightarrow> swift_sync_agg \<Rightarrow> swift_sync_agg" where
  "agg_plus a (SwiftSyncAgg x y) = agg_wrapping_add a (x, y)"

definition add_outputs_to_agg ::
  "'e sip_api \<Rightarrow> sip_hash_keys \<Rightarrow> swift_sync_agg \<Rightarrow> hash \<Rightarrow> u32 list \<Rightarrow> swift_sync_agg" where
  "add_outputs_to_agg S salt agg txid spent_vouts =
     (case spent_vouts of
        [] \<Rightarrow> agg
      | [vout] \<Rightarrow> agg_add S salt agg \<lparr>op_txid = txid, op_vout = vout\<rparr>
      | _ \<Rightarrow>
         (let midstate = midstate_new S salt txid
          in foldl (\<lambda>acc vout. agg_add_with_vout S acc midstate vout) agg spent_vouts))"

section \<open>The contract of an aggregator\<close>

datatype 'p agg_op = AddOp 'p | RemoveOp 'p

fun agg_step :: "('a \<Rightarrow> 'p \<Rightarrow> 'a) \<Rightarrow> ('a \<Rightarrow> 'p \<Rightarrow> 'a) \<Rightarrow> 'a \<Rightarrow> 'p agg_op \<Rightarrow> 'a" where
  "agg_step add remove a (AddOp x) = add a x"
| "agg_step add remove a (RemoveOp x) = remove a x"

locale aggregator =
  fixes zero :: 'a
    and add :: "'a \<Rightarrow> 'p \<Rightarrow> 'a"
    and remove :: "'a \<Rightarrow> 'p \<Rightarrow> 'a"
  assumes add_commute: "add (add a x) y = add (add a y) x"
    and remove_add: "remove (add a x) x = a"
    and add_remove: "add (remove a x) x = a"
begin

lemma add_remove_commute: "add (remove a y) x = remove (add a x) y"
  by (metis add_commute remove_add add_remove)

lemma remove_commute: "remove (remove a x) y = remove (remove a y) x"
  by (metis add_commute remove_add add_remove)

lemma step_commute: "agg_step add remove (agg_step add remove a x) y = agg_step add remove (agg_step add remove a y) x"
  by (cases x; cases y) (simp_all add: add_commute remove_commute add_remove_commute)

lemma foldl_step_out: "foldl (agg_step add remove) (agg_step add remove a x) ops = agg_step add remove (foldl (agg_step add remove) a ops) x"
  by (induction ops arbitrary: a) (simp_all add: step_commute)

lemma foldl_step_mset: "mset xs = mset ys \<Longrightarrow> foldl (agg_step add remove) a xs = foldl (agg_step add remove) a ys"
proof (induction xs arbitrary: ys a)
  case Nil
  then show ?case by simp
next
  case (Cons x xs)
  then obtain us vs where ys: "ys = us @ x # vs"
    by (metis in_set_conv_decomp list.set_intros(1) mset_eq_setD)
  with Cons.prems have "mset xs = mset (us @ vs)" by simp
  then have "foldl (agg_step add remove) (agg_step add remove a x) xs = foldl (agg_step add remove) (agg_step add remove a x) (us @ vs)"
    by (rule Cons.IH)
  then show ?case by (simp add: ys foldl_step_out)
qed

lemma foldl_add_remove:
  "foldl (agg_step add remove) a (map AddOp ps @ map RemoveOp ps) = a"
proof (induction ps arbitrary: a)
  case Nil
  then show ?case by simp
next
  case (Cons p ps)
  have "foldl (agg_step add remove) a (map AddOp (p # ps) @ map RemoveOp (p # ps))
      = foldl (agg_step add remove) a ([AddOp p, RemoveOp p] @ map AddOp ps @ map RemoveOp ps)"
    by (rule foldl_step_mset) simp
  also have "\<dots> = a" by (simp add: Cons.IH [simplified] remove_add)
  finally show ?case .
qed

lemma balanced_cancels:
  assumes "mset ops = image_mset AddOp M + image_mset RemoveOp M"
  shows "foldl (agg_step add remove) a ops = a"
proof -
  obtain ps where "mset ps = M" using ex_mset by blast
  with assms have "mset ops = mset (map AddOp ps @ map RemoveOp ps)" by simp
  then show ?thesis by (metis foldl_step_mset foldl_add_remove)
qed

end

lemma agg_wrapping_inverse:
  "agg_wrapping_sub (agg_wrapping_add a p) p = a"
  "agg_wrapping_add (agg_wrapping_sub a p) p = a"
  "agg_wrapping_add (agg_wrapping_add a p) q = agg_wrapping_add (agg_wrapping_add a q) p"
  by (cases a; cases p; cases q; simp add: ac_simps)+

interpretation swift: aggregator agg_zero "agg_add S salt" "agg_remove S salt" for S salt
  by unfold_locales (simp_all add: agg_add_def agg_remove_def agg_wrapping_inverse)

section \<open>Midstates\<close>

text \<open>Streaming: hashing a message in two pieces is hashing their concatenation, the documented
  behaviour of \<^verbatim>\<open>HashEngine::input\<close>.\<close>

definition sip_streaming :: "'e sip_api \<Rightarrow> bool" where
  "sip_streaming S \<longleftrightarrow> (\<forall>a b x y.
     engine_to_u64 S (engine_input S (engine_input S (with_keys S a b) x) y)
       = engine_to_u64 S (engine_input S (with_keys S a b) (x @ y)))"

lemma finalize_midstate:
  "sip_streaming S \<Longrightarrow>
   finalize_with_vout S (midstate_new S salt txid) vout
     = hash_outpoint S salt \<lparr>op_txid = txid, op_vout = vout\<rparr>"
  by (simp add: finalize_with_vout_def midstate_new_def hash_outpoint_def sip64_def
      sip_streaming_def Let_def)

lemma add_outputs_to_agg_eq:
  assumes "sip_streaming S"
  shows "add_outputs_to_agg S salt agg txid vouts
    = foldl (agg_add S salt) agg (map (\<lambda>v. \<lparr>op_txid = txid, op_vout = v\<rparr>) vouts)"
proof -
  have "foldl (\<lambda>acc v. agg_add_with_vout S acc (midstate_new S salt txid) v) agg vouts
    = foldl (agg_add S salt) agg (map (\<lambda>v. \<lparr>op_txid = txid, op_vout = v\<rparr>) vouts)" for agg vouts
    by (induction vouts arbitrary: agg)
      (simp_all add: agg_add_with_vout_def agg_add_def finalize_midstate assms)
  from this [of agg vouts] show ?thesis
    by (auto simp: add_outputs_to_agg_def Let_def split: list.split)
qed

section \<open>Properties\<close>

definition agg_run ::
  "'e sip_api \<Rightarrow> sip_hash_keys \<Rightarrow> swift_sync_agg \<Rightarrow> outpoint agg_op list \<Rightarrow> swift_sync_agg" where
  "agg_run S salt = foldl (agg_step (agg_add S salt) (agg_remove S salt))"

text \<open>Whatever the order in which outpoints are added to and removed from the aggregator, it is
  zero again when the multiset of added outpoints is the multiset of removed ones.\<close>

theorem aggregator_cancels:
  assumes "mset ops = image_mset AddOp M + image_mset RemoveOp M"
  shows "agg_is_zero (agg_run S salt agg_zero ops)"
  by (simp add: agg_run_def swift.balanced_cancels [OF assms] agg_zero_def)

definition demo_sip :: "u64 sip_api" where
  "demo_sip = \<lparr>with_keys = (\<lambda>a b. a + 3 * b),
     engine_input = foldl (\<lambda>acc b. acc * 31 + ucast b),
     engine_to_u64 = (\<lambda>e. e)\<rparr>"

definition demo_salt :: sip_hash_keys where
  "demo_salt = \<lparr>k0 = 1, k1 = 2, k2 = 3, k3 = 4\<rparr>"

definition demo_outpoint :: "u32 \<Rightarrow> outpoint" where
  "demo_outpoint v = \<lparr>op_txid = [7], op_vout = v\<rparr>"

theorem aggregator_cancels_witness:
  "agg_is_zero (agg_run demo_sip demo_salt agg_zero
     [RemoveOp (demo_outpoint 1), AddOp (demo_outpoint 2), AddOp (demo_outpoint 1),
      RemoveOp (demo_outpoint 2)])"
  by (rule aggregator_cancels [where M = "{# demo_outpoint 1, demo_outpoint 2 #}"]) simp

text \<open>Adding the spent outputs of a transaction through the cached midstate of its txid gives
  the aggregator that adding each outpoint on its own gives.\<close>

theorem add_outputs_midstate:
  assumes "sip_streaming S"
  shows "add_outputs_to_agg S salt agg txid vouts
    = agg_run S salt agg (map (\<lambda>v. AddOp \<lparr>op_txid = txid, op_vout = v\<rparr>) vouts)"
  by (simp add: add_outputs_to_agg_eq assms agg_run_def foldl_map)

theorem add_outputs_midstate_witness:
  "add_outputs_to_agg demo_sip demo_salt agg_zero [7] [0, 1, 2]
    = agg_run demo_sip demo_salt agg_zero (map (\<lambda>v. AddOp \<lparr>op_txid = [7], op_vout = v\<rparr>) [0, 1, 2])"
  by (rule add_outputs_midstate) (simp add: sip_streaming_def demo_sip_def)

end
