(* ===== verification/Consensus.thy ===== *)
theory Consensus
  imports Extensions Swift_Sync_Agg
begin

text \<open>
  The transaction rules of \<^verbatim>\<open>consensus.rs\<close>: lock times, subsidy and supply, the checks of one
  transaction with and without the outputs it spends, the loop over the transactions of a block,
  the AssumeValid SwiftSync loop, the coinbase, header version, BIP34, BIP94 and difficulty rules.

  The \<^verbatim>\<open>utxos\<close> hash map is a partial function; a function that takes it as \<^verbatim>\<open>&mut\<close> returns the
  updated map with its result. Script execution belongs to bitcoinkernel and is compiled in only
  with the feature of that name: \<open>scripts\<close> is \<open>None\<close> without the feature and
  \<open>Some (verify_input_scripts L K)\<close> with it, for a kernel \<open>K\<close>.
\<close>

section \<open>Lock times\<close>

datatype lock_time_cutoff = HeaderTime u32 | Mtp u32

fun cutoff_value :: "lock_time_cutoff \<Rightarrow> u32" where
  "cutoff_value (HeaderTime v) = v"
| "cutoff_value (Mtp v) = v"

fun relative_locktime_satisfied ::
  "lock_time_cutoff \<Rightarrow> relative_lock_time \<Rightarrow> u32 \<Rightarrow> u32 \<Rightarrow> bool" where
  "relative_locktime_satisfied (HeaderTime v) lock elapsed_height creation = True"
| "relative_locktime_satisfied (Mtp v) (RelBlocks blocks) elapsed_height creation =
     (ucast blocks \<le> elapsed_height)"
| "relative_locktime_satisfied (Mtp v) (RelTime time) elapsed_height creation =
     (ucast time \<le> saturating_sub v creation div 512)"

definition block_lock_time_cutoff ::
  "chain_params \<Rightarrow> u32 \<Rightarrow> header \<Rightarrow> (unit \<Rightarrow> 'e + u32) \<Rightarrow> 'e + lock_time_cutoff" where
  "block_lock_time_cutoff cp height hdr previous_median_time_past =
     (if csv_activation_height cp \<le> height
      then bindE (previous_median_time_past ()) (\<lambda>t. Inr (Mtp t))
      else Inr (HeaderTime (hdr_time hdr)))"

definition is_final_transaction :: "bitcoin_api \<Rightarrow> transaction \<Rightarrow> u32 \<Rightarrow> lock_time_cutoff \<Rightarrow> bool" where
  "is_final_transaction L tx height cutoff =
     (if lock_time tx = lock_time_zero L then True
      else
        (let lock_time_reached =
           (case lock_time tx of
              Blocks lock_height \<Rightarrow> lock_height < height
            | Seconds t \<Rightarrow> t < cutoff_value cutoff)
         in lock_time_reached \<or> list_all (\<lambda>input. is_final L (sequence input)) (tx_input tx)))"

section \<open>Subsidy and supply\<close>

definition MAX_SUBSIDY_HALVINGS :: u32 where
  "MAX_SUBSIDY_HALVINGS = 64"

definition get_subsidy :: "bitcoin_api \<Rightarrow> network_api \<Rightarrow> chain_params \<Rightarrow> u32 \<Rightarrow> amount" where
  "get_subsidy L N cp height =
     (let halvings = height div halving_get N (subsidy_interval cp)
      in if MAX_SUBSIDY_HALVINGS \<le> halvings then 0
         else drop_bit (unat halvings) (50 * one_btc L))"

text \<open>\<open>None\<close> is the documented panic at \<^verbatim>\<open>u32::MAX\<close>.\<close>

definition max_supply_at_height ::
  "bitcoin_api \<Rightarrow> network_api \<Rightarrow> chain_params \<Rightarrow> u32 \<Rightarrow> amount option" where
  "max_supply_at_height L N cp height =
     (let blocks_per_epoch = halving_get N (subsidy_interval cp)
      in case checked_add height 1 of
           None \<Rightarrow> None
         | Some block_count \<Rightarrow>
            (let full_epochs = block_count div blocks_per_epoch;
                 rem_blocks = block_count mod blocks_per_epoch;
                 epoch_subsidy = (\<lambda>epoch. get_subsidy L N cp (blocks_per_epoch * epoch));
                 total = fold (\<lambda>epoch total.
                     total + ucast blocks_per_epoch * epoch_subsidy (of_nat epoch))
                   [0 ..< unat (min full_epochs MAX_SUBSIDY_HALVINGS)] 0;
                 total = (if full_epochs < MAX_SUBSIDY_HALVINGS
                          then total + ucast rem_blocks * epoch_subsidy full_epochs else total)
             in Some (total - epoch_subsidy 0)))"

section \<open>Checks of one transaction\<close>

definition MAX_SCRIPT_SIZE :: nat where
  "MAX_SCRIPT_SIZE = 10000"

definition is_unspendable :: "bitcoin_api \<Rightarrow> script \<Rightarrow> bool" where
  "is_unspendable L s \<longleftrightarrow> MAX_SCRIPT_SIZE < length s \<or> is_op_return L s"

definition validate_script_size :: "bitcoin_api \<Rightarrow> script \<Rightarrow> hash \<Rightarrow> transaction_error + unit" where
  "validate_script_size L s txid = reject_if (is_unspendable L s) (tx_err txid ScriptError)"

definition total_out_value :: "bitcoin_api \<Rightarrow> transaction \<Rightarrow> blockchain_error + amount" where
  "total_out_value L tx =
     foldE (\<lambda>out value. ok_or (BlockValidation TooManyCoins)
        (amount_checked_add L value (value_sat out)))
       (tx_output tx) 0"

fun seen_twice :: "outpoint set \<Rightarrow> txin list \<Rightarrow> bool" where
  "seen_twice seen [] = False"
| "seen_twice seen (input # inputs) =
     (if previous_output input \<in> seen then True
      else seen_twice (insert (previous_output input) seen) inputs)"

definition has_duplicate_inputs :: "txin list \<Rightarrow> bool" where
  "has_duplicate_inputs inputs =
     (case inputs of
        [a] \<Rightarrow> False
      | [a, b] \<Rightarrow> previous_output a = previous_output b
      | _ \<Rightarrow> seen_twice {} inputs)"

definition check_transaction_context_free ::
  "bitcoin_api \<Rightarrow> transaction \<Rightarrow> blockchain_error + amount" where
  "check_transaction_context_free L tx =
     (let txid = compute_txid L tx in
     bindE (reject_if (tx_input tx = []) (TransactionError (tx_err txid EmptyInputs))) (\<lambda>_.
     bindE (reject_if (tx_output tx = []) (TransactionError (tx_err txid EmptyOutputs))) (\<lambda>_.
     bindE (foldE (\<lambda>input _.
         bindE (reject_if (is_null L (previous_output input))
           (TransactionError (tx_err txid NullPrevOut))) (\<lambda>_.
         map_err TransactionError (validate_script_size L (script_sig input) txid)))
       (tx_input tx) ()) (\<lambda>_.
     bindE (reject_if (has_duplicate_inputs (tx_input tx))
       (TransactionError (tx_err txid DuplicateInput))) (\<lambda>_.
     bindE (total_out_value L tx) (\<lambda>out_value.
     bindE (reject_if (out_value > max_money L) (BlockValidation TooManyCoins)) (\<lambda>_.
     Inr out_value)))))))"

definition take_utxo ::
  "txin \<Rightarrow> utxo_map \<Rightarrow> hash \<Rightarrow> transaction_error + (utxo_data \<times> utxo_map)" where
  "take_utxo input utxos txid =
     (case utxos (previous_output input) of
        None \<Rightarrow> Inl (tx_err txid (UtxoNotFound (previous_output input)))
      | Some utxo \<Rightarrow> Inr (utxo, utxos(previous_output input := None)))"

text \<open>The body of the loop of \<^verbatim>\<open>verify_transaction\<close> over the inputs. The state is the map, the
  value taken so far and the outputs taken so far.\<close>

definition spend_input ::
  "bitcoin_api \<Rightarrow> transaction \<Rightarrow> u32 \<Rightarrow> lock_time_cutoff \<Rightarrow> txin \<Rightarrow>
   utxo_map \<times> amount \<times> utxo_data list \<Rightarrow> blockchain_error + utxo_map \<times> amount \<times> utxo_data list" where
  "spend_input L tx height cutoff input st =
     (let (utxos, in_value, spent_utxos) = st;
          txid = compute_txid L tx in
     bindE (map_err TransactionError (take_utxo input utxos txid)) (\<lambda>(utxo, utxos).
     bindE (reject_if (utxo_is_coinbase utxo \<and> height < creation_height utxo + 100)
       (TransactionError (tx_err txid CoinbaseNotMatured))) (\<lambda>_.
     bindE (if is_bip68_enabled tx then
              (case to_relative_lock_time L (sequence input) of
                 None \<Rightarrow> Inr ()
               | Some lock \<Rightarrow>
                   (let elapsed_height = saturating_sub height (creation_height utxo)
                    in reject_if (\<not> relative_locktime_satisfied cutoff lock elapsed_height
                           (creation_time utxo))
                         (TransactionError (tx_err txid BadRelativeLockTime))))
            else Inr ()) (\<lambda>_.
     bindE (map_err TransactionError
       (validate_script_size L (script_pubkey (txout utxo)) txid)) (\<lambda>_.
     bindE (ok_or (BlockValidation TooManyCoins)
       (amount_checked_add L in_value (value_sat (txout utxo)))) (\<lambda>in_value.
     Inr (utxos, in_value, spent_utxos @ [utxo])))))))"

type_synonym script_verifier =
  "(transaction \<Rightarrow> utxo_data list \<Rightarrow> u32 \<Rightarrow> blockchain_error + unit) option"

definition verify_transaction ::
  "bitcoin_api \<Rightarrow> script_verifier \<Rightarrow> transaction \<Rightarrow> utxo_map \<Rightarrow> u32 \<Rightarrow> lock_time_cutoff \<Rightarrow> bool \<Rightarrow> u32
   \<Rightarrow> blockchain_error + (amount \<times> amount) \<times> utxo_map" where
  "verify_transaction L scripts tx utxos height cutoff verify_script flags =
     (let txid = compute_txid L tx in
     bindE (check_transaction_context_free L tx) (\<lambda>out_value.
     bindE (foldE (spend_input L tx height cutoff) (tx_input tx) (utxos, 0, []))
       (\<lambda>(utxos, in_value, spent_utxos).
     bindE (reject_if (in_value > max_money L) (BlockValidation TooManyCoins)) (\<lambda>_.
     bindE (reject_if (out_value > in_value) (TransactionError (tx_err txid NotEnoughMoney))) (\<lambda>_.
     bindE (case scripts of
              None \<Rightarrow> Inr ()
            | Some verify_input_scripts \<Rightarrow>
                if verify_script then verify_input_scripts tx spent_utxos flags else Inr ()) (\<lambda>_.
     Inr ((in_value, out_value), utxos)))))))"

text \<open>The operations of bitcoinkernel that \<^verbatim>\<open>verify_input_scripts\<close> calls, for its own types of
  transactions, scripts and precomputed data.\<close>

record ('t, 's, 'd) kernel_api =
  kernel_transaction :: "transaction \<Rightarrow> string + 't"
  kernel_script_pubkey :: "script \<Rightarrow> string + 's"
  kernel_precomputed :: "'t \<Rightarrow> ('s \<times> int) list \<Rightarrow> string + 'd"
  kernel_verify :: "'s \<Rightarrow> int \<Rightarrow> 't \<Rightarrow> nat \<Rightarrow> u32 \<Rightarrow> 'd \<Rightarrow> string + unit"

definition i64_try_from :: "u64 \<Rightarrow> int option" where
  "i64_try_from v = (if unat v < 2 ^ 63 then Some (int (unat v)) else None)"

definition verify_input_scripts ::
  "bitcoin_api \<Rightarrow> ('t, 's, 'd) kernel_api \<Rightarrow> transaction \<Rightarrow> utxo_data list \<Rightarrow> u32
   \<Rightarrow> blockchain_error + unit" where
  "verify_input_scripts L K tx spent_utxos flags =
     (let txid = compute_txid L tx;
          script_error = (\<lambda>e. TransactionError (tx_err txid (ScriptValidationError e))) in
     bindE (map_err script_error (kernel_transaction K tx)) (\<lambda>ktx.
     bindE (foldE (\<lambda>utxo prevouts.
         bindE (ok_or (TransactionError (tx_err txid TooManyCoins))
           (i64_try_from (value_sat (txout utxo)))) (\<lambda>value.
         bindE (map_err script_error
           (kernel_script_pubkey K (script_pubkey (txout utxo)))) (\<lambda>spk.
         Inr (prevouts @ [(spk, value)]))))
       spent_utxos []) (\<lambda>prevouts.
     bindE (map_err script_error (kernel_precomputed K ktx prevouts)) (\<lambda>tx_data.
     foldE (\<lambda>(input_index, (spk, amount)) _.
         map_err script_error (kernel_verify K spk amount ktx input_index flags tx_data))
       (List.enumerate 0 prevouts) ()))))"

definition verify_coinbase :: "bitcoin_api \<Rightarrow> transaction \<Rightarrow> transaction_error + unit" where
  "verify_coinbase L tx =
     (let txid = compute_txid L tx in
     case tx_input tx of
       [input] \<Rightarrow>
         bindE (reject_if (\<not> is_null L (previous_output input))
           (tx_err txid (InvalidCoinbase ''Invalid Coinbase PrevOut''))) (\<lambda>_.
         let size = length (script_sig input)
         in reject_if (\<not> (2 \<le> size \<and> size \<le> 100))
              (tx_err txid (InvalidCoinbase ''Invalid ScriptSig size'')))
     | _ \<Rightarrow> Inl (tx_err txid (InvalidCoinbase ''Coinbase must have 1 input'')))"

section \<open>The transactions of a block\<close>

definition insert_outputs ::
  "bitcoin_api \<Rightarrow> nat \<Rightarrow> u32 \<Rightarrow> lock_time_cutoff \<Rightarrow> transaction \<Rightarrow> utxo_map \<Rightarrow> utxo_map" where
  "insert_outputs L n height cutoff tx utxos =
     (let txid = compute_txid L tx in
      fold (\<lambda>(vout, out) utxos.
          utxos(\<lparr>op_txid = txid, op_vout = of_nat vout\<rparr> \<mapsto>
            \<lparr>txout = out, utxo_is_coinbase = (n = 0), creation_height = height,
             creation_time = cutoff_value cutoff\<rparr>))
        (List.enumerate 0 (tx_output tx)) utxos)"

definition block_tx_step ::
  "bitcoin_api \<Rightarrow> script_verifier \<Rightarrow> u32 \<Rightarrow> lock_time_cutoff \<Rightarrow> bool \<Rightarrow> u32 \<Rightarrow> nat \<times> transaction \<Rightarrow>
   utxo_map \<times> amount \<times> usize \<Rightarrow> blockchain_error + utxo_map \<times> amount \<times> usize" where
  "block_tx_step L scripts height cutoff verify_script flags ntx st =
     (let (n, tx) = ntx; (utxos, fee, sigops) = st in
     bindE (reject_if (\<not> is_final_transaction L tx height cutoff)
       (BlockValidation NonFinalTransaction)) (\<lambda>_.
     let sigops = saturating_add sigops (sigop_cost L tx utxos flags) in
     bindE (reject_if (sigops > max_block_sigops_cost L) (BlockValidation TooManySigops)) (\<lambda>_.
     bindE (if n = 0 then
              bindE (reject_if (\<not> is_coinbase L tx) (BlockValidation FirstTxIsNotCoinbase)) (\<lambda>_.
              bindE (map_err TransactionError (verify_coinbase L tx)) (\<lambda>_.
              Inr (utxos, fee)))
            else
              bindE (verify_transaction L scripts tx utxos height cutoff verify_script flags)
                (\<lambda>((in_value, out_value), utxos).
              bindE (ok_or (BlockValidation TooManyCoins)
                (amount_checked_add L fee (in_value - out_value))) (\<lambda>fee.
              Inr (utxos, fee)))) (\<lambda>(utxos, fee).
     Inr (insert_outputs L n height cutoff tx utxos, fee, sigops)))))"

text \<open>The map after the loop is returned with the unit result; the caller in the source owns the
  map and drops it.\<close>

definition verify_block_transactions ::
  "bitcoin_api \<Rightarrow> script_verifier \<Rightarrow> u32 \<Rightarrow> lock_time_cutoff \<Rightarrow> utxo_map \<Rightarrow> transaction list \<Rightarrow> amount
   \<Rightarrow> bool \<Rightarrow> u32 \<Rightarrow> blockchain_error + utxo_map" where
  "verify_block_transactions L scripts height cutoff utxos transactions subsidy verify_script flags =
     bindE (reject_if (transactions = []) (BlockValidation EmptyBlock)) (\<lambda>_.
     bindE (foldE (block_tx_step L scripts height cutoff verify_script flags)
       (List.enumerate 0 transactions) (utxos, 0, 0)) (\<lambda>(utxos, fee, sigops).
     bindE (ok_or (BlockValidation TooManyCoins) (amount_checked_add L fee subsidy)) (\<lambda>allowed_reward.
     bindE (total_out_value L (hd transactions)) (\<lambda>coinbase_total.
     bindE (reject_if (coinbase_total > allowed_reward) (BlockValidation BadCoinbaseOutValue)) (\<lambda>_.
     Inr utxos)))))"

section \<open>SwiftSync\<close>

definition swiftsync_output ::
  "bitcoin_api \<Rightarrow> u32 set \<Rightarrow> nat \<times> txout \<Rightarrow> u32 \<times> amount \<times> u32 list \<Rightarrow> u32 \<times> amount \<times> u32 list" where
  "swiftsync_output L unspent_indexes vo st =
     (let (vout, out) = vo; (output_index, unspent_amount, spent_vouts) = st;
          plus = (case amount_checked_add L unspent_amount (value_sat out) of
                    Some v \<Rightarrow> v | None \<Rightarrow> amount_max L)
      in if is_unspendable L (script_pubkey out) then (output_index, plus, spent_vouts)
         else if output_index \<in> unspent_indexes then (output_index + 1, plus, spent_vouts)
         else (output_index + 1, unspent_amount, spent_vouts @ [of_nat vout]))"

definition swiftsync_step ::
  "bitcoin_api \<Rightarrow> 'e sip_api \<Rightarrow> u32 \<Rightarrow> block \<Rightarrow> u32 set \<Rightarrow> sip_hash_keys \<Rightarrow> nat \<times> transaction \<times> hash \<Rightarrow>
   u32 \<times> amount \<times> swift_sync_agg \<Rightarrow> blockchain_error + u32 \<times> amount \<times> swift_sync_agg" where
  "swiftsync_step L S height b unspent_indexes salt ntx st =
     (let (n, tx, txid) = ntx; (output_index, unspent_amount, agg) = st;
          outputs = (\<lambda>agg.
            let (output_index, unspent_amount, spent_vouts) =
                  fold (swiftsync_output L unspent_indexes) (List.enumerate 0 (tx_output tx))
                    (output_index, unspent_amount, [])
            in (output_index, unspent_amount, add_outputs_to_agg S salt agg txid spent_vouts))
      in if n = 0 then
           bindE (reject_if (\<not> is_coinbase L tx) (BlockValidation FirstTxIsNotCoinbase)) (\<lambda>_.
           bindE (map_err TransactionError (verify_coinbase L tx)) (\<lambda>_.
           bindE (total_out_value L tx) (\<lambda>coinbase_total.
           bindE (reject_if (coinbase_total > max_money L) (BlockValidation TooManyCoins)) (\<lambda>_.
           if is_bip30_unspendable L b height then Inr (output_index, unspent_amount, agg)
           else Inr (outputs agg)))))
         else
           bindE (check_transaction_context_free L tx) (\<lambda>_.
           Inr (outputs (foldl (agg_remove S salt) agg (map previous_output (tx_input tx))))))"

definition verify_block_transactions_swiftsync ::
  "bitcoin_api \<Rightarrow> 'e sip_api \<Rightarrow> u32 \<Rightarrow> block \<Rightarrow> hash list \<Rightarrow> u32 set \<Rightarrow> sip_hash_keys \<Rightarrow>
   blockchain_error + swift_sync_agg \<times> amount" where
  "verify_block_transactions_swiftsync L S height b txids unspent_indexes salt =
     (let transactions = txdata b in
     bindE (reject_if (length transactions \<noteq> length txids) (Panicked ''assert_eq'')) (\<lambda>_.
     bindE (reject_if (transactions = []) (BlockValidation EmptyBlock)) (\<lambda>_.
     bindE (foldE (swiftsync_step L S height b unspent_indexes salt)
       (List.enumerate 0 (zip transactions txids)) (0, 0, agg_zero))
       (\<lambda>(output_index, unspent_amount, agg). Inr (agg, unspent_amount)))))"

section \<open>Block and header rules\<close>

definition min_header_version :: "params \<Rightarrow> u32 \<Rightarrow> int" where
  "min_header_version ps height =
     (let active = map snd (filter (\<lambda>(activation, _). activation \<le> height)
            [(bip34_height ps, 2), (bip66_height ps, 3), (bip65_height ps, 4)])
      in if active = [] then - (2 ^ 31) else Max (set active))"

definition get_bip34_height :: "bitcoin_api \<Rightarrow> block \<Rightarrow> u32 option" where
  "get_bip34_height L b =
     (case block_coinbase L b of
        None \<Rightarrow> None
      | Some cb \<Rightarrow>
         (case tx_input cb of
            [] \<Rightarrow> None
          | input # _ \<Rightarrow>
             (case instructions_minimal L (script_sig input) of
                [] \<Rightarrow> None
              | Inr (PushBytes bs) # _ \<Rightarrow> map_option of_int (read_scriptint L bs)
              | Inr (Op opcode) # _ \<Rightarrow>
                  if 0x51 \<le> opcode \<and> opcode \<le> 0x60 then Some (ucast opcode - 0x50) else None
              | Inl _ # _ \<Rightarrow> None)))"

definition check_bip34 :: "bitcoin_api \<Rightarrow> chain_params \<Rightarrow> block \<Rightarrow> u32 \<Rightarrow> blockchain_error + unit" where
  "check_bip34 L cp b height =
     reject_if (bip34_height (cp_params cp) \<le> height \<and> get_bip34_height L b \<noteq> Some height)
       (BlockValidation BadBip34)"

definition check_block :: "bitcoin_api \<Rightarrow> chain_params \<Rightarrow> block \<Rightarrow> u32 \<Rightarrow> blockchain_error + hash list" where
  "check_block L cp b height =
     bindE (map_err blockchain_from_ext (check_block_structure L b)) (\<lambda>txids.
     bindE (check_bip34 L cp b height) (\<lambda>_.
     Inr txids))"

definition check_bip94_time :: "header \<Rightarrow> header \<Rightarrow> block_validation_errors + unit" where
  "check_bip94_time b prev_block = reject_if (hdr_time b < hdr_time prev_block - 600) BIP94TimeWarp"

text \<open>The proof-of-work functions of rust-bitcoin. A compact target is its 32 bits.\<close>

type_synonym target = "256 word"

record pow_api =
  from_next_work_required :: "u32 \<Rightarrow> u64 \<Rightarrow> chain_params \<Rightarrow> u32"
  target_from_compact :: "u32 \<Rightarrow> target"
  target_to_compact_lossy :: "target \<Rightarrow> u32"
  target_is_met_by :: "target \<Rightarrow> hash \<Rightarrow> bool"
  header_target :: "header \<Rightarrow> target"
  validate_pow :: "header \<Rightarrow> target \<Rightarrow> string + hash"
  header_work :: "header \<Rightarrow> work"

definition calc_next_work_required :: "pow_api \<Rightarrow> header \<Rightarrow> header \<Rightarrow> chain_params \<Rightarrow> target" where
  "calc_next_work_required P last_block first_block cp =
     (let actual_timespan = saturating_sub (hdr_time last_block) (hdr_time first_block);
          bits = (if enforce_bip94 cp then hdr_bits first_block else hdr_bits last_block)
      in target_from_compact P (from_next_work_required P bits (ucast actual_timespan) cp))"

end
