(* ===== verification/Supply.thy ===== *)
theory Supply
  imports Consensus
begin

text \<open>
  The subsidy schedule: \<open>max_supply_at_height\<close>, which adds up whole halving epochs, equals the
  sum of the subsidies of the blocks after genesis, and none of its machine additions wraps.
\<close>

section \<open>The schedule over natural numbers\<close>

text \<open>The constants of rust-bitcoin: one bitcoin in satoshis and the mainnet halving interval.\<close>

definition supply_constants :: "bitcoin_api \<Rightarrow> network_api \<Rightarrow> bool" where
  "supply_constants L N \<longleftrightarrow> one_btc L = 100000000 \<and> bitcoin_halving_interval N = 210000"

definition epoch_reward :: "nat \<Rightarrow> nat" where
  "epoch_reward e = (if e < 64 then 5000000000 div 2 ^ e else 0)"

definition interval_of :: "network_api \<Rightarrow> chain_params \<Rightarrow> nat" where
  "interval_of N cp = unat (halving_get N (subsidy_interval cp))"

lemma interval_bounds:
  "supply_constants L N \<Longrightarrow> 0 < interval_of N cp \<and> interval_of N cp \<le> 210000"
  by (cases "subsidy_interval cp") (simp_all add: interval_of_def supply_constants_def)

lemma get_subsidy_nat:
  assumes "supply_constants L N"
  shows "unat (get_subsidy L N cp h) = epoch_reward (unat h div interval_of N cp)"
proof -
  let ?e = "h div halving_get N (subsidy_interval cp)"
  have e: "unat ?e = unat h div interval_of N cp" by (simp add: unat_div interval_of_def)
  have "MAX_SUBSIDY_HALVINGS \<le> ?e \<longleftrightarrow> 64 \<le> unat ?e"
    by (simp add: MAX_SUBSIDY_HALVINGS_def word_le_nat_alt)
  moreover have "unat (drop_bit n (50 * one_btc L)) = 5000000000 div 2 ^ n" for n
    using assms by (simp add: supply_constants_def unat_drop_bit)
  ultimately show ?thesis
    by (simp add: get_subsidy_def Let_def e epoch_reward_def not_le)
qed

lemma sum_Un_disjoint:
  "(\<Sum>k \<in> {..< a} \<union> {a ..< a + b}. f k) = (\<Sum>k < a. f k) + (\<Sum>k \<in> {a ..< a + b}. f k)" for f :: "nat \<Rightarrow> nat"
  by (rule sum.union_disjoint) auto

lemma sum_epochs:
  fixes f :: "nat \<Rightarrow> nat"
  assumes "0 < I" and "r \<le> I"
  shows "(\<Sum>k < I * q + r. f (k div I)) = (\<Sum>e < q. I * f e) + r * f q"
proof -
  have block: "(\<Sum>k \<in> {I * q ..< I * q + r}. f (k div I)) = r * f q" if "r \<le> I" for q r
  proof -
    have "k div I = q" if "k \<in> {I * q ..< I * q + r}" for k
      using that \<open>r \<le> I\<close> assms(1) by (auto intro: div_nat_eqI)
    then show ?thesis by simp
  qed
  have "(\<Sum>k < I * q. f (k div I)) = (\<Sum>e < q. I * f e)"
  proof (induction q)
    case 0
    then show ?case by simp
  next
    case (Suc q)
    have "{..< I * Suc q} = {..< I * q} \<union> {I * q ..< I * q + I}" by auto
    then show ?case using Suc.IH block [of I q] by (simp add: sum_Un_disjoint)
  qed
  moreover have "{..< I * q + r} = {..< I * q} \<union> {I * q ..< I * q + r}" by auto
  ultimately show ?thesis using block [OF assms(2), of q] by (simp add: sum_Un_disjoint)
qed

section \<open>The machine loop\<close>

lemma epoch_sum_bound: "n \<le> 64 \<Longrightarrow> I \<le> 210000 \<Longrightarrow> (\<Sum>e < n. I * epoch_reward e) \<le> n * (210000 * 5000000000)"
proof -
  assume "I \<le> 210000"
  moreover have "epoch_reward e \<le> 5000000000" for e by (simp add: epoch_reward_def)
  ultimately have "I * epoch_reward e \<le> 210000 * 5000000000" for e by (intro mult_le_mono)
  then have "(\<Sum>e < n. I * epoch_reward e) \<le> (\<Sum>e < n. 210000 * 5000000000)" by (intro sum_mono)
  then show ?thesis by simp
qed

lemma ucast_mult_nat:
  fixes a :: u32 and b :: u64
  assumes "unat a * unat b < 2 ^ 64"
  shows "unat (ucast a * b) = unat a * unat b"
proof -
  have "unat (ucast a :: u64) = unat a"
    using unsigned_less [of a, where ?'a = nat] by (simp add: unsigned_ucast_eq take_bit_eq_mod)
  with assms show ?thesis by (simp add: unat_word_ariths)
qed

lemma epoch_subsidy_nat:
  assumes "supply_constants L N" and "interval_of N cp * unat e < 2 ^ 32"
  shows "unat (get_subsidy L N cp (halving_get N (subsidy_interval cp) * e)) = epoch_reward (unat e)"
proof -
  have "unat (halving_get N (subsidy_interval cp) * e) = interval_of N cp * unat e"
    using assms(2) by (simp add: unat_word_ariths interval_of_def)
  then show ?thesis using interval_bounds [OF assms(1), of cp] by (simp add: get_subsidy_nat [OF assms(1)])
qed

lemma epoch_loop:
  assumes "supply_constants L N" and "n \<le> 64" and "interval_of N cp * n < 2 ^ 32"
  shows "unat (fold (\<lambda>epoch total. total + ucast (halving_get N (subsidy_interval cp))
        * get_subsidy L N cp (halving_get N (subsidy_interval cp) * of_nat epoch)) [0 ..< n] 0)
    = (\<Sum>e < n. interval_of N cp * epoch_reward e)"
  using assms(2,3)
proof (induction n)
  case 0
  then show ?case by simp
next
  case (Suc n)
  let ?I = "interval_of N cp"
  let ?step = "ucast (halving_get N (subsidy_interval cp))
      * get_subsidy L N cp (halving_get N (subsidy_interval cp) * of_nat n)"
  have n: "unat (of_nat n :: u32) = n" using Suc.prems(1) by (simp add: unat_of_nat)
  have "?I * n < 2 ^ 32" using Suc.prems(2) by simp
  then have sub: "unat (get_subsidy L N cp (halving_get N (subsidy_interval cp) * of_nat n)) = epoch_reward n"
    using epoch_subsidy_nat [OF assms(1), of cp "of_nat n"] by (simp add: n)
  have I: "?I \<le> 210000" using interval_bounds [OF assms(1)] by blast
  have "?I * epoch_reward n \<le> 210000 * 5000000000"
    using I by (intro mult_le_mono) (simp_all add: epoch_reward_def)
  then have "unat ?step = ?I * epoch_reward n"
    using ucast_mult_nat [of "halving_get N (subsidy_interval cp)"] by (simp add: sub interval_of_def)
  moreover have "(\<Sum>e < Suc n. ?I * epoch_reward e) \<le> Suc n * (210000 * 5000000000)"
    using epoch_sum_bound [OF Suc.prems(1) I] .
  then have "(\<Sum>e < n. ?I * epoch_reward e) + ?I * epoch_reward n < 2 ^ 64"
    using Suc.prems(1) by simp
  ultimately show ?case
    using Suc.IH \<open>?I * n < 2 ^ 32\<close> Suc.prems(1) by (simp add: unat_add_no_overflow)
qed

lemma epochs_capped:
  "(\<Sum>e < q. I * epoch_reward e) = (\<Sum>e < min q 64. I * epoch_reward e)"
  by (rule sum.mono_neutral_right) (auto simp: epoch_reward_def)

text \<open>The two sums of the source, before the genesis subsidy is taken off.\<close>

lemma supply_total:
  fixes B :: u32 and L :: bitcoin_api and N :: network_api and cp :: chain_params
  assumes "supply_constants L N"
  defines "I \<equiv> halving_get N (subsidy_interval cp)"
  defines "q \<equiv> B div I"
  defines "loop \<equiv> fold (\<lambda>epoch total. total + ucast I * get_subsidy L N cp (I * of_nat epoch))
       [0 ..< unat (min q MAX_SUBSIDY_HALVINGS)] 0"
  shows "unat (if q < MAX_SUBSIDY_HALVINGS then loop + ucast (B mod I) * get_subsidy L N cp (I * q) else loop)
    = (\<Sum>k < unat B. unat (get_subsidy L N cp (of_nat k)))"
proof -
  let ?I = "interval_of N cp"
  let ?q = "unat B div ?I" and ?r = "unat B mod ?I"
  have I: "0 < ?I" "?I \<le> 210000" using interval_bounds [OF assms(1)] by blast+
  have q: "unat q = ?q" and r: "unat (B mod I) = ?r"
    by (simp_all add: q_def I_def interval_of_def unat_div unat_mod)
  have m: "unat (min q MAX_SUBSIDY_HALVINGS) = min ?q 64"
    by (simp add: min_def word_le_nat_alt MAX_SUBSIDY_HALVINGS_def flip: q)
  have "?I * ?q \<le> unat B" by simp
  moreover have B: "unat B < 2 ^ 32" using unsigned_less [of B, where ?'a = nat] by simp
  ultimately have Iq: "?I * ?q < 2 ^ 32" by linarith
  then have "?I * min ?q 64 < 2 ^ 32" by (meson le_less_trans min.cobounded1 mult_le_mono2)
  then have loop: "unat loop = (\<Sum>e < min ?q 64. ?I * epoch_reward e)"
    using epoch_loop [OF assms(1), of "min ?q 64" cp] by (simp add: loop_def m I_def)
  have subsidy: "unat (get_subsidy L N cp (I * q)) = epoch_reward ?q"
    using epoch_subsidy_nat [OF assms(1), of cp q] Iq by (simp add: q I_def)
  have "?r \<le> 210000" using I mod_less_divisor [OF I(1), of "unat B"] by linarith
  then have rem: "?r * epoch_reward ?q \<le> 210000 * 5000000000"
    by (intro mult_le_mono) (simp_all add: epoch_reward_def)
  then have prod: "unat (ucast (B mod I) * get_subsidy L N cp (I * q)) = ?r * epoch_reward ?q"
    using ucast_mult_nat [of "B mod I"] by (simp add: r subsidy)
  have "unat loop \<le> 64 * (210000 * 5000000000)"
    unfolding loop
    by (rule order_trans [OF epoch_sum_bound [OF min.cobounded2 I(2)]]) (intro mult_le_mono1 min.cobounded2)
  with rem have add: "unat (loop + ucast (B mod I) * get_subsidy L N cp (I * q))
      = unat loop + ?r * epoch_reward ?q"
    by (simp add: unat_add_no_overflow prod)
  have "(if q < MAX_SUBSIDY_HALVINGS then unat loop + ?r * epoch_reward ?q else unat loop)
      = (\<Sum>e < ?q. ?I * epoch_reward e) + ?r * epoch_reward ?q"
    unfolding loop epochs_capped [of ?I ?q]
    by (simp add: word_less_nat_alt q MAX_SUBSIDY_HALVINGS_def) (simp add: epoch_reward_def)
  also have "\<dots> = (\<Sum>k < ?I * ?q + ?r. epoch_reward (k div ?I))"
    using sum_epochs [OF I(1), of ?r epoch_reward ?q] I(1) by (simp add: less_imp_le)
  also have "\<dots> = (\<Sum>k < unat B. unat (get_subsidy L N cp (of_nat k)))"
    using B by (simp add: get_subsidy_nat [OF assms(1)] unat_of_nat)
  finally show ?thesis using add by (simp split: if_splits)
qed

section \<open>Properties\<close>

text \<open>C10. Below \<^verbatim>\<open>u32::MAX\<close> the supply formula returns the sum of the subsidies of the blocks from
  height 1 to the given height, with no wrap-around; at \<^verbatim>\<open>u32::MAX\<close> it panics as documented.\<close>

theorem max_supply_correct:
  assumes "supply_constants L N"
  shows "if h = - 1 then max_supply_at_height L N cp h = None
    else \<exists>s. max_supply_at_height L N cp h = Some s
      \<and> unat s = (\<Sum>k = 1..unat h. unat (get_subsidy L N cp (of_nat k)))"
proof (cases "h = - 1")
  case True
  have "unat (- 1 :: u32) = 2 ^ 32 - 1"
    by (simp add: unsigned_minus_1_eq_mask mask_eq_exp_minus_1)
  with True show ?thesis by (simp add: max_supply_at_height_def checked_add_def)
next
  case False
  then have "unat h \<noteq> 2 ^ 32 - 1"
    by (simp only: word_unat_eq_iff) (simp add: unsigned_minus_1_eq_mask mask_eq_exp_minus_1)
  moreover have "unat h < 2 ^ 32" using unsigned_less [of h, where ?'a = nat] by simp
  ultimately have lt: "unat h + 1 < 2 ^ 32" by simp
  then have B: "unat (h + 1) = unat h + 1" by (simp add: unat_add_no_overflow)
  let ?sub = "\<lambda>k. unat (get_subsidy L N cp (of_nat k))"
  have "{..< unat h + 1} = insert 0 {1..unat h}" by auto
  then have total: "(\<Sum>k < unat (h + 1). ?sub k) = ?sub 0 + (\<Sum>k = 1..unat h. ?sub k)"
    by (simp add: B)
  have "unat (t - get_subsidy L N cp 0) = (\<Sum>k = 1..unat h. ?sub k)"
    if "unat t = (\<Sum>k < unat (h + 1). ?sub k)" for t
  proof -
    have "get_subsidy L N cp 0 \<le> t" by (simp add: word_le_nat_alt that total)
    then show ?thesis by (simp add: unat_sub_no_underflow that total)
  qed
  from this [OF supply_total [OF assms, where B = "h + 1"]] False lt show ?thesis
    by (simp add: max_supply_at_height_def checked_add_def Let_def)
qed

definition demo_network :: network_api where
  "demo_network = \<lparr>
     params_new = (\<lambda>_. \<lparr>bip34_height = 5, bip65_height = 7, bip66_height = 6,
       allow_min_difficulty_blocks = False, no_pow_retargeting = False, pow_target_spacing = 600,
       max_attainable_target = - 1, miner_confirmation_window = 2016\<rparr>),
     genesis_block = (\<lambda>_. \<lparr>blk_header = demo_header all_zeros 1, txdata = []\<rparr>),
     parse_node_hash = (\<lambda>_. all_zeros),
     bitcoin_halving_interval = 210000,
     sf_none = 0, sf_network = 1, sf_witness = 8, sf_compact_filters = 64\<rparr>"

theorem max_supply_correct_witness:
  "\<exists>s. max_supply_at_height demo_api demo_network (chain_params_from demo_api demo_network Regtest) 400 = Some s
     \<and> unat s = (\<Sum>k = 1..unat (400 :: u32).
         unat (get_subsidy demo_api demo_network (chain_params_from demo_api demo_network Regtest) (of_nat k)))"
  using max_supply_correct [of demo_api demo_network 400 "chain_params_from demo_api demo_network Regtest"]
  by (simp add: supply_constants_def demo_api_def demo_network_def)

end
