(* ===== verification/Transaction_Rules.thy ===== *)
theory Transaction_Rules
  imports Consensus
begin

text \<open>
  What the checks of one transaction accept. The running sums of \<open>total_out_value\<close> and of the
  input loop are related to sums of natural numbers, the optimised duplicate test to \<open>distinct\<close>,
  and the input loop, which consumes the map as it goes, to conditions on the map it started
  from. The last section states the exact acceptance condition of \<open>verify_transaction\<close>.
\<close>

section \<open>Sums\<close>

definition out_total :: "transaction \<Rightarrow> nat" where
  "out_total tx = sum_list (map (\<lambda>out. unat (value_sat out)) (tx_output tx))"

lemma checked_sum:
  assumes "amount_laws L"
  shows "foldE (\<lambda>x acc. ok_or e (amount_checked_add L acc (f x))) xs v = Inr w
    \<longleftrightarrow> unat w = unat v + sum_list (map (\<lambda>x. unat (f x)) xs)"
  (is "?lhs xs v \<longleftrightarrow> ?rhs xs v")
proof (induction xs arbitrary: v)
  case Nil
  then show ?case by (auto simp: word_unat_eq_iff)
next
  case (Cons x xs)
  show ?case
  proof (cases "unat v + unat (f x) < 2 ^ 64")
    case True
    then have "amount_checked_add L v (f x) = Some (v + f x)"
      by (simp add: amount_lawsD [OF assms] checked_add_def)
    with Cons.IH [of "v + f x"] True show ?thesis by (simp add: unat_add_no_overflow add.assoc)
  next
    case False
    moreover have "unat w < 2 ^ 64" using unsigned_less [of w, where ?'a = nat] by simp
    ultimately show ?thesis by (simp add: amount_lawsD [OF assms] checked_add_def)
  qed
qed

lemma total_out_value_eq:
  "amount_laws L \<Longrightarrow> total_out_value L tx = Inr v \<longleftrightarrow> unat v = out_total tx"
  by (simp add: total_out_value_def checked_sum out_total_def)

lemma word_sum_split:
  fixes v w :: amount
  shows "(\<exists>u :: amount. unat u = unat v + a \<and> unat w = unat u + b) \<longleftrightarrow> unat w = unat v + (a + b)"
    (is "?lhs \<longleftrightarrow> ?rhs")
proof
  assume ?rhs
  then have "unat v + a \<le> unat w" by simp
  then obtain u :: amount where "unat u = unat v + a" using ex_word_below by blast
  with \<open>?rhs\<close> show ?lhs by (intro exI [of _ u]) simp
qed auto

section \<open>Duplicate inputs\<close>

lemma seen_twice_eq:
  "seen_twice seen inputs \<longleftrightarrow>
     \<not> (distinct (map previous_output inputs) \<and> set (map previous_output inputs) \<inter> seen = {})"
  by (induction inputs arbitrary: seen) auto

lemma has_duplicate_inputs_eq:
  "has_duplicate_inputs inputs \<longleftrightarrow> \<not> distinct (map previous_output inputs)"
  by (auto simp: has_duplicate_inputs_def seen_twice_eq split: list.split)

section \<open>The context-free checks\<close>

definition context_free_ok :: "bitcoin_api \<Rightarrow> transaction \<Rightarrow> bool" where
  "context_free_ok L tx \<longleftrightarrow>
     tx_input tx \<noteq> [] \<and> tx_output tx \<noteq> []
   \<and> list_all (\<lambda>i. \<not> is_null L (previous_output i) \<and> \<not> is_unspendable L (script_sig i)) (tx_input tx)
   \<and> distinct (map previous_output (tx_input tx))
   \<and> out_total tx \<le> unat (max_money L)"

lemma foldE_unit:
  "foldE (\<lambda>x _. f x) xs () = Inr () \<longleftrightarrow> list_all (\<lambda>x. f x = Inr ()) xs"
  by (induction xs) (auto simp: res_simps)

lemma context_free_eq:
  assumes "amount_laws L"
  shows "check_transaction_context_free L tx = Inr v
    \<longleftrightarrow> context_free_ok L tx \<and> unat v = out_total tx"
proof -
  have "foldE (\<lambda>input _.
      bindE (reject_if (is_null L (previous_output input)) e1) (\<lambda>_.
      map_err TransactionError (validate_script_size L (script_sig input) t))) xs () = Inr ()
    \<longleftrightarrow> list_all (\<lambda>i. \<not> is_null L (previous_output i) \<and> \<not> is_unspendable L (script_sig i)) xs"
    for e1 t xs
    by (simp only: foldE_unit) (simp add: res_simps validate_script_size_def)
  then show ?thesis
    by (auto simp: check_transaction_context_free_def Let_def res_simps has_duplicate_inputs_eq
        total_out_value_eq [OF assms] context_free_ok_def word_le_nat_alt not_less
        simp flip: linorder_not_le)
qed

section \<open>Spending the inputs\<close>

text \<open>What the loop body asks of one input and the output it finds.\<close>

definition utxo_spendable ::
  "bitcoin_api \<Rightarrow> transaction \<Rightarrow> u32 \<Rightarrow> lock_time_cutoff \<Rightarrow> txin \<Rightarrow> utxo_data \<Rightarrow> bool" where
  "utxo_spendable L tx height cutoff input utxo \<longleftrightarrow>
     (utxo_is_coinbase utxo \<longrightarrow> creation_height utxo + 100 \<le> height)
   \<and> (is_bip68_enabled tx \<longrightarrow>
        (case to_relative_lock_time L (sequence input) of
           None \<Rightarrow> True
         | Some lock \<Rightarrow> relative_locktime_satisfied cutoff lock
             (saturating_sub height (creation_height utxo)) (creation_time utxo)))
   \<and> \<not> is_unspendable L (script_pubkey (txout utxo))"

lemma spend_input_eq:
  assumes "amount_laws L"
  shows "spend_input L tx height cutoff input (utxos, v, sp) = Inr (utxos', v', sp')
    \<longleftrightarrow> (\<exists>utxo. utxos (previous_output input) = Some utxo
          \<and> utxo_spendable L tx height cutoff input utxo
          \<and> utxos' = utxos(previous_output input := None)
          \<and> unat v' = unat v + unat (value_sat (txout utxo))
          \<and> sp' = sp @ [utxo])"
proof -
  have "amount_checked_add L a b = Some c \<longleftrightarrow> unat c = unat a + unat b" for a b c
    using checked_sum [OF assms, of "()" "\<lambda>_. b" "[()]" a c] by (simp add: res_simps)
  then show ?thesis
    by (auto simp: spend_input_def Let_def take_utxo_def res_simps validate_script_size_def
        utxo_spendable_def not_less split: option.splits)
qed

definition spent_outputs :: "utxo_map \<Rightarrow> txin list \<Rightarrow> utxo_data list" where
  "spent_outputs utxos inputs = map (\<lambda>i. the (utxos (previous_output i))) inputs"

definition in_total :: "utxo_map \<Rightarrow> txin list \<Rightarrow> nat" where
  "in_total utxos inputs = sum_list (map (\<lambda>u. unat (value_sat (txout u))) (spent_outputs utxos inputs))"

definition remove_spent :: "utxo_map \<Rightarrow> txin list \<Rightarrow> utxo_map" where
  "remove_spent utxos inputs = utxos |` (- previous_output ` set inputs)"

lemma remove_spent_Cons:
  "remove_spent (utxos(previous_output i := None)) is = remove_spent utxos (i # is)"
  by (auto simp: remove_spent_def restrict_map_def fun_eq_iff)

lemma spend_loop_eq:
  assumes "amount_laws L"
  shows "distinct (map previous_output inputs) \<Longrightarrow>
    foldE (spend_input L tx height cutoff) inputs (utxos, v, sp) = Inr (utxos', v', sp')
    \<longleftrightarrow> list_all (\<lambda>i. \<exists>u. utxos (previous_output i) = Some u
            \<and> utxo_spendable L tx height cutoff i u) inputs
        \<and> utxos' = remove_spent utxos inputs
        \<and> unat v' = unat v + in_total utxos inputs
        \<and> sp' = sp @ spent_outputs utxos inputs"
proof (induction inputs arbitrary: utxos v sp)
  case Nil
  then show ?case
    by (auto simp: remove_spent_def in_total_def spent_outputs_def word_unat_eq_iff)
next
  case (Cons i inputs)
  let ?rest = "utxos(previous_output i := None)"
  have fresh: "previous_output j \<noteq> previous_output i" if "j \<in> set inputs" for j
    using Cons.prems that by (metis distinct.simps(2) image_eqI list.simps(9) list.set_map)
  then have same: "?rest (previous_output j) = utxos (previous_output j)" if "j \<in> set inputs" for j
    using that by simp
  have spent: "spent_outputs ?rest inputs = spent_outputs utxos inputs"
    using same by (simp add: spent_outputs_def cong: map_cong)
  then have sums: "in_total ?rest inputs = in_total utxos inputs" by (simp add: in_total_def)
  have all: "list_all (\<lambda>j. \<exists>u. ?rest (previous_output j) = Some u \<and> utxo_spendable L tx height cutoff j u) inputs
      = list_all (\<lambda>j. \<exists>u. utxos (previous_output j) = Some u \<and> utxo_spendable L tx height cutoff j u) inputs"
    using same by (simp cong: list.pred_cong)
  have step: "foldE (spend_input L tx height cutoff) (i # inputs) (utxos, v, sp) = Inr (utxos', v', sp')
    \<longleftrightarrow> (\<exists>u v1. utxos (previous_output i) = Some u \<and> utxo_spendable L tx height cutoff i u
          \<and> unat v1 = unat v + unat (value_sat (txout u))
          \<and> foldE (spend_input L tx height cutoff) inputs (?rest, v1, sp @ [u]) = Inr (utxos', v', sp'))"
    by (auto simp: res_simps spend_input_eq [OF assms])
  show ?case
  proof (cases "utxos (previous_output i)")
    case None
    then show ?thesis unfolding step by simp
  next
    case (Some u)
    have tail: "foldE (spend_input L tx height cutoff) inputs (?rest, v1, sp @ [u]) = Inr (utxos', v', sp')
      \<longleftrightarrow> list_all (\<lambda>j. \<exists>u. utxos (previous_output j) = Some u \<and> utxo_spendable L tx height cutoff j u) inputs
        \<and> utxos' = remove_spent utxos (i # inputs)
        \<and> unat v' = unat v1 + in_total utxos inputs
        \<and> sp' = sp @ u # spent_outputs utxos inputs" for v1
      using Cons.IH [of ?rest v1 "sp @ [u]"] Cons.prems unfolding all spent sums remove_spent_Cons
      by (simp del: fun_upd_apply)
    have "spent_outputs utxos (i # inputs) = u # spent_outputs utxos inputs"
      "in_total utxos (i # inputs) = unat (value_sat (txout u)) + in_total utxos inputs"
      using Some by (simp_all add: spent_outputs_def in_total_def)
    moreover have "foldE (spend_input L tx height cutoff) (i # inputs) (utxos, v, sp) = Inr (utxos', v', sp')
      \<longleftrightarrow> utxo_spendable L tx height cutoff i u \<and> (\<exists>v1. unat v1 = unat v + unat (value_sat (txout u))
          \<and> foldE (spend_input L tx height cutoff) inputs (?rest, v1, sp @ [u]) = Inr (utxos', v', sp'))"
      unfolding step using Some by simp
    ultimately show ?thesis
      unfolding tail using word_sum_split [of v "unat (value_sat (txout u))" v' "in_total utxos inputs"] Some
      by auto
  qed
qed

section \<open>The whole transaction\<close>

definition inputs_spendable ::
  "bitcoin_api \<Rightarrow> transaction \<Rightarrow> utxo_map \<Rightarrow> u32 \<Rightarrow> lock_time_cutoff \<Rightarrow> bool" where
  "inputs_spendable L tx utxos height cutoff \<longleftrightarrow>
     list_all (\<lambda>i. \<exists>u. utxos (previous_output i) = Some u
       \<and> utxo_spendable L tx height cutoff i u) (tx_input tx)"

definition scripts_ok ::
  "script_verifier \<Rightarrow> bool \<Rightarrow> transaction \<Rightarrow> utxo_map \<Rightarrow> u32 \<Rightarrow> bool" where
  "scripts_ok scripts verify_script tx utxos flags \<longleftrightarrow>
     (case scripts of
        None \<Rightarrow> True
      | Some verify \<Rightarrow> verify_script \<longrightarrow> verify tx (spent_outputs utxos (tx_input tx)) flags = Inr ())"

text \<open>The rules of a non-coinbase transaction, stated on the map it is checked against.\<close>

definition valid_transaction ::
  "bitcoin_api \<Rightarrow> script_verifier \<Rightarrow> transaction \<Rightarrow> utxo_map \<Rightarrow> u32 \<Rightarrow> lock_time_cutoff \<Rightarrow> bool \<Rightarrow> u32 \<Rightarrow> bool" where
  "valid_transaction L scripts tx utxos height cutoff verify_script flags \<longleftrightarrow>
     context_free_ok L tx
   \<and> inputs_spendable L tx utxos height cutoff
   \<and> in_total utxos (tx_input tx) \<le> unat (max_money L)
   \<and> out_total tx \<le> in_total utxos (tx_input tx)
   \<and> scripts_ok scripts verify_script tx utxos flags"

lemma case_unit_ok:
  "(case s of None \<Rightarrow> Inr () | Some f \<Rightarrow> if c then f a b d else Inr ()) = Inr y
    \<longleftrightarrow> (case s of None \<Rightarrow> True | Some f \<Rightarrow> c \<longrightarrow> f a b d = Inr ())"
  by (auto split: option.split)

lemma verify_transaction_eq:
  assumes "amount_laws L"
  shows "verify_transaction L scripts tx utxos height cutoff verify_script flags = Inr ((iv, ov), utxos')
    \<longleftrightarrow> valid_transaction L scripts tx utxos height cutoff verify_script flags
        \<and> unat iv = in_total utxos (tx_input tx) \<and> unat ov = out_total tx
        \<and> utxos' = remove_spent utxos (tx_input tx)"
proof (cases "context_free_ok L tx")
  case False
  then show ?thesis
    by (auto simp: verify_transaction_def Let_def res_simps context_free_eq [OF assms]
        valid_transaction_def)
next
  case True
  then have "distinct (map previous_output (tx_input tx))" by (simp add: context_free_ok_def)
  note loop = spend_loop_eq [OF assms this, of tx height cutoff utxos 0 "[]"]
  show ?thesis
    using True
    by (auto simp: verify_transaction_def Let_def res_simps context_free_eq [OF assms] loop
        case_unit_ok valid_transaction_def inputs_spendable_def scripts_ok_def not_less
        word_le_nat_alt)
qed

section \<open>Properties\<close>

text \<open>The duplicate-input test, with its special cases for one and two inputs, answers whether
  some outpoint is spent twice by the transaction.\<close>

theorem has_duplicate_inputs_correct:
  "has_duplicate_inputs inputs
    \<longleftrightarrow> (\<exists>i j. i < j \<and> j < length inputs \<and> previous_output (inputs ! i) = previous_output (inputs ! j))"
  by (auto simp: has_duplicate_inputs_eq distinct_conv_nth)
    (metis linorder_neqE_nat, metis less_trans nat_neq_iff)

text \<open>C3. \<^verbatim>\<open>verify_transaction\<close> accepts exactly the transactions that satisfy the rules on the map
  it was given, although it consumes that map while it runs. On acceptance it returns the exact
  input and output totals and removes exactly the spent outpoints.\<close>

theorem verify_transaction_exact:
  assumes "amount_laws L"
  shows "if valid_transaction L scripts tx utxos height cutoff verify_script flags
    then verify_transaction L scripts tx utxos height cutoff verify_script flags
      = Inr ((of_nat (in_total utxos (tx_input tx)), of_nat (out_total tx)),
             remove_spent utxos (tx_input tx))
    else \<exists>e. verify_transaction L scripts tx utxos height cutoff verify_script flags = Inl e"
proof (cases "valid_transaction L scripts tx utxos height cutoff verify_script flags")
  case True
  then have "in_total utxos (tx_input tx) \<le> unat (max_money L)" "out_total tx \<le> unat (max_money L)"
    by (simp_all add: valid_transaction_def)
  then have "in_total utxos (tx_input tx) < 2 ^ 64" "out_total tx < 2 ^ 64"
    using unsigned_less [of "max_money L", where ?'a = nat] by simp_all
  with True show ?thesis
    by (simp add: verify_transaction_eq [OF assms] unat_of_nat)
next
  case False
  then show ?thesis
    by (cases "verify_transaction L scripts tx utxos height cutoff verify_script flags")
      (auto simp: verify_transaction_eq [OF assms])
qed

text \<open>A coin of 1000 satoshis and a transaction that spends it, for the examples. The library has
  short transaction ids.\<close>

definition example_api :: bitcoin_api where
  "example_api = demo_api\<lparr>compute_txid := (\<lambda>tx. map (\<lambda>out. ucast (value_sat out)) (tx_output tx)),
     sha256d := (\<lambda>_. [5])\<rparr>"

definition example_coin :: outpoint where
  "example_coin = \<lparr>op_txid = [9], op_vout = 0\<rparr>"

definition example_utxos :: utxo_map where
  "example_utxos = [example_coin \<mapsto> \<lparr>txout = \<lparr>value_sat = 1000, script_pubkey = [1]\<rparr>,
     utxo_is_coinbase = True, creation_height = 5, creation_time = 0\<rparr>]"

definition example_tx :: transaction where
  "example_tx = \<lparr>tx_version = 2, lock_time = Blocks 0,
     tx_input = [\<lparr>previous_output = example_coin, script_sig = [1], sequence = 10, witness = []\<rparr>],
     tx_output = [\<lparr>value_sat = 60, script_pubkey = [1]\<rparr>]\<rparr>"

lemma example_laws: "amount_laws example_api"
  using demo_amount_laws by (simp add: amount_laws_def example_api_def)

lemmas example_defs = example_api_def demo_api_def example_coin_def example_utxos_def example_tx_def

lemma example_tx_valid:
  "valid_transaction example_api None example_tx example_utxos 200 (Mtp 7) True 0"
  by (simp add: valid_transaction_def context_free_ok_def is_unspendable_def MAX_SCRIPT_SIZE_def
      out_total_def in_total_def spent_outputs_def inputs_spendable_def utxo_spendable_def
      is_bip68_enabled_def scripts_ok_def saturating_sub_def all_zeros_def example_defs)

theorem verify_transaction_exact_witness:
  "verify_transaction example_api None example_tx example_utxos 200 (Mtp 7) True 0
    = Inr ((of_nat (in_total example_utxos (tx_input example_tx)), of_nat (out_total example_tx)),
           remove_spent example_utxos (tx_input example_tx))"
  using verify_transaction_exact [OF example_laws, of None example_tx example_utxos 200 "Mtp 7" True 0]
  by (simp add: example_tx_valid)

end
