(* ===== verification/Block_Rules.thy ===== *)
theory Block_Rules
  imports Transaction_Rules
begin

text \<open>
  What the loop over the transactions of a block guarantees when it accepts: the total value of
  the unspent outputs grows by at most the subsidy, no outpoint is spent twice, an output is
  spent only after the transaction that creates it, and coinbase outputs are spent only when
  mature. The supply formula is related to the sum of the subsidies.
\<close>

section \<open>One transaction of the loop\<close>

lemma coinbase_step:
  "block_tx_step L scripts height cutoff vs flags (0, tx) (utxos, fee, s) = Inr (utxos', fee', s')
   \<Longrightarrow> is_coinbase L tx \<and> utxos' = insert_outputs L 0 height cutoff tx utxos \<and> fee' = fee
     \<and> is_final_transaction L tx height cutoff"
  by (auto simp: block_tx_step_def Let_def res_simps)

lemma noncoinbase_step:
  assumes "amount_laws L" and "0 < n"
    and "block_tx_step L scripts height cutoff vs flags (n, tx) (utxos, fee, s) = Inr (utxos', fee', s')"
  shows "valid_transaction L scripts tx utxos height cutoff vs flags"
    and "utxos' = insert_outputs L n height cutoff tx (remove_spent utxos (tx_input tx))"
    and "unat fee' + out_total tx = unat fee + in_total utxos (tx_input tx)"
    and "is_final_transaction L tx height cutoff"
proof -
  obtain iv ov u where
    v: "verify_transaction L scripts tx utxos height cutoff vs flags = Inr ((iv, ov), u)"
    and add: "amount_checked_add L fee (iv - ov) = Some fee'"
    and u: "utxos' = insert_outputs L n height cutoff tx u"
    and final: "is_final_transaction L tx height cutoff"
    using assms(2,3) by (auto simp: block_tx_step_def Let_def res_simps)
  from v have valid: "valid_transaction L scripts tx utxos height cutoff vs flags"
    and iv: "unat iv = in_total utxos (tx_input tx)" and ov: "unat ov = out_total tx"
    and u': "u = remove_spent utxos (tx_input tx)"
    by (simp_all add: verify_transaction_eq [OF assms(1)])
  then have le: "out_total tx \<le> in_total utxos (tx_input tx)" by (simp add: valid_transaction_def)
  then have "ov \<le> iv" by (simp add: word_le_nat_alt iv ov)
  then have "unat (iv - ov) = in_total utxos (tx_input tx) - out_total tx"
    by (simp add: unat_sub_no_underflow iv ov)
  with amount_add_Some [OF assms(1) add] le
  show "unat fee' + out_total tx = unat fee + in_total utxos (tx_input tx)" by simp
  show "valid_transaction L scripts tx utxos height cutoff vs flags" by (rule valid)
  show "utxos' = insert_outputs L n height cutoff tx (remove_spent utxos (tx_input tx))"
    by (simp add: u u')
  show "is_final_transaction L tx height cutoff" by (rule final)
qed

section \<open>The value of a set of unspent outputs\<close>

definition utxo_value :: "utxo_map \<Rightarrow> outpoint \<Rightarrow> nat" where
  "utxo_value utxos o1 = unat (value_sat (txout (the (utxos o1))))"

definition ledger_total :: "utxo_map \<Rightarrow> nat" where
  "ledger_total utxos = (\<Sum>o1 \<in> dom utxos. utxo_value utxos o1)"

lemma ledger_total_upd:
  assumes "finite (dom utxos)"
  shows "ledger_total (utxos(k \<mapsto> u)) \<le> ledger_total utxos + unat (value_sat (txout u))"
proof -
  have "(\<Sum>o1 \<in> dom utxos - {k}. utxo_value (utxos(k \<mapsto> u)) o1)
      = (\<Sum>o1 \<in> dom utxos - {k}. utxo_value utxos o1)"
    by (rule sum.cong) (auto simp: utxo_value_def)
  also have "\<dots> \<le> ledger_total utxos"
    unfolding ledger_total_def using assms by (intro sum_mono2) auto
  finally show ?thesis
    using assms by (simp add: ledger_total_def sum.insert_remove) (simp add: utxo_value_def)
qed

lemma fold_insert_total:
  assumes "finite (dom utxos)" and "\<And>out. txout (g out) = out"
  shows "finite (dom (fold (\<lambda>(vout, out) u. u(f vout \<mapsto> g out)) xs utxos))
    \<and> ledger_total (fold (\<lambda>(vout, out) u. u(f vout \<mapsto> g out)) xs utxos)
        \<le> ledger_total utxos + sum_list (map (\<lambda>out. unat (value_sat out)) (map snd xs))"
  using assms(1)
proof (induction xs arbitrary: utxos)
  case Nil
  then show ?case by simp
next
  case (Cons x xs)
  obtain vout out where x: "x = (vout, out)" by (cases x)
  have "finite (dom (utxos(f vout \<mapsto> g out)))" using Cons.prems by simp
  from Cons.IH [OF this] ledger_total_upd [OF Cons.prems, of "f vout" "g out"] show ?case
    by (simp add: x assms(2) del: fun_upd_apply)
qed

lemma insert_outputs_total:
  assumes "finite (dom utxos)"
  shows "finite (dom (insert_outputs L n h c tx utxos))"
    and "ledger_total (insert_outputs L n h c tx utxos) \<le> ledger_total utxos + out_total tx"
  using fold_insert_total [OF assms, where xs = "List.enumerate 0 (tx_output tx)"
      and f = "\<lambda>vout. \<lparr>op_txid = compute_txid L tx, op_vout = of_nat vout\<rparr>"
      and g = "\<lambda>out. \<lparr>txout = out, utxo_is_coinbase = (n = 0), creation_height = h,
             creation_time = cutoff_value c\<rparr>"]
  by (simp_all add: insert_outputs_def Let_def out_total_def)

lemma in_total_sum:
  "distinct (map previous_output inputs) \<Longrightarrow>
   in_total utxos inputs = (\<Sum>o1 \<in> previous_output ` set inputs. utxo_value utxos o1)"
  by (simp add: in_total_def spent_outputs_def utxo_value_def comp_def
      sum_list_distinct_conv_sum_set distinct_map sum.reindex)

lemma remove_spent_total:
  assumes "finite (dom utxos)" and "distinct (map previous_output inputs)"
    and "previous_output ` set inputs \<subseteq> dom utxos"
  shows "ledger_total (remove_spent utxos inputs) + in_total utxos inputs = ledger_total utxos"
proof -
  let ?S = "previous_output ` set inputs"
  have "ledger_total (remove_spent utxos inputs) = (\<Sum>o1 \<in> dom utxos - ?S. utxo_value utxos o1)"
    unfolding ledger_total_def by (rule sum.cong) (auto simp: remove_spent_def utxo_value_def)
  then show ?thesis
    using sum.subset_diff [OF assms(3,1), of "utxo_value utxos"]
    by (simp add: in_total_sum [OF assms(2)] ledger_total_def)
qed

lemma valid_transactionD:
  assumes "valid_transaction L scripts tx utxos height cutoff vs flags"
  shows "distinct (map previous_output (tx_input tx))"
    and "previous_output ` set (tx_input tx) \<subseteq> dom utxos"
    and "i \<in> set (tx_input tx) \<Longrightarrow> \<exists>u. utxos (previous_output i) = Some u
           \<and> utxo_spendable L tx height cutoff i u"
  using assms
  by (auto simp: valid_transaction_def context_free_ok_def inputs_spendable_def list_all_iff)

lemma noncoinbase_step_total:
  assumes "amount_laws L" and "0 < n" and "finite (dom utxos)"
    and step: "block_tx_step L scripts height cutoff vs flags (n, tx) (utxos, fee, s) = Inr (utxos', fee', s')"
  shows "finite (dom utxos')" and "ledger_total utxos' + unat fee' \<le> ledger_total utxos + unat fee"
proof -
  note st = noncoinbase_step [OF assms(1,2) step]
  have fin: "finite (dom (remove_spent utxos (tx_input tx)))"
    using assms(3) by (auto simp: remove_spent_def)
  show "finite (dom utxos')" by (simp add: st(2) fin insert_outputs_total)
  have "ledger_total utxos' \<le> ledger_total (remove_spent utxos (tx_input tx)) + out_total tx"
    by (simp add: st(2) fin insert_outputs_total)
  with remove_spent_total [OF assms(3) valid_transactionD(1,2) [OF st(1)]] st(3)
  show "ledger_total utxos' + unat fee' \<le> ledger_total utxos + unat fee" by linarith
qed

section \<open>Accepted blocks\<close>

text \<open>An accepted block, taken apart: the coinbase step, the loop over the rest, the reward.\<close>

lemma accepted_block:
  assumes "verify_block_transactions L scripts height cutoff utxos txs subsidy vs flags = Inr utxos'"
  obtains cb rest utxos1 fee s0 s where "txs = cb # rest"
    and "utxos1 = insert_outputs L 0 height cutoff cb utxos"
    and "is_coinbase L cb"
    and "foldE (block_tx_step L scripts height cutoff vs flags) (List.enumerate 1 rest) (utxos1, 0, s0)
           = Inr (utxos', fee, s)"
    and "\<exists>reward total. amount_checked_add L fee subsidy = Some reward
           \<and> total_out_value L cb = Inr total \<and> total \<le> reward"
proof (cases txs)
  case Nil
  with assms show ?thesis by (simp add: verify_block_transactions_def)
next
  case (Cons cb rest)
  from assms Cons obtain fee s u1 fee1 s1 reward total where
    step: "block_tx_step L scripts height cutoff vs flags (0, cb) (utxos, 0, 0) = Inr (u1, fee1, s1)"
    and loop: "foldE (block_tx_step L scripts height cutoff vs flags) (List.enumerate 1 rest) (u1, fee1, s1)
           = Inr (utxos', fee, s)"
    and rewards: "amount_checked_add L fee subsidy = Some reward" "total_out_value L cb = Inr total"
      "\<not> reward < total"
    by (auto simp: verify_block_transactions_def res_simps)
  from coinbase_step [OF step] loop rewards Cons show ?thesis
    by (intro that [of cb rest u1 s1 fee s]) (auto simp: not_less)
qed

lemma enumerate_pos: "x \<in> set (List.enumerate 1 xs) \<Longrightarrow> 0 < fst x"
  by (cases x) (auto simp: in_set_enumerate_eq)

lemma loop_total:
  assumes "amount_laws L" and "finite (dom utxos)"
    and "foldE (block_tx_step L scripts height cutoff vs flags) (List.enumerate 1 rest) (utxos, fee, s)
      = Inr (utxos', fee', s')"
  shows "ledger_total utxos' + unat fee' \<le> ledger_total utxos + unat fee"
proof -
  let ?P = "\<lambda>(u, f, s). finite (dom u)
    \<and> ledger_total u + unat (f :: amount) \<le> ledger_total utxos + unat fee"
  have "?P (utxos', fee', s')"
    using assms(3)
  proof (rule foldE_invariant)
    show "?P (utxos, fee, s)" using assms(2) by simp
  next
    fix x t t'
    assume x: "x \<in> set (List.enumerate 1 rest)" and t: "?P t"
      and step: "block_tx_step L scripts height cutoff vs flags x t = Inr t'"
    obtain n tx u f s u' f' s' where eqs: "x = (n, tx)" "t = (u, f, s)" "t' = (u', f', s')"
      by (metis prod_cases3 surj_pair)
    from enumerate_pos [OF x] eqs have "0 < n" by simp
    from noncoinbase_step_total [OF assms(1) this _ step [unfolded eqs]] t show "?P t'"
      by (auto simp: eqs)
  qed
  then show ?thesis by simp
qed

section \<open>The ledger of a block\<close>

text \<open>The abstract ledger: a transaction takes its inputs out of the map and puts its outputs in.
  A sequence of transactions is valid when each is valid on the map its predecessors leave.\<close>

definition ledger_step :: "bitcoin_api \<Rightarrow> u32 \<Rightarrow> lock_time_cutoff \<Rightarrow> transaction \<Rightarrow> utxo_map \<Rightarrow> utxo_map" where
  "ledger_step L height cutoff tx utxos =
     insert_outputs L 1 height cutoff tx (remove_spent utxos (tx_input tx))"

fun ledger_valid ::
  "bitcoin_api \<Rightarrow> script_verifier \<Rightarrow> u32 \<Rightarrow> lock_time_cutoff \<Rightarrow> bool \<Rightarrow> u32 \<Rightarrow> utxo_map \<Rightarrow> transaction list \<Rightarrow> bool" where
  "ledger_valid L scripts height cutoff vs flags utxos [] = True"
| "ledger_valid L scripts height cutoff vs flags utxos (tx # txs) =
     (valid_transaction L scripts tx utxos height cutoff vs flags
      \<and> is_final_transaction L tx height cutoff
      \<and> ledger_valid L scripts height cutoff vs flags (ledger_step L height cutoff tx utxos) txs)"

lemma insert_outputs_pos: "0 < n \<Longrightarrow> insert_outputs L n = insert_outputs L 1"
  by (simp add: insert_outputs_def fun_eq_iff)

lemma loop_ledger:
  assumes "amount_laws L"
  shows "0 < n \<Longrightarrow> foldE (block_tx_step L scripts height cutoff vs flags) (List.enumerate n rest) (utxos, fee, s)
      = Inr (utxos', fee', s') \<Longrightarrow>
    ledger_valid L scripts height cutoff vs flags utxos rest
    \<and> utxos' = fold (ledger_step L height cutoff) rest utxos"
proof (induction rest arbitrary: n utxos fee s)
  case Nil
  then show ?case by simp
next
  case (Cons tx rest)
  from Cons.prems(2) obtain u f t where
    step: "block_tx_step L scripts height cutoff vs flags (n, tx) (utxos, fee, s) = Inr (u, f, t)"
    and rest: "foldE (block_tx_step L scripts height cutoff vs flags) (List.enumerate (Suc n) rest) (u, f, t)
      = Inr (utxos', fee', s')"
    by (auto simp: res_simps)
  note st = noncoinbase_step [OF assms Cons.prems(1) step]
  have "u = ledger_step L height cutoff tx utxos"
    using st(2) by (simp only: ledger_step_def insert_outputs_pos [OF Cons.prems(1)])
  with st(1,4) Cons.IH [OF _ rest] show ?case by simp
qed

definition created_by :: "bitcoin_api \<Rightarrow> transaction \<Rightarrow> outpoint set" where
  "created_by L tx = (\<lambda>vout. \<lparr>op_txid = compute_txid L tx, op_vout = of_nat vout\<rparr>)
     ` {..< length (tx_output tx)}"

lemma created_by_txid: "o1 \<in> created_by L tx \<Longrightarrow> op_txid o1 = compute_txid L tx"
  by (auto simp: created_by_def)

lemma fold_insert_dom:
  "dom (fold (\<lambda>(vout, out) u. u(f vout \<mapsto> g out)) xs utxos) = dom utxos \<union> f ` fst ` set xs"
  by (induction xs arbitrary: utxos) auto

lemma insert_outputs_dom: "dom (insert_outputs L n h c tx utxos) = dom utxos \<union> created_by L tx"
  using fold_insert_dom [of "\<lambda>vout. \<lparr>op_txid = compute_txid L tx, op_vout = of_nat vout\<rparr>"
      "\<lambda>out. \<lparr>txout = out, utxo_is_coinbase = (n = 0), creation_height = h,
             creation_time = cutoff_value c\<rparr>" "List.enumerate 0 (tx_output tx)"]
  by (simp add: insert_outputs_def Let_def created_by_def atLeast0LessThan flip: list.set_map)

lemma fold_insert_other:
  "k \<notin> f ` fst ` set xs \<Longrightarrow> fold (\<lambda>(vout, out) u. u(f vout \<mapsto> g out)) xs utxos k = utxos k"
  by (induction xs arbitrary: utxos) auto

lemma insert_outputs_other: "op_txid k \<noteq> compute_txid L tx \<Longrightarrow> insert_outputs L n h c tx utxos k = utxos k"
  unfolding insert_outputs_def Let_def by (rule fold_insert_other) auto

abbreviation prevouts :: "transaction \<Rightarrow> outpoint list" where
  "prevouts tx \<equiv> map previous_output (tx_input tx)"

lemma ledger_step_dom:
  "dom (ledger_step L h c tx utxos) = (dom utxos - set (prevouts tx)) \<union> created_by L tx"
  by (auto simp: ledger_step_def insert_outputs_dom remove_spent_def)

lemma ledger_no_double_spend:
  assumes "ledger_valid L scripts height cutoff vs flags utxos rest"
    and "distinct spent" and "dom utxos \<inter> set spent = {}"
    and "\<And>o1. o1 \<in> dom utxos \<union> set spent \<Longrightarrow> op_txid o1 \<notin> compute_txid L ` set rest"
    and "distinct (map (compute_txid L) rest)"
  shows "distinct (spent @ concat (map prevouts rest))"
  using assms
proof (induction rest arbitrary: utxos spent)
  case Nil
  then show ?case by simp
next
  case (Cons tx rest)
  let ?u = "ledger_step L height cutoff tx utxos"
  have valid: "valid_transaction L scripts tx utxos height cutoff vs flags"
    and rest: "ledger_valid L scripts height cutoff vs flags ?u rest"
    using Cons.prems(1) by simp_all
  have sub: "set (prevouts tx) \<subseteq> dom utxos" using valid_transactionD(2) [OF valid] by simp
  have "distinct ((spent @ prevouts tx) @ concat (map prevouts rest))"
  proof (rule Cons.IH [OF rest])
    have "set spent \<inter> set (prevouts tx) = {}" using Cons.prems(3) sub by blast
    then show "distinct (spent @ prevouts tx)"
      using Cons.prems(2) valid_transactionD(1) [OF valid] by simp
    have "o1 \<notin> created_by L tx" if "o1 \<in> dom utxos \<union> set spent" for o1
      using Cons.prems(4) [OF that] by (auto dest: created_by_txid)
    then have "created_by L tx \<inter> (dom utxos \<union> set spent) = {}" by blast
    with sub Cons.prems(3) show "dom ?u \<inter> set (spent @ prevouts tx) = {}"
      unfolding ledger_step_dom set_append by blast
    show "op_txid o1 \<notin> compute_txid L ` set rest" if "o1 \<in> dom ?u \<union> set (spent @ prevouts tx)" for o1
    proof (cases "o1 \<in> created_by L tx")
      case True
      then show ?thesis using Cons.prems(5) by (auto dest: created_by_txid)
    next
      case False
      with that sub have "o1 \<in> dom utxos \<union> set spent" unfolding ledger_step_dom set_append by blast
      from Cons.prems(4) [OF this] show ?thesis by simp
    qed
    show "distinct (map (compute_txid L) rest)" using Cons.prems(5) by simp
  qed
  then show ?case by simp
qed

text \<open>A coin from before the block stays as it was until it is spent.\<close>

lemma ledger_old_coin:
  assumes "ledger_valid L scripts height cutoff vs flags utxos rest"
    and "tx \<in> set rest" and "i \<in> set (tx_input tx)"
    and "op_txid (previous_output i) \<notin> compute_txid L ` set rest"
  shows "\<exists>u. utxos (previous_output i) = Some u \<and> utxo_spendable L tx height cutoff i u"
  using assms
proof (induction rest arbitrary: utxos)
  case Nil
  then show ?case by simp
next
  case (Cons tx' rest)
  show ?case
  proof (cases "tx = tx'")
    case True
    with Cons.prems valid_transactionD(3) show ?thesis by auto
  next
    case False
    with Cons obtain u where "ledger_step L height cutoff tx' utxos (previous_output i) = Some u"
      and ok: "utxo_spendable L tx height cutoff i u"
      by auto
    then have "utxos (previous_output i) = Some u"
      using Cons.prems(4)
      by (auto simp: ledger_step_def insert_outputs_other remove_spent_def restrict_map_def
          split: if_splits)
    with ok show ?thesis by blast
  qed
qed

section \<open>An example block\<close>

definition example_coinbase :: transaction where
  "example_coinbase = \<lparr>tx_version = 2, lock_time = Blocks 0,
     tx_input = [\<lparr>previous_output = \<lparr>op_txid = all_zeros, op_vout = 0xFFFFFFFF\<rparr>,
       script_sig = [1, 2], sequence = 0xFFFFFFFF, witness = []\<rparr>],
     tx_output = [\<lparr>value_sat = 50, script_pubkey = [1]\<rparr>]\<rparr>"

definition example_block_txs :: "transaction list" where
  "example_block_txs = [example_coinbase, example_tx]"

lemma example_block_accepted:
  obtains utxos' where
    "verify_block_transactions example_api None 200 (Mtp 7) example_utxos example_block_txs 5000 True 0
      = Inr utxos'"
proof -
  have "\<exists>utxos'. verify_block_transactions example_api None 200 (Mtp 7) example_utxos
      example_block_txs 5000 True 0 = Inr utxos'"
    by (simp add: verify_block_transactions_def block_tx_step_def is_final_transaction_def
        saturating_add_def sigop_cost_def legacy_sigop_cost_def verify_coinbase_def
        verify_transaction_def check_transaction_context_free_def validate_script_size_def
        is_unspendable_def MAX_SCRIPT_SIZE_def has_duplicate_inputs_def total_out_value_def
        spend_input_def take_utxo_def is_bip68_enabled_def saturating_sub_def checked_add_def
        insert_outputs_def example_defs example_coinbase_def example_block_txs_def all_zeros_def
        Let_def)
  then show ?thesis using that by blast
qed

lemma example_utxos_facts:
  "finite (dom example_utxos)"
  "ledger_total example_utxos = 1000"
  by (simp_all add: example_utxos_def ledger_total_def utxo_value_def)

section \<open>Properties\<close>

text \<open>C1. No inflation: a block that is accepted with a given subsidy leaves unspent outputs
  whose total value is at most the total before the block plus the subsidy.\<close>

theorem no_inflation:
  assumes "amount_laws L" and "finite (dom utxos)"
    and "verify_block_transactions L scripts height cutoff utxos txs subsidy vs flags = Inr utxos'"
  shows "ledger_total utxos' \<le> ledger_total utxos + unat subsidy"
proof (rule accepted_block [OF assms(3)])
  fix cb rest utxos1 fee s0 s
  assume u1: "utxos1 = insert_outputs L 0 height cutoff cb utxos"
    and loop: "foldE (block_tx_step L scripts height cutoff vs flags) (List.enumerate 1 rest) (utxos1, 0, s0)
       = Inr (utxos', fee, s)"
    and "\<exists>reward total. amount_checked_add L fee subsidy = Some reward
       \<and> total_out_value L cb = Inr total \<and> total \<le> reward"
  then obtain reward total where rewards: "amount_checked_add L fee subsidy = Some reward"
      "total_out_value L cb = Inr total" "unat total \<le> unat reward"
    by (auto simp: word_le_nat_alt)
  have "out_total cb \<le> unat fee + unat subsidy"
    using amount_add_Some [OF assms(1) rewards(1)] rewards(2,3)
    by (simp add: total_out_value_eq [OF assms(1)])
  moreover have "ledger_total utxos1 \<le> ledger_total utxos + out_total cb" and "finite (dom utxos1)"
    using insert_outputs_total [OF assms(2)] by (simp_all add: u1)
  moreover have "ledger_total utxos' + unat fee \<le> ledger_total utxos1"
    using loop_total [OF assms(1) \<open>finite (dom utxos1)\<close> loop] by simp
  ultimately show ?thesis by linarith
qed

theorem no_inflation_witness:
  "\<exists>utxos'. verify_block_transactions example_api None 200 (Mtp 7) example_utxos example_block_txs 5000 True 0
      = Inr utxos' \<and> ledger_total utxos' \<le> 1000 + 5000"
proof (rule example_block_accepted)
  fix utxos'
  assume ok: "verify_block_transactions example_api None 200 (Mtp 7) example_utxos example_block_txs 5000 True 0
      = Inr utxos'"
  from no_inflation [OF example_laws example_utxos_facts(1) ok] ok show ?thesis
    by (auto simp: example_utxos_facts(2))
qed

text \<open>C2. No double spend: when the transaction ids of the block are distinct and none of them
  already names an unspent output, the inputs of an accepted block are pairwise distinct, across
  transactions as well as inside one.\<close>

theorem no_double_spend:
  assumes "amount_laws L"
    and "verify_block_transactions L scripts height cutoff utxos txs subsidy vs flags = Inr utxos'"
    and "distinct (map (compute_txid L) txs)"
    and "\<And>o1. o1 \<in> dom utxos \<Longrightarrow> op_txid o1 \<notin> compute_txid L ` set txs"
  shows "distinct (concat (map prevouts (tl txs)))"
proof (rule accepted_block [OF assms(2)])
  fix cb rest utxos1 fee s0 s
  assume txs: "txs = cb # rest" and u1: "utxos1 = insert_outputs L 0 height cutoff cb utxos"
    and loop: "foldE (block_tx_step L scripts height cutoff vs flags) (List.enumerate 1 rest) (utxos1, 0, s0)
       = Inr (utxos', fee, s)"
  have "distinct ([] @ concat (map prevouts rest))"
  proof (rule ledger_no_double_spend)
    show "ledger_valid L scripts height cutoff vs flags utxos1 rest"
      using loop_ledger [OF assms(1) _ loop] by simp
    show "op_txid o1 \<notin> compute_txid L ` set rest" if "o1 \<in> dom utxos1 \<union> set []" for o1
      using that assms(3) assms(4) [of o1]
      by (auto simp: u1 txs insert_outputs_dom dest: created_by_txid)
  qed (use assms(3) in \<open>simp_all add: txs\<close>)
  then show ?thesis by (simp add: txs)
qed

theorem no_double_spend_witness: "distinct (concat (map prevouts (tl example_block_txs)))"
proof (rule example_block_accepted)
  fix utxos'
  assume ok: "verify_block_transactions example_api None 200 (Mtp 7) example_utxos example_block_txs 5000 True 0
      = Inr utxos'"
  show ?thesis
    by (rule no_double_spend [OF example_laws ok])
      (auto simp: example_block_txs_def example_coinbase_def example_defs split: if_splits)
qed

text \<open>C5. Every input of an accepted block that refers to a coin from before the block refers to
  one of the coins the block was checked against; if that coin is a coinbase output it is at
  least 100 blocks old, and its relative lock time has passed.\<close>

theorem spent_coins_mature:
  assumes "amount_laws L"
    and "verify_block_transactions L scripts height cutoff utxos txs subsidy vs flags = Inr utxos'"
    and "tx \<in> set (tl txs)" and "i \<in> set (tx_input tx)"
    and "op_txid (previous_output i) \<notin> compute_txid L ` set txs"
  shows "\<exists>u. utxos (previous_output i) = Some u
     \<and> (utxo_is_coinbase u \<longrightarrow> creation_height u + 100 \<le> height)
     \<and> (is_bip68_enabled tx \<longrightarrow> (\<forall>lock. to_relative_lock_time L (sequence i) = Some lock \<longrightarrow>
          relative_locktime_satisfied cutoff lock
            (saturating_sub height (creation_height u)) (creation_time u)))"
proof (rule accepted_block [OF assms(2)])
  fix cb rest utxos1 fee s0 s
  assume txs: "txs = cb # rest" and u1: "utxos1 = insert_outputs L 0 height cutoff cb utxos"
    and loop: "foldE (block_tx_step L scripts height cutoff vs flags) (List.enumerate 1 rest) (utxos1, 0, s0)
       = Inr (utxos', fee, s)"
  have "ledger_valid L scripts height cutoff vs flags utxos1 rest"
    using loop_ledger [OF assms(1) _ loop] by simp
  from ledger_old_coin [OF this, of tx i] assms(3-5)
  obtain u where "utxos1 (previous_output i) = Some u" and "utxo_spendable L tx height cutoff i u"
    by (auto simp: txs)
  moreover have "utxos1 (previous_output i) = utxos (previous_output i)"
    using assms(5) by (simp add: u1 txs insert_outputs_other)
  ultimately show ?thesis by (auto simp: utxo_spendable_def)
qed

theorem spent_coins_mature_witness:
  "\<exists>u. example_utxos (previous_output (hd (tx_input example_tx))) = Some u
     \<and> (utxo_is_coinbase u \<longrightarrow> creation_height u + 100 \<le> 200)
     \<and> (is_bip68_enabled example_tx \<longrightarrow>
          (\<forall>lock. to_relative_lock_time example_api (sequence (hd (tx_input example_tx))) = Some lock \<longrightarrow>
          relative_locktime_satisfied (Mtp 7) lock
            (saturating_sub 200 (creation_height u)) (creation_time u)))"
proof (rule example_block_accepted)
  fix utxos'
  assume ok: "verify_block_transactions example_api None 200 (Mtp 7) example_utxos example_block_txs 5000 True 0
      = Inr utxos'"
  show ?thesis
    by (rule spent_coins_mature [OF example_laws ok])
      (simp_all add: example_block_txs_def example_coinbase_def example_defs)
qed

end
