(* ===== verification/Udata.thy ===== *)
theory Udata
  imports Consensus
begin

text \<open>
  \<^verbatim>\<open>udata.rs\<close>: the leaves of the Utreexo accumulator. The hash of a leaf, the compact leaves of a
  proof and how the spent output is rebuilt from them, the leaves a block adds (from the block
  alone and from SwiftSync hints) and the processing of a block's proof into deleted leaf hashes
  and the coins the block may spend.

  The encoders, parsers and hash functions of rust-bitcoin are the fields of \<open>udata_api\<close>; a parser
  takes the bytes that are left to read and returns them with its result. The output index of a
  transaction is converted to 32 bits; the source aborts if it does not fit, which the size of a
  block excludes.
\<close>

section \<open>Definitions\<close>

record udata_api =
  encode_txout :: "txout \<Rightarrow> bytes"
  sha512_256 :: "bytes \<Rightarrow> hash"
  encode_u8 :: "u8 \<Rightarrow> bytes"
  encode_boxed :: "bytes \<Rightarrow> bytes"
  decode_u8 :: "bytes \<Rightarrow> string + u8 \<times> bytes"
  decode_u32 :: "bytes \<Rightarrow> string + u32 \<times> bytes"
  decode_boxed :: "bytes \<Rightarrow> string + bytes \<times> bytes"
  decode_block_hash :: "bytes \<Rightarrow> string + hash \<times> bytes"
  decode_outpoint :: "bytes \<Rightarrow> string + outpoint \<times> bytes"
  decode_txout :: "bytes \<Rightarrow> string + txout \<times> bytes"
  is_p2pkh :: "script \<Rightarrow> bool"
  pubkey_hash :: "bytes \<Rightarrow> hash"
  script_hash :: "bytes \<Rightarrow> hash"
  wpubkey_hash :: "bytes \<Rightarrow> hash"
  wscript_hash :: "bytes \<Rightarrow> hash"
  new_p2pkh :: "hash \<Rightarrow> script"
  new_p2wpkh :: "hash \<Rightarrow> script"
  new_p2sh :: "hash \<Rightarrow> script"
  new_p2wsh :: "hash \<Rightarrow> script"

definition UTREEXO_TAG_V1 :: bytes where
  "UTREEXO_TAG_V1 = [
    0x5b, 0x83, 0x2d, 0xb8, 0xca, 0x26, 0xc2, 0x5b, 0xe1, 0xc5, 0x42, 0xd6, 0xcc, 0xed, 0xdd, 0xa8,
    0xc1, 0x45, 0x61, 0x5c, 0xff, 0x5c, 0x35, 0x72, 0x7f, 0xb3, 0x46, 0x26, 0x10, 0x80, 0x7e, 0x20,
    0xae, 0x53, 0x4d, 0xc3, 0xf6, 0x42, 0x99, 0x19, 0x99, 0x31, 0x77, 0x2e, 0x03, 0x78, 0x7d, 0x18,
    0x15, 0x6e, 0xb3, 0x15, 0x1e, 0x0e, 0xd1, 0xb3, 0x09, 0x8b, 0xdc, 0x84, 0x45, 0x86, 0x18, 0x85]"

record leaf_data =
  ld_block_hash :: hash
  ld_prevout :: outpoint
  ld_header_code :: u32
  ld_utxo :: txout

definition leaf_data_get_leaf_hashes :: "udata_api \<Rightarrow> leaf_data \<Rightarrow> hash" where
  "leaf_data_get_leaf_hashes A leaf =
     sha512_256 A (UTREEXO_TAG_V1 @ UTREEXO_TAG_V1 @ ld_block_hash leaf @ op_txid (ld_prevout leaf)
       @ u32_to_le_bytes (op_vout (ld_prevout leaf)) @ u32_to_le_bytes (ld_header_code leaf)
       @ encode_txout A (ld_utxo leaf))"

definition leaf_data_decode :: "udata_api \<Rightarrow> bytes \<Rightarrow> string + leaf_data \<times> bytes" where
  "leaf_data_decode A reader =
     bindE (decode_block_hash A reader) (\<lambda>(bhash, reader).
     bindE (decode_outpoint A reader) (\<lambda>(prevout, reader).
     bindE (decode_u32 A reader) (\<lambda>(header_code, reader).
     bindE (decode_txout A reader) (\<lambda>(utxo, reader).
     Inr (\<lparr>ld_block_hash = bhash, ld_prevout = prevout, ld_header_code = header_code,
           ld_utxo = utxo\<rparr>, reader)))))"

definition spk_kind_decode :: "udata_api \<Rightarrow> bytes \<Rightarrow> string + script_pubkey_kind \<times> bytes" where
  "spk_kind_decode A reader =
     bindE (decode_u8 A reader) (\<lambda>(ty, reader).
     if ty = 0x00 then bindE (decode_boxed A reader) (\<lambda>(s, reader). Inr (Other s, reader))
     else if ty = 0x01 then Inr (PubKeyHash, reader)
     else if ty = 0x02 then Inr (WitnessV0PubKeyHash, reader)
     else if ty = 0x03 then Inr (ScriptHash, reader)
     else if ty = 0x04 then Inr (WitnessV0ScriptHash, reader)
     else Inl ''Invalid script type'')"

text \<open>The bytes written and the length that is returned.\<close>

fun spk_kind_encode :: "udata_api \<Rightarrow> script_pubkey_kind \<Rightarrow> bytes \<times> nat" where
  "spk_kind_encode A (Other s) = (encode_u8 A 0x00 @ encode_boxed A s, 1 + length (encode_boxed A s))"
| "spk_kind_encode A PubKeyHash = (encode_u8 A 0x01, 1)"
| "spk_kind_encode A WitnessV0PubKeyHash = (encode_u8 A 0x02, 1)"
| "spk_kind_encode A ScriptHash = (encode_u8 A 0x03, 1)"
| "spk_kind_encode A WitnessV0ScriptHash = (encode_u8 A 0x04, 1)"

definition get_script_type :: "bitcoin_api \<Rightarrow> udata_api \<Rightarrow> script \<Rightarrow> script_pubkey_kind" where
  "get_script_type L A s =
     (if is_p2pkh A s then PubKeyHash
      else if is_p2sh L s then ScriptHash
      else if is_p2wpkh L s then WitnessV0PubKeyHash
      else if is_p2wsh L s then WitnessV0ScriptHash
      else Other s)"

definition last_opt :: "'a list \<Rightarrow> 'a option" where
  "last_opt xs = (if xs = [] then None else Some (last xs))"

definition get_pk_hash :: "bitcoin_api \<Rightarrow> udata_api \<Rightarrow> txin \<Rightarrow> leaf_error_kind + hash" where
  "get_pk_hash L A input =
     (case last_opt (instructions L (script_sig input)) of
        None \<Rightarrow> Inl EmptyStack
      | Some (Inr (PushBytes b)) \<Rightarrow> Inr (pubkey_hash A b)
      | Some (Inr _) \<Rightarrow> Inl NotPushBytes
      | Some (Inl e) \<Rightarrow> Inl (InvalidInstruction e))"

definition get_script_hash :: "bitcoin_api \<Rightarrow> udata_api \<Rightarrow> txin \<Rightarrow> leaf_error_kind + hash" where
  "get_script_hash L A input =
     (case last_opt (instructions L (script_sig input)) of
        None \<Rightarrow> Inl EmptyStack
      | Some (Inr (PushBytes b)) \<Rightarrow> Inr (script_hash A b)
      | Some (Inr _) \<Rightarrow> Inl NotPushBytes
      | Some (Inl e) \<Rightarrow> Inl (InvalidInstruction e))"

definition get_witness_pk_hash :: "udata_api \<Rightarrow> txin \<Rightarrow> leaf_error_kind + hash" where
  "get_witness_pk_hash A input =
     (case last_opt (witness input) of
        Some pk \<Rightarrow> Inr (wpubkey_hash A pk)
      | None \<Rightarrow> Inl EmptyStack)"

definition get_witness_script_hash :: "udata_api \<Rightarrow> txin \<Rightarrow> leaf_error_kind + hash" where
  "get_witness_script_hash A input =
     (case last_opt (witness input) of
        Some s \<Rightarrow> Inr (wscript_hash A s)
      | None \<Rightarrow> Inl EmptyStack)"

definition reconstruct_script_pubkey ::
  "bitcoin_api \<Rightarrow> udata_api \<Rightarrow> compact_leaf_data \<Rightarrow> txin \<Rightarrow> leaf_error_kind + script" where
  "reconstruct_script_pubkey L A leaf input =
     (case spk_ty leaf of
        Other spk \<Rightarrow> Inr spk
      | PubKeyHash \<Rightarrow> bindE (get_pk_hash L A input) (\<lambda>h. Inr (new_p2pkh A h))
      | WitnessV0PubKeyHash \<Rightarrow> bindE (get_witness_pk_hash A input) (\<lambda>h. Inr (new_p2wpkh A h))
      | ScriptHash \<Rightarrow> bindE (get_script_hash L A input) (\<lambda>h. Inr (new_p2sh A h))
      | WitnessV0ScriptHash \<Rightarrow> bindE (get_witness_script_hash A input) (\<lambda>h. Inr (new_p2wsh A h)))"

definition reconstruct_leaf_data ::
  "bitcoin_api \<Rightarrow> udata_api \<Rightarrow> compact_leaf_data \<Rightarrow> txin \<Rightarrow> hash \<Rightarrow> leaf_error_kind + leaf_data" where
  "reconstruct_leaf_data L A leaf input bhash =
     bindE (reconstruct_script_pubkey L A leaf input) (\<lambda>spk.
     Inr \<lparr>ld_block_hash = bhash, ld_prevout = previous_output input,
          ld_header_code = cl_header_code leaf,
          ld_utxo = \<lparr>value_sat = cl_amount leaf, script_pubkey = spk\<rparr>\<rparr>)"

definition leaf_header_code :: "bool \<Rightarrow> u32 \<Rightarrow> u32" where
  "leaf_header_code is_cb height = (if is_cb then push_bit 1 height OR 1 else push_bit 1 height)"

definition get_leaf_hashes ::
  "udata_api \<Rightarrow> hash \<Rightarrow> bool \<Rightarrow> u32 \<Rightarrow> txout \<Rightarrow> u32 \<Rightarrow> hash \<Rightarrow> hash" where
  "get_leaf_hashes A txid is_cb vout utxo height bhash =
     sha512_256 A (UTREEXO_TAG_V1 @ UTREEXO_TAG_V1 @ bhash @ txid @ u32_to_le_bytes vout
       @ u32_to_le_bytes (leaf_header_code is_cb height) @ encode_txout A utxo)"

definition get_input_outpoints :: "transaction list \<Rightarrow> outpoint set" where
  "get_input_outpoints txs = set (map previous_output (concat (map tx_input txs)))"

text \<open>\<^verbatim>\<open>BitcoinNodeHash\<close> of rustreexo, as far as it is used.\<close>

datatype node_hash = NodeEmpty | NodeSome hash

definition output_adds ::
  "bitcoin_api \<Rightarrow> udata_api \<Rightarrow> outpoint set \<Rightarrow> u32 \<Rightarrow> hash \<Rightarrow> transaction \<Rightarrow> nat \<times> txout \<Rightarrow> node_hash list" where
  "output_adds L A spent height bhash tx vo =
     (let (vout, output) = vo; txid = compute_txid L tx; is_cb = is_coinbase L tx;
          vout = of_nat vout; utxo_id = \<lparr>op_txid = txid, op_vout = vout\<rparr>
      in if is_unspendable L (script_pubkey output) \<or> utxo_id \<in> spent then []
         else [NodeSome (get_leaf_hashes A txid is_cb vout output height bhash)])"

definition tx_adds ::
  "bitcoin_api \<Rightarrow> udata_api \<Rightarrow> outpoint set \<Rightarrow> u32 \<Rightarrow> hash \<Rightarrow> transaction \<Rightarrow> node_hash list" where
  "tx_adds L A spent height bhash tx =
     concat (map (output_adds L A spent height bhash tx) (List.enumerate 0 (tx_output tx)))"

definition get_block_adds ::
  "bitcoin_api \<Rightarrow> udata_api \<Rightarrow> block \<Rightarrow> u32 \<Rightarrow> hash \<Rightarrow> node_hash list" where
  "get_block_adds L A b height bhash =
     concat (map (tx_adds L A (get_input_outpoints (txdata b)) height bhash) (txdata b))"

text \<open>One output in the loop of \<^verbatim>\<open>get_block_adds_from_hints\<close>; the state is the index of the output
  among the outputs that count, and the additions so far.\<close>

definition hint_output ::
  "bitcoin_api \<Rightarrow> udata_api \<Rightarrow> block \<Rightarrow> outpoint set \<Rightarrow> u32 set \<Rightarrow> u32 \<Rightarrow> hash \<Rightarrow> transaction \<Rightarrow> hash \<Rightarrow>
   nat \<times> txout \<Rightarrow> u32 \<times> node_hash list \<Rightarrow> u32 \<times> node_hash list" where
  "hint_output L A b spent unspent_indexes height bhash tx txid vo st =
     (let (vout, output) = vo; (output_index, adds) = st; is_cb = is_coinbase L tx in
      if is_unspendable L (script_pubkey output) then (output_index, adds)
      else if \<lparr>op_txid = txid, op_vout = of_nat vout\<rparr> \<in> spent then (output_index + 1, adds)
      else
        (let bip30_unspendable = is_cb \<and> is_bip30_unspendable L b height;
             adds = (if bip30_unspendable \<or> output_index \<in> unspent_indexes
               then adds @ [NodeSome (get_leaf_hashes A txid is_cb (of_nat vout) output height bhash)]
               else adds @ [NodeEmpty])
         in if bip30_unspendable then (output_index, adds) else (output_index + 1, adds)))"

definition get_block_adds_from_hints ::
  "bitcoin_api \<Rightarrow> udata_api \<Rightarrow> block \<Rightarrow> hash list \<Rightarrow> u32 \<Rightarrow> hash \<Rightarrow> u32 set \<Rightarrow>
   blockchain_error + node_hash list" where
  "get_block_adds_from_hints L A b txids height bhash unspent_indexes =
     (let transactions = txdata b in
     bindE (reject_if (length transactions \<noteq> length txids) (Panicked ''assert_eq'')) (\<lambda>_.
     let spent = get_input_outpoints transactions
     in Inr (snd (fold (\<lambda>(tx, txid).
            fold (hint_output L A b spent unspent_indexes height bhash tx txid)
              (List.enumerate 0 (tx_output tx)))
          (zip transactions txids) (0, [])))))"

definition GENESIS_HEIGHT :: u32 where
  "GENESIS_HEIGHT = 0"

type_synonym proof_state = "compact_leaf_data list \<times> hash list \<times> utxo_map"

definition same_block_output :: "(hash \<rightharpoonup> nat) \<Rightarrow> outpoint \<Rightarrow> bool" where
  "same_block_output same_block_transactions out =
     (case same_block_transactions (op_txid out) of
        None \<Rightarrow> False
      | Some output_count \<Rightarrow> unat (op_vout out) < output_count)"

text \<open>One input in the loop of \<^verbatim>\<open>process_proof\<close>; the state is the leaves not yet taken, the
  deleted hashes and the coins so far.\<close>

definition process_input ::
  "bitcoin_api \<Rightarrow> udata_api \<Rightarrow> (utreexo_leaf_error \<Rightarrow> 'e) \<Rightarrow> (u32 \<Rightarrow> 'e + hash) \<Rightarrow> (u32 \<Rightarrow> 'e + u32) \<Rightarrow>
   (hash \<rightharpoonup> nat) \<Rightarrow> transaction \<Rightarrow> hash \<Rightarrow> nat \<times> txin \<Rightarrow> proof_state \<Rightarrow> 'e + proof_state" where
  "process_input L A from_leaf get_block_hash get_mtp same_block tx txid vi st =
     (let (vin, input) = vi; (leaves, del_hashes, utxos) = st in
      if same_block_output same_block (previous_output input) then Inr st
      else case leaves of
        [] \<Rightarrow> Inr st
      | leaf # leaves \<Rightarrow>
         (let creation = drop_bit 1 (cl_header_code leaf);
              is_cb = (cl_header_code leaf AND 1 \<noteq> 0);
              leaf_error = (\<lambda>k. from_leaf \<lparr>le_leaf = leaf, le_txid = txid, le_vin = vin, le_kind = k\<rparr>) in
          bindE (reject_if (creation = GENESIS_HEIGHT) (leaf_error GenesisCreationHeight)) (\<lambda>_.
          bindE (get_block_hash creation) (\<lambda>bhash.
          bindE (map_err leaf_error (reconstruct_leaf_data L A leaf input bhash)) (\<lambda>leaf.
          bindE (if is_bip68_enabled tx \<and> is_time_locked L (sequence input)
                 then get_mtp (creation - 1) else Inr 0) (\<lambda>time.
          Inr (leaves, del_hashes @ [leaf_data_get_leaf_hashes A leaf],
            utxos(ld_prevout leaf \<mapsto>
              \<lparr>txout = ld_utxo leaf, utxo_is_coinbase = is_cb, creation_height = creation,
               creation_time = time\<rparr>)))))))) "

definition process_proof ::
  "bitcoin_api \<Rightarrow> udata_api \<Rightarrow> (utreexo_leaf_error \<Rightarrow> 'e) \<Rightarrow> compact_leaf_data list \<Rightarrow> transaction list \<Rightarrow>
   (u32 \<Rightarrow> 'e + hash) \<Rightarrow> (u32 \<Rightarrow> 'e + u32) \<Rightarrow> 'e + hash list \<times> utxo_map" where
  "process_proof L A from_leaf leaves txs get_block_hash get_mtp =
     (let txids = map (compute_txid L) txs;
          same_block = map_of (rev (zip txids (map (length \<circ> tx_output) txs)))
      in bindE (foldE (\<lambda>(tx, txid).
             foldE (process_input L A from_leaf get_block_hash get_mtp same_block tx txid)
               (List.enumerate 0 (tx_input tx)))
           (drop 1 (zip txs txids)) (leaves, [], Map.empty)) (\<lambda>(_, del_hashes, utxos).
         Inr (del_hashes, utxos)))"

section \<open>Header codes\<close>

lemma leaf_header_code_split: "leaf_header_code (c AND 1 \<noteq> 0) (drop_bit (Suc 0) c) = c"
proof (cases "even c")
  case True
  then have "c AND 1 = 0" by (simp add: and_one_eq even_iff_mod_2_eq_zero)
  moreover have "c div 2 * 2 = c" using div_mult_mod_eq [of c 2] True by (simp add: even_iff_mod_2_eq_zero)
  ultimately show ?thesis by (simp add: leaf_header_code_def push_bit_eq_mult drop_bit_eq_div)
next
  case False
  then have "c AND 1 \<noteq> 0" by (simp add: and_one_eq odd_iff_mod_2_eq_one)
  moreover have "c div 2 * 2 + 1 = c" using div_mult_mod_eq [of c 2] False by (simp add: odd_iff_mod_2_eq_one)
  ultimately show ?thesis
    by (simp add: leaf_header_code_def push_bit_eq_mult drop_bit_eq_div or_one_eq)
qed

lemma leaf_header_code_height:
  assumes "unat h < 2 ^ 31"
  shows "drop_bit (Suc 0) (leaf_header_code is_cb h) = h"
    and "(leaf_header_code is_cb h AND 1 \<noteq> 0) = is_cb"
proof -
  have u: "unat (h * 2) = unat h * 2" using assms by (simp add: unat_word_ariths)
  then have "unat (h * 2 + 1) = unat h * 2 + 1" using assms by (simp add: unat_word_ariths)
  with u have "(h * 2) div 2 = h" "(h * 2 + 1) div 2 = h"
    by (simp_all add: word_unat_eq_iff unat_div)
  then show "drop_bit (Suc 0) (leaf_header_code is_cb h) = h"
    by (simp add: leaf_header_code_def push_bit_eq_mult drop_bit_eq_div or_one_eq)
  show "(leaf_header_code is_cb h AND 1 \<noteq> 0) = is_cb"
    by (simp add: leaf_header_code_def push_bit_eq_mult or_one_eq and_one_eq
        flip: even_iff_mod_2_eq_zero odd_iff_mod_2_eq_one)
qed
section \<open>What a processed proof binds\<close>

text \<open>A coin is bound by a leaf hash when the hash is the one that was added to the accumulator
  for that output, at its creation height, in the block the chain has at that height.\<close>

definition coin_bound ::
  "udata_api \<Rightarrow> (u32 \<Rightarrow> 'e + hash) \<Rightarrow> outpoint \<times> utxo_data \<Rightarrow> hash \<Rightarrow> bool" where
  "coin_bound A get_block_hash coin h \<longleftrightarrow>
     (case coin of (out, u) \<Rightarrow> creation_height u \<noteq> GENESIS_HEIGHT
       \<and> (\<exists>bhash. get_block_hash (creation_height u) = Inr bhash
          \<and> h = get_leaf_hashes A (op_txid out) (utxo_is_coinbase u) (op_vout out) (txout u)
                 (creation_height u) bhash))"

definition proof_inv ::
  "udata_api \<Rightarrow> (u32 \<Rightarrow> 'e + hash) \<Rightarrow> outpoint set \<Rightarrow> nat \<Rightarrow> proof_state \<Rightarrow> bool" where
  "proof_inv A get_block_hash outs n st \<longleftrightarrow>
     (case st of (leaves, dels, utxos) \<Rightarrow>
       \<exists>coins. list_all2 (coin_bound A get_block_hash) coins dels
         \<and> utxos = map_of (rev coins) \<and> fst ` set coins \<subseteq> outs
         \<and> length coins + length leaves = n)"

lemma process_input_inv:
  assumes "proof_inv A get_block_hash outs n st"
    and "process_input L A from_leaf get_block_hash get_mtp same_block tx txid (vin, input) st = Inr st'"
    and "\<not> same_block_output same_block (previous_output input) \<Longrightarrow> previous_output input \<in> outs"
  shows "proof_inv A get_block_hash outs n st'"
proof (cases "same_block_output same_block (previous_output input)")
  case True
  with assms(1,2) show ?thesis by (auto simp: process_input_def Let_def)
next
  case False
  obtain leaves dels utxos where st: "st = (leaves, dels, utxos)" by (cases st)
  show ?thesis
  proof (cases leaves)
    case Nil
    with assms(1,2) st False show ?thesis by (auto simp: process_input_def)
  next
    case (Cons leaf rest)
    let ?h = "drop_bit 1 (cl_header_code leaf)" and ?cb = "cl_header_code leaf AND 1 \<noteq> 0"
    from assms(2) obtain bhash spk time where
      nz: "?h \<noteq> GENESIS_HEIGHT" and bh: "get_block_hash ?h = Inr bhash"
      and st': "st' = (rest, dels @ [leaf_data_get_leaf_hashes A \<lparr>ld_block_hash = bhash,
            ld_prevout = previous_output input, ld_header_code = cl_header_code leaf,
            ld_utxo = \<lparr>value_sat = cl_amount leaf, script_pubkey = spk\<rparr>\<rparr>],
          utxos(previous_output input \<mapsto> \<lparr>txout = \<lparr>value_sat = cl_amount leaf, script_pubkey = spk\<rparr>,
            utxo_is_coinbase = ?cb, creation_height = ?h, creation_time = time\<rparr>))"
      by (auto simp: process_input_def st Cons False Let_def res_simps reconstruct_leaf_data_def)
    from assms(1) obtain coins where coins: "list_all2 (coin_bound A get_block_hash) coins dels"
      "utxos = map_of (rev coins)" "fst ` set coins \<subseteq> outs" "length coins + Suc (length rest) = n"
      by (auto simp: proof_inv_def st Cons)
    let ?coin = "(previous_output input, \<lparr>txout = \<lparr>value_sat = cl_amount leaf, script_pubkey = spk\<rparr>,
            utxo_is_coinbase = ?cb, creation_height = ?h, creation_time = time\<rparr>)"
    have "coin_bound A get_block_hash ?coin (leaf_data_get_leaf_hashes A \<lparr>ld_block_hash = bhash,
            ld_prevout = previous_output input, ld_header_code = cl_header_code leaf,
            ld_utxo = \<lparr>value_sat = cl_amount leaf, script_pubkey = spk\<rparr>\<rparr>)"
      using nz bh by (simp add: coin_bound_def get_leaf_hashes_def leaf_data_get_leaf_hashes_def
          leaf_header_code_split)
    with coins(1) have "list_all2 (coin_bound A get_block_hash) (coins @ [?coin])
        (dels @ [leaf_data_get_leaf_hashes A \<lparr>ld_block_hash = bhash,
            ld_prevout = previous_output input, ld_header_code = cl_header_code leaf,
            ld_utxo = \<lparr>value_sat = cl_amount leaf, script_pubkey = spk\<rparr>\<rparr>])"
      by (auto intro: list_all2_appendI)
    then show ?thesis
      unfolding proof_inv_def st' prod.case
      using coins(2-4) assms(3) [OF False] by (intro exI [of _ "coins @ [?coin]"]) simp
  qed
qed

lemma process_proof_inv:
  assumes "process_proof L A from_leaf leaves txs get_block_hash get_mtp = Inr (dels, utxos)"
    and "same_block = map_of (rev (zip (map (compute_txid L) txs) (map (length \<circ> tx_output) txs)))"
    and "outs = {out. (\<exists>tx \<in> set (tl txs). out \<in> previous_output ` set (tx_input tx))
           \<and> \<not> same_block_output same_block out}"
  shows "\<exists>rest. proof_inv A get_block_hash outs (length leaves) (rest, dels, utxos)"
proof -
  from assms(1,2) obtain rest where
    loop: "foldE (\<lambda>(tx, txid). foldE (process_input L A from_leaf get_block_hash get_mtp same_block tx txid)
           (List.enumerate 0 (tx_input tx))) (drop 1 (zip txs (map (compute_txid L) txs)))
         (leaves, [], Map.empty) = Inr (rest, dels, utxos)"
    by (auto simp: process_proof_def Let_def res_simps)
  from loop have "proof_inv A get_block_hash outs (length leaves) (rest, dels, utxos)"
  proof (rule foldE_invariant)
    show "proof_inv A get_block_hash outs (length leaves) (leaves, [], Map.empty)"
      by (simp add: proof_inv_def)
  next
    fix x t t'
    assume x: "x \<in> set (drop 1 (zip txs (map (compute_txid L) txs)))"
      and t: "proof_inv A get_block_hash outs (length leaves) t"
      and step: "(case x of (tx, txid) \<Rightarrow>
        foldE (process_input L A from_leaf get_block_hash get_mtp same_block tx txid)
          (List.enumerate 0 (tx_input tx))) t = Inr t'"
    obtain tx txid where tx: "x = (tx, txid)" by (cases x)
    have "drop 1 (zip txs (map (compute_txid L) txs)) = zip (tl txs) (map (compute_txid L) (tl txs))"
      by (cases txs) simp_all
    with x tx have "tx \<in> set (tl txs)" by (auto dest: set_zip_leftD)
    then have outs: "previous_output i \<in> outs"
      if "i \<in> set (tx_input tx)" "\<not> same_block_output same_block (previous_output i)" for i
      using that assms(3) by blast
    from step tx have "foldE (process_input L A from_leaf get_block_hash get_mtp same_block tx txid)
        (List.enumerate 0 (tx_input tx)) t = Inr t'" by simp
    then show "proof_inv A get_block_hash outs (length leaves) t'"
    proof (rule foldE_invariant)
      show "proof_inv A get_block_hash outs (length leaves) t" by (rule t)
      fix vi u u'
      assume vi: "vi \<in> set (List.enumerate 0 (tx_input tx))"
        and u: "proof_inv A get_block_hash outs (length leaves) u"
        and pi: "process_input L A from_leaf get_block_hash get_mtp same_block tx txid vi u = Inr u'"
      obtain vin input where vi': "vi = (vin, input)" by (cases vi)
      with vi have "input \<in> set (tx_input tx)" by (auto simp: in_set_enumerate_eq)
      with process_input_inv [OF u pi [unfolded vi']] outs
      show "proof_inv A get_block_hash outs (length leaves) u'" by blast
    qed
  qed
  then show ?thesis by blast
qed

section \<open>Leaves from hints\<close>

text \<open>How the addition built from a hint relates to the addition of the full computation.\<close>

definition hint_of :: "node_hash \<Rightarrow> node_hash \<Rightarrow> bool" where
  "hint_of full hinted \<longleftrightarrow> hinted = full \<or> hinted = NodeEmpty"

lemma hint_output_step:
  "\<exists>j ys. hint_output L A b spent idx height bhash tx (compute_txid L tx) vo (i, adds) = (j, adds @ ys)
      \<and> list_all2 hint_of (output_adds L A spent height bhash tx vo) ys
      \<and> (idx = UNIV \<longrightarrow> ys = output_adds L A spent height bhash tx vo)"
  by (cases vo) (auto simp: hint_output_def output_adds_def Let_def hint_of_def)

lemma hint_outputs_fold:
  assumes "\<And>vo i adds. \<exists>j ys. g vo (i, adds) = (j, adds @ ys)
      \<and> list_all2 hint_of (f vo) ys \<and> (idx = UNIV \<longrightarrow> ys = f vo)"
  shows "\<exists>j ys. fold g vos (i, adds) = (j, adds @ ys)
      \<and> list_all2 hint_of (concat (map f vos)) ys \<and> (idx = UNIV \<longrightarrow> ys = concat (map f vos))"
proof (induction vos arbitrary: i adds)
  case Nil
  then show ?case by simp
next
  case (Cons vo vos)
  obtain j ys where step: "g vo (i, adds) = (j, adds @ ys)" "list_all2 hint_of (f vo) ys"
      "idx = UNIV \<longrightarrow> ys = f vo"
    using assms by blast
  obtain k zs where rest: "fold g vos (j, adds @ ys) = (k, (adds @ ys) @ zs)"
      "list_all2 hint_of (concat (map f vos)) zs" "idx = UNIV \<longrightarrow> zs = concat (map f vos)"
    using Cons.IH by blast
  show ?case
    using step rest by (intro exI [of _ k] exI [of _ "ys @ zs"]) (simp add: list_all2_appendI)
qed

lemma hint_tx_fold:
  "\<exists>j ys. fold (hint_output L A b spent idx height bhash tx (compute_txid L tx)) vos (i, adds) = (j, adds @ ys)
      \<and> list_all2 hint_of (concat (map (output_adds L A spent height bhash tx) vos)) ys
      \<and> (idx = UNIV \<longrightarrow> ys = concat (map (output_adds L A spent height bhash tx) vos))"
  by (rule hint_outputs_fold) (rule hint_output_step)

section \<open>Properties\<close>

text \<open>C4. Every coin that block validation takes from an accepted proof is bound by one of the
  deleted leaf hashes, in order: the hash is exactly the one that was added to the accumulator
  when an output with that outpoint, amount, script, height and coinbase flag was created in the
  block the chain has at that height. The coins are inputs of the block that it does not create.\<close>

theorem process_proof_binds:
  assumes "process_proof L A from_leaf leaves txs get_block_hash get_mtp = Inr (dels, utxos)"
  shows "\<exists>coins. list_all2 (coin_bound A get_block_hash) coins dels
      \<and> utxos = map_of (rev coins) \<and> length coins \<le> length leaves
      \<and> (\<forall>out u. utxos out = Some u \<longrightarrow>
           (\<exists>tx \<in> set (tl txs). out \<in> previous_output ` set (tx_input tx)))"
proof -
  let ?outs = "{out. (\<exists>tx \<in> set (tl txs). out \<in> previous_output ` set (tx_input tx))
     \<and> \<not> same_block_output (map_of (rev (zip (map (compute_txid L) txs) (map (length \<circ> tx_output) txs)))) out}"
  from process_proof_inv [OF assms refl refl] obtain coins where
    coins: "list_all2 (coin_bound A get_block_hash) coins dels" "utxos = map_of (rev coins)"
    "fst ` set coins \<subseteq> ?outs" "length coins \<le> length leaves"
    unfolding proof_inv_def prod.case by force
  have "out \<in> ?outs" if "utxos out = Some u" for out u
  proof -
    have "(out, u) \<in> set coins" using that coins(2) by (auto dest: map_of_SomeD)
    then show ?thesis using coins(3) by force
  qed
  with coins show ?thesis by blast
qed


text \<open>The spending input carries the data its output's script is the hash of.\<close>

definition reveals :: "bitcoin_api \<Rightarrow> udata_api \<Rightarrow> script \<Rightarrow> txin \<Rightarrow> bool" where
  "reveals L A s input \<longleftrightarrow>
     (case get_script_type L A s of
        Other _ \<Rightarrow> True
      | PubKeyHash \<Rightarrow> (\<exists>key. last_opt (instructions L (script_sig input)) = Some (Inr (PushBytes key))
          \<and> s = new_p2pkh A (pubkey_hash A key))
      | ScriptHash \<Rightarrow> (\<exists>redeem. last_opt (instructions L (script_sig input)) = Some (Inr (PushBytes redeem))
          \<and> s = new_p2sh A (script_hash A redeem))
      | WitnessV0PubKeyHash \<Rightarrow> (\<exists>key. last_opt (witness input) = Some key
          \<and> s = new_p2wpkh A (wpubkey_hash A key))
      | WitnessV0ScriptHash \<Rightarrow> (\<exists>ws. last_opt (witness input) = Some ws
          \<and> s = new_p2wsh A (wscript_hash A ws)))"

text \<open>C13. A leaf survives its compact form: from the header code, the amount and the script type
  of an output, and the input that spends it, the receiver rebuilds a leaf whose hash is the one
  the output was added with, and reads back the creation height and the coinbase flag.\<close>

theorem compact_leaf_roundtrip:
  assumes "reveals L A (script_pubkey out) input" and "unat height < 2 ^ 31"
    and "leaf = \<lparr>cl_header_code = leaf_header_code is_cb height, cl_amount = value_sat out,
           spk_ty = get_script_type L A (script_pubkey out)\<rparr>"
  shows "\<exists>ld. reconstruct_leaf_data L A leaf input bhash = Inr ld
      \<and> leaf_data_get_leaf_hashes A ld = get_leaf_hashes A (op_txid (previous_output input)) is_cb
           (op_vout (previous_output input)) out height bhash
      \<and> drop_bit 1 (cl_header_code leaf) = height
      \<and> (cl_header_code leaf AND 1 \<noteq> 0) = is_cb"
proof -
  have "get_script_type L A s = Other s' \<Longrightarrow> s' = s" for s s'
    by (auto simp: get_script_type_def split: if_splits)
  then have "reconstruct_script_pubkey L A leaf input = Inr (script_pubkey out)"
    using assms(1) by (auto simp: reveals_def reconstruct_script_pubkey_def assms(3) get_pk_hash_def
        get_script_hash_def get_witness_pk_hash_def get_witness_script_hash_def
        split: script_pubkey_kind.splits)
  then show ?thesis
    using leaf_header_code_height [OF assms(2)]
    by (cases out)
      (simp add: reconstruct_leaf_data_def leaf_data_get_leaf_hashes_def get_leaf_hashes_def assms(3))
qed

text \<open>The wire format of rust-bitcoin for a byte and for a boxed byte string of at most
  \<^verbatim>\<open>MAX_VEC_SIZE\<close> bytes.\<close>

definition spk_wire_laws :: "udata_api \<Rightarrow> bool" where
  "spk_wire_laws A \<longleftrightarrow>
     (\<forall>b r. decode_u8 A (encode_u8 A b @ r) = Inr (b, r)) \<and> (\<forall>b. length (encode_u8 A b) = 1)
   \<and> (\<forall>s r. length s \<le> 4000000 \<longrightarrow> decode_boxed A (encode_boxed A s @ r) = Inr (s, r))"

text \<open>The script type of a compact leaf is decoded from its encoding, with what follows left
  unread, and the reported length is the number of bytes written.\<close>

theorem spk_kind_roundtrip:
  assumes "spk_wire_laws A" and "\<And>s. k = Other s \<Longrightarrow> length s \<le> 4000000"
  shows "spk_kind_decode A (fst (spk_kind_encode A k) @ r) = Inr (k, r)
    \<and> snd (spk_kind_encode A k) = length (fst (spk_kind_encode A k))"
  using assms by (cases k) (simp_all add: spk_wire_laws_def spk_kind_decode_def)

section \<open>Examples\<close>

definition demo_udata :: udata_api where
  "demo_udata = \<lparr>
     encode_txout = (\<lambda>out. u64_to_le_bytes (value_sat out) @ script_pubkey out),
     sha512_256 = (\<lambda>bs. [of_nat (length bs)]),
     encode_u8 = (\<lambda>b. [b]),
     encode_boxed = (\<lambda>s. u32_to_le_bytes (of_nat (length s)) @ s),
     decode_u8 = (\<lambda>bs. case bs of [] \<Rightarrow> Inl ''eof'' | b # r \<Rightarrow> Inr (b, r)),
     decode_u32 = (\<lambda>bs. if length bs < 4 then Inl ''eof'' else Inr (u32_from_le_bytes (take 4 bs), drop 4 bs)),
     decode_boxed = (\<lambda>bs. if length bs < 4 then Inl ''eof''
       else let n = unat (u32_from_le_bytes (take 4 bs)); bs = drop 4 bs
            in if length bs < n then Inl ''eof'' else Inr (take n bs, drop n bs)),
     decode_block_hash = (\<lambda>bs. Inr (take 32 bs, drop 32 bs)),
     decode_outpoint = (\<lambda>bs. Inr (\<lparr>op_txid = take 32 bs, op_vout = u32_from_le_bytes (take 4 (drop 32 bs))\<rparr>,
       drop 36 bs)),
     decode_txout = (\<lambda>bs. Inr (\<lparr>value_sat = u64_from_le_bytes (take 8 bs), script_pubkey = drop 8 bs\<rparr>, [])),
     is_p2pkh = (\<lambda>s. length s = 25),
     pubkey_hash = (\<lambda>b. replicate 20 1), script_hash = (\<lambda>b. replicate 20 2),
     wpubkey_hash = (\<lambda>b. replicate 20 3), wscript_hash = (\<lambda>b. replicate 32 4),
     new_p2pkh = (\<lambda>h. [1, 2, 3] @ h @ [4, 5]), new_p2wpkh = (\<lambda>h. [0, 20] @ h),
     new_p2sh = (\<lambda>h. [1, 2] @ h @ [3]), new_p2wsh = (\<lambda>h. [0, 32] @ h)\<rparr>"

lemma demo_spk_wire_laws: "spk_wire_laws demo_udata"
  by (simp add: spk_wire_laws_def demo_udata_def Let_def unat_of_nat)

definition demo_input :: txin where
  "demo_input = \<lparr>previous_output = \<lparr>op_txid = [7], op_vout = 1\<rparr>, script_sig = [], sequence = 0,
     witness = [[1, 2], [3]]\<rparr>"

definition demo_leaf :: compact_leaf_data where
  "demo_leaf = \<lparr>cl_header_code = 41, cl_amount = 600, spk_ty = WitnessV0PubKeyHash\<rparr>"

definition demo_spend :: transaction where
  "demo_spend = \<lparr>tx_version = 2, lock_time = Blocks 0, tx_input = [demo_input], tx_output = []\<rparr>"

theorem spk_kind_roundtrip_witness:
  "spk_kind_decode demo_udata (fst (spk_kind_encode demo_udata (Other [1, 2, 3])) @ [9]) = Inr (Other [1, 2, 3], [9])
   \<and> snd (spk_kind_encode demo_udata (Other [1, 2, 3])) = length (fst (spk_kind_encode demo_udata (Other [1, 2, 3])))"
  by (rule spk_kind_roundtrip [OF demo_spk_wire_laws]) simp

theorem compact_leaf_roundtrip_witness:
  "\<exists>ld. reconstruct_leaf_data demo_api demo_udata
        \<lparr>cl_header_code = leaf_header_code True 20, cl_amount = 600,
         spk_ty = get_script_type demo_api demo_udata ([0, 20] @ replicate 20 3)\<rparr> demo_input [8] = Inr ld
      \<and> leaf_data_get_leaf_hashes demo_udata ld = get_leaf_hashes demo_udata [7] True 1
           \<lparr>value_sat = 600, script_pubkey = [0, 20] @ replicate 20 3\<rparr> 20 [8]
      \<and> drop_bit 1 (leaf_header_code True 20) = 20 \<and> (leaf_header_code True 20 AND 1 \<noteq> 0) = True"
  using compact_leaf_roundtrip [of demo_api demo_udata
      "\<lparr>value_sat = 600, script_pubkey = [0, 20] @ replicate 20 3\<rparr>" demo_input 20 _ True "[8]"]
  by (simp add: reveals_def get_script_type_def demo_api_def demo_udata_def last_opt_def demo_input_def)

definition demo_proof_api :: bitcoin_api where
  "demo_proof_api = demo_api\<lparr>compute_txid := (\<lambda>tx. [of_nat (length (tx_input tx))])\<rparr>"

definition demo_proof :: "blockchain_error + hash list \<times> utxo_map" where
  "demo_proof = process_proof demo_proof_api demo_udata UtreexoLeaf [demo_leaf] [demo_spend, demo_spend]
     (\<lambda>h. Inr [8]) (\<lambda>h. Inr 0)"

lemma demo_proof_ok: "\<exists>dels utxos. demo_proof = Inr (dels, utxos) \<and> utxos (previous_output demo_input) \<noteq> None"
  by (simp add: demo_proof_def process_proof_def process_input_def same_block_output_def
      demo_proof_api_def demo_api_def demo_spend_def demo_input_def demo_leaf_def GENESIS_HEIGHT_def
      reconstruct_leaf_data_def reconstruct_script_pubkey_def get_witness_pk_hash_def last_opt_def
      is_bip68_enabled_def Let_def drop_bit_eq_div)

theorem process_proof_binds_witness:
  "\<exists>dels utxos. demo_proof = Inr (dels, utxos) \<and> utxos (previous_output demo_input) \<noteq> None
     \<and> (\<exists>coins. list_all2 (coin_bound demo_udata (\<lambda>h. Inr [8] :: blockchain_error + hash)) coins dels
          \<and> utxos = map_of (rev coins))"
proof -
  from demo_proof_ok obtain dels utxos
    where ok: "demo_proof = Inr (dels, utxos)" "utxos (previous_output demo_input) \<noteq> None"
    by blast
  from process_proof_binds [OF ok(1) [unfolded demo_proof_def]] ok show ?thesis by blast
qed


end
