(* ===== verification/Swift_Sync.thy ===== *)
theory Swift_Sync
  imports Udata
begin

text \<open>
  The block-level functions of \<^verbatim>\<open>consensus.rs\<close> that need the Utreexo leaves: the accumulator
  update of a block and the AssumeValid SwiftSync processing of a block. The accumulator
  (rustreexo's \<^verbatim>\<open>Stump\<close>) is a parameter: its type and its \<^verbatim>\<open>modify\<close> operation.

  The aggregator delta of a block is shown to be the sum over an explicit list of outpoints: all
  inputs removed and all outputs that the hints call spent added. Over a whole chain the sum of
  the deltas is zero when the two multisets agree, in whatever order the blocks were processed.
\<close>

section \<open>Definitions\<close>

definition UNSPENDABLE_BIP30_UTXO_91722 :: bytes where
  "UNSPENDABLE_BIP30_UTXO_91722 = [
    0x84, 0xb3, 0xaf, 0x07, 0x83, 0xb4, 0x10, 0xb4, 0x56, 0x4c, 0x5d, 0x1f, 0x36, 0x18, 0x68, 0x55,
    0x9f, 0x7c, 0xf7, 0x7c, 0xfc, 0x65, 0xce, 0x2b, 0xe9, 0x51, 0x21, 0x03, 0x57, 0x02, 0x2f, 0xe3]"

definition UNSPENDABLE_BIP30_UTXO_91812 :: bytes where
  "UNSPENDABLE_BIP30_UTXO_91812 = [
    0xbc, 0x6b, 0x4b, 0xf7, 0xce, 0xbb, 0xd3, 0x3a, 0x18, 0xd6, 0xb0, 0xfe, 0x1f, 0x8e, 0xcc, 0x7a,
    0xa5, 0x40, 0x30, 0x83, 0xc3, 0x9e, 0xe3, 0x43, 0xb9, 0x85, 0xd5, 0x1f, 0xd0, 0x29, 0x5a, 0xd8]"

definition contains_unspendable_utxo :: "hash list \<Rightarrow> bool" where
  "contains_unspendable_utxo del_hashes =
     list_ex (\<lambda>h. h = UNSPENDABLE_BIP30_UTXO_91722 \<or> h = UNSPENDABLE_BIP30_UTXO_91812) del_hashes"

type_synonym ('acc, 'prf) stump_modify =
  "'acc \<Rightarrow> node_hash list \<Rightarrow> node_hash list \<Rightarrow> 'prf \<Rightarrow> string + 'acc"

definition update_acc ::
  "bitcoin_api \<Rightarrow> udata_api \<Rightarrow> ('acc, 'prf) stump_modify \<Rightarrow> 'acc \<Rightarrow> block \<Rightarrow> u32 \<Rightarrow> 'prf \<Rightarrow> hash list
   \<Rightarrow> blockchain_error + 'acc" where
  "update_acc L A modify acc b height prf del_hashes =
     (let bhash = block_hash L (blk_header b) in
     bindE (reject_if (contains_unspendable_utxo del_hashes) (BlockValidation UnspendableUTXO)) (\<lambda>_.
     let del_hashes = map NodeSome del_hashes;
         adds = get_block_adds L A b height bhash
     in map_err AccumulatorError (modify acc adds del_hashes prf)))"

record swift_sync_delta =
  aggregator_delta :: swift_sync_agg
  unspent_amount :: amount
  utreexo_adds :: "node_hash list"

definition process_block_swiftsync ::
  "bitcoin_api \<Rightarrow> 'e sip_api \<Rightarrow> udata_api \<Rightarrow> chain_params \<Rightarrow> block \<Rightarrow> u32 \<Rightarrow> u32 set \<Rightarrow> sip_hash_keys
   \<Rightarrow> blockchain_error + swift_sync_delta" where
  "process_block_swiftsync L S A cp b height unspent_indexes salt =
     bindE (check_block L cp b height) (\<lambda>txids.
     bindE (get_block_adds_from_hints L A b txids height (block_hash L (blk_header b)) unspent_indexes)
       (\<lambda>adds.
     bindE (verify_block_transactions_swiftsync L S height b txids unspent_indexes salt)
       (\<lambda>(agg, amount).
     Inr \<lparr>aggregator_delta = agg, unspent_amount = amount, utreexo_adds = adds\<rparr>)))"

section \<open>The outpoints of a block\<close>

text \<open>The elements at the positions, counted from \<open>i\<close>, that are not in the set of hints.\<close>

fun hinted_spent :: "u32 set \<Rightarrow> u32 \<Rightarrow> 'a list \<Rightarrow> 'a list" where
  "hinted_spent idx i [] = []"
| "hinted_spent idx i (x # xs) = (if i \<in> idx then [] else [x]) @ hinted_spent idx (i + 1) xs"

definition spendable_vouts :: "bitcoin_api \<Rightarrow> (nat \<times> txout) list \<Rightarrow> u32 list" where
  "spendable_vouts L vos = map (\<lambda>(v, _). of_nat v) (filter (\<lambda>(_, out). \<not> is_unspendable L (script_pubkey out)) vos)"

definition counted_outputs ::
  "bitcoin_api \<Rightarrow> block \<Rightarrow> u32 \<Rightarrow> nat \<times> transaction \<times> hash \<Rightarrow> outpoint list" where
  "counted_outputs L b height ntx =
     (case ntx of (n, tx, txid) \<Rightarrow>
       if n = 0 \<and> is_bip30_unspendable L b height then []
       else map (\<lambda>v. \<lparr>op_txid = txid, op_vout = v\<rparr>)
              (spendable_vouts L (List.enumerate 0 (tx_output tx))))"

definition removed_inputs :: "nat \<times> transaction \<times> hash \<Rightarrow> outpoint list" where
  "removed_inputs ntx =
     (case ntx of (n, tx, txid) \<Rightarrow> if n = 0 then [] else map previous_output (tx_input tx))"

definition indexed_txs :: "block \<Rightarrow> hash list \<Rightarrow> (nat \<times> transaction \<times> hash) list" where
  "indexed_txs b txids = List.enumerate 0 (zip (txdata b) txids)"

text \<open>What a block spends, and which of its outputs the hints call spent.\<close>

definition block_spends :: "block \<Rightarrow> hash list \<Rightarrow> outpoint list" where
  "block_spends b txids = concat (map removed_inputs (indexed_txs b txids))"

definition block_hinted_spent ::
  "bitcoin_api \<Rightarrow> block \<Rightarrow> u32 \<Rightarrow> hash list \<Rightarrow> u32 set \<Rightarrow> outpoint list" where
  "block_hinted_spent L b height txids idx =
     hinted_spent idx 0 (concat (map (counted_outputs L b height) (indexed_txs b txids)))"

lemma hinted_spent_append:
  "hinted_spent idx i (xs @ ys) = hinted_spent idx i xs @ hinted_spent idx (i + of_nat (length xs)) ys"
  by (induction xs arbitrary: i) (simp_all add: algebra_simps)

lemma hinted_spent_map: "hinted_spent idx i (map f xs) = map f (hinted_spent idx i xs)"
  by (induction xs arbitrary: i) simp_all

lemma spendable_vouts_Cons: "spendable_vouts L (vo # vos) = spendable_vouts L [vo] @ spendable_vouts L vos"
  by (simp add: spendable_vouts_def)

lemma swiftsync_output_step:
  "swiftsync_output L idx vo (i, amt, sv) = (i1, amt1, sv1) \<Longrightarrow>
   i1 = i + of_nat (length (spendable_vouts L [vo])) \<and> sv1 = sv @ hinted_spent idx i (spendable_vouts L [vo])"
  by (cases vo) (auto simp: swiftsync_output_def Let_def spendable_vouts_def split: if_splits)

lemma swiftsync_outputs_fold:
  "\<exists>amt'. fold (swiftsync_output L idx) vos (i, amt, sv)
     = (i + of_nat (length (spendable_vouts L vos)), amt', sv @ hinted_spent idx i (spendable_vouts L vos))"
proof (induction vos arbitrary: i amt sv)
  case Nil
  then show ?case by (simp add: spendable_vouts_def)
next
  case (Cons vo vos)
  obtain i1 amt1 sv1 where st: "swiftsync_output L idx vo (i, amt, sv) = (i1, amt1, sv1)"
    by (metis prod_cases3)
  from Cons.IH obtain amt' where "fold (swiftsync_output L idx) vos (i1, amt1, sv1)
     = (i1 + of_nat (length (spendable_vouts L vos)), amt', sv1 @ hinted_spent idx i1 (spendable_vouts L vos))"
    by blast
  with st swiftsync_output_step [OF st] show ?case
    unfolding spendable_vouts_Cons [of L vo vos] by (simp add: hinted_spent_append)
qed

section \<open>The aggregator of a block\<close>

lemma agg_run_append: "agg_run S salt a (xs @ ys) = agg_run S salt (agg_run S salt a xs) ys"
  by (simp add: agg_run_def)

lemma agg_run_mset: "mset xs = mset ys \<Longrightarrow> agg_run S salt a xs = agg_run S salt a ys"
  unfolding agg_run_def by (rule swift.foldl_step_mset)

lemma agg_run_removes: "foldl (agg_remove S salt) a ps = agg_run S salt a (map RemoveOp ps)"
  by (simp add: agg_run_def foldl_map)

lemma agg_run_adds:
  assumes "sip_streaming S"
  shows "add_outputs_to_agg S salt a txid vouts
    = agg_run S salt a (map AddOp (map (\<lambda>v. \<lparr>op_txid = txid, op_vout = v\<rparr>) vouts))"
  by (simp add: add_outputs_to_agg_eq [OF assms] agg_run_def foldl_map)

lemma swiftsync_step_eq:
  assumes "sip_streaming S"
    and "swiftsync_step L S height b idx salt ntx (i, amt, agg) = Inr (i', amt', agg')"
  shows "i' = i + of_nat (length (counted_outputs L b height ntx))"
    and "agg' = agg_run S salt agg (map RemoveOp (removed_inputs ntx)
           @ map AddOp (hinted_spent idx i (counted_outputs L b height ntx)))"
proof -
  obtain n tx txid where ntx: "ntx = (n, tx, txid)" by (metis prod_cases3)
  obtain amt1 where outs: "fold (swiftsync_output L idx) (List.enumerate 0 (tx_output tx)) (i, amt, [])
     = (i + of_nat (length (spendable_vouts L (List.enumerate 0 (tx_output tx)))), amt1,
        hinted_spent idx i (spendable_vouts L (List.enumerate 0 (tx_output tx))))"
    using swiftsync_outputs_fold [of L idx _ i amt "[]"] by auto
  show "i' = i + of_nat (length (counted_outputs L b height ntx))"
    using assms(2) by (auto simp: swiftsync_step_def ntx Let_def outs counted_outputs_def res_simps
        split: if_splits)
  show "agg' = agg_run S salt agg (map RemoveOp (removed_inputs ntx)
           @ map AddOp (hinted_spent idx i (counted_outputs L b height ntx)))"
    using assms(2)
    by (auto simp: swiftsync_step_def ntx Let_def outs counted_outputs_def removed_inputs_def res_simps
        hinted_spent_map agg_run_append agg_run_adds [OF assms(1)] agg_run_removes
        split: if_splits) (auto simp: agg_run_def)
qed

lemma swiftsync_loop_eq:
  assumes "sip_streaming S"
  shows "foldE (swiftsync_step L S height b idx salt) l (i, amt, agg) = Inr (i', amt', agg') \<Longrightarrow>
    agg' = agg_run S salt agg (map RemoveOp (concat (map removed_inputs l))
             @ map AddOp (hinted_spent idx i (concat (map (counted_outputs L b height) l))))"
proof (induction l arbitrary: i amt agg)
  case Nil
  then show ?case by (simp add: agg_run_def)
next
  case (Cons x l)
  from Cons.prems obtain i1 amt1 agg1 where
    step: "swiftsync_step L S height b idx salt x (i, amt, agg) = Inr (i1, amt1, agg1)"
    and rest: "foldE (swiftsync_step L S height b idx salt) l (i1, amt1, agg1) = Inr (i', amt', agg')"
    by (auto simp: res_simps)
  note st = swiftsync_step_eq [OF assms step]
  have "agg' = agg_run S salt agg
      ((map RemoveOp (removed_inputs x) @ map AddOp (hinted_spent idx i (counted_outputs L b height x)))
       @ map RemoveOp (concat (map removed_inputs l))
       @ map AddOp (hinted_spent idx i1 (concat (map (counted_outputs L b height) l))))"
    unfolding agg_run_append [of S salt agg "map RemoveOp (removed_inputs x) @ _"]
    using Cons.IH [OF rest] st(2) by simp
  also have "\<dots> = agg_run S salt agg (map RemoveOp (concat (map removed_inputs (x # l)))
       @ map AddOp (hinted_spent idx i (concat (map (counted_outputs L b height) (x # l)))))"
    by (rule agg_run_mset) (simp add: hinted_spent_append st(1))
  finally show ?case .
qed

definition block_txids :: "bitcoin_api \<Rightarrow> block \<Rightarrow> hash list" where
  "block_txids L b = map (compute_txid L) (txdata b)"

lemma check_block_txids: "check_block L cp b height = Inr txids \<Longrightarrow> txids = block_txids L b"
  by (auto simp: check_block_def check_block_structure_def check_merkle_root_def block_txids_def Let_def
      res_simps split: option.splits if_splits prod.splits)

lemma process_block_delta:
  assumes "sip_streaming S" and "process_block_swiftsync L S A cp b height idx salt = Inr d"
  shows "aggregator_delta d = agg_run S salt agg_zero (map RemoveOp (block_spends b (block_txids L b))
      @ map AddOp (block_hinted_spent L b height (block_txids L b) idx))"
proof -
  from assms(2) obtain txids where "check_block L cp b height = Inr txids"
    and v: "verify_block_transactions_swiftsync L S height b txids idx salt = Inr (aggregator_delta d, unspent_amount d)"
    by (auto simp: process_block_swiftsync_def res_simps)
  then have "txids = block_txids L b" by (simp add: check_block_txids)
  with v swiftsync_loop_eq [OF assms(1)] show ?thesis
    by (auto simp: verify_block_transactions_swiftsync_def res_simps block_spends_def
        block_hinted_spent_def indexed_txs_def Let_def)
qed

lemma agg_plus_run: "agg_plus a (agg_run S salt agg_zero ops) = agg_run S salt a ops"
proof (induction ops rule: rev_induct)
  case Nil
  then show ?case by (cases a) (simp add: agg_run_def agg_zero_def)
next
  case (snoc x ops)
  have "agg_plus a (agg_wrapping_add c p) = agg_wrapping_add (agg_plus a c) p"
    and "agg_plus a (agg_wrapping_sub c p) = agg_wrapping_sub (agg_plus a c) p" for c p
    by (cases a; cases c; cases p; simp add: algebra_simps)+
  with snoc.IH show ?case
    by (cases x) (simp_all add: agg_run_append, simp_all add: agg_run_def agg_add_def agg_remove_def)
qed

text \<open>A chain of blocks with their heights and hints.\<close>

fun chain_spends :: "bitcoin_api \<Rightarrow> (block \<times> u32 \<times> u32 set) list \<Rightarrow> outpoint list" where
  "chain_spends L [] = []"
| "chain_spends L ((b, height, idx) # blocks) = block_spends b (block_txids L b) @ chain_spends L blocks"

fun chain_hinted_spent :: "bitcoin_api \<Rightarrow> (block \<times> u32 \<times> u32 set) list \<Rightarrow> outpoint list" where
  "chain_hinted_spent L [] = []"
| "chain_hinted_spent L ((b, height, idx) # blocks) =
     block_hinted_spent L b height (block_txids L b) idx @ chain_hinted_spent L blocks"

lemma chain_sum:
  assumes "sip_streaming S"
    and "list_all2 (\<lambda>(b, height, idx) d. process_block_swiftsync L S A cp b height idx salt = Inr d) blocks deltas"
  shows "foldl agg_plus a (map aggregator_delta deltas)
    = agg_run S salt a (map RemoveOp (chain_spends L blocks) @ map AddOp (chain_hinted_spent L blocks))"
  using assms(2)
proof (induction blocks deltas arbitrary: a rule: list_all2_induct)
  case Nil
  then show ?case by (simp add: agg_run_def)
next
  case (Cons x blocks d deltas)
  obtain b height idx where x: "x = (b, height, idx)" by (cases x)
  let ?ops = "map RemoveOp (block_spends b (block_txids L b))
      @ map AddOp (block_hinted_spent L b height (block_txids L b) idx)"
  have "aggregator_delta d = agg_run S salt agg_zero ?ops"
    using process_block_delta [OF assms(1)] Cons.hyps(1) by (simp add: x)
  then have "foldl agg_plus a (map aggregator_delta (d # deltas))
      = agg_run S salt a (?ops @ map RemoveOp (chain_spends L blocks) @ map AddOp (chain_hinted_spent L blocks))"
    unfolding agg_run_append [of S salt a ?ops] by (simp add: agg_plus_run Cons.IH)
  also have "\<dots> = agg_run S salt a (map RemoveOp (chain_spends L (x # blocks))
      @ map AddOp (chain_hinted_spent L (x # blocks)))"
    by (rule agg_run_mset) (simp add: x)
  finally show ?case .
qed

section \<open>Properties\<close>

text \<open>C7. The SwiftSync sum of a chain vanishes: if every block was processed and, over all of
  them, the outpoints that are spent are (as a multiset) the outputs the hints call spent, then
  the deltas of the blocks add up to zero, for every salt and every order of the blocks.\<close>

theorem swiftsync_sum_vanishes:
  assumes "sip_streaming S"
    and "list_all2 (\<lambda>(b, height, idx) d. process_block_swiftsync L S A cp b height idx salt = Inr d) blocks deltas"
    and "mset (chain_spends L blocks) = mset (chain_hinted_spent L blocks)"
  shows "agg_is_zero (foldl agg_plus agg_zero (map aggregator_delta deltas))"
proof -
  have "mset (map RemoveOp (chain_spends L blocks) @ map AddOp (chain_hinted_spent L blocks))
      = image_mset AddOp (mset (chain_spends L blocks)) + image_mset RemoveOp (mset (chain_spends L blocks))"
    using assms(3) by simp
  then have "agg_run S salt agg_zero (map RemoveOp (chain_spends L blocks) @ map AddOp (chain_hinted_spent L blocks))
      = agg_zero"
    unfolding agg_run_def by (rule swift.balanced_cancels)
  then show ?thesis by (simp add: chain_sum [OF assms(1,2)] agg_zero_def)
qed

text \<open>A block whose second transaction spends the only output of its coinbase.\<close>

definition swift_api :: bitcoin_api where
  "swift_api = demo_api\<lparr>compute_txid := (\<lambda>tx. map (\<lambda>out. ucast (value_sat out)) (tx_output tx)),
     block_hash := (\<lambda>h. [6]), sha256d := (\<lambda>_. [5])\<rparr>"

definition swift_tx :: "outpoint \<Rightarrow> script \<Rightarrow> amount \<Rightarrow> transaction" where
  "swift_tx out sig v = \<lparr>tx_version = 2, lock_time = Blocks 0,
     tx_input = [\<lparr>previous_output = out, script_sig = sig, sequence = 0, witness = []\<rparr>],
     tx_output = [\<lparr>value_sat = v, script_pubkey = [1]\<rparr>]\<rparr>"

definition swift_block :: block where
  "swift_block = \<lparr>blk_header = (demo_header [1] 9)\<lparr>merkle_root := [5]\<rparr>,
     txdata = [swift_tx \<lparr>op_txid = all_zeros, op_vout = 0xFFFFFFFF\<rparr> [1, 2] 50,
               swift_tx \<lparr>op_txid = [50], op_vout = 0\<rparr> [] 40]\<rparr>"

definition swift_params :: chain_params where
  "swift_params = \<lparr>cp_params = \<lparr>bip34_height = 5, bip65_height = 7, bip66_height = 6,
       allow_min_difficulty_blocks = False, no_pow_retargeting = False, pow_target_spacing = 600,
       max_attainable_target = - 1, miner_confirmation_window = 2016\<rparr>,
     genesis = swift_block, subsidy_interval = HalvingRegtest, pow_target_timespan = 1,
     coinbase_maturity = 100, segwit_activation_height = 0, csv_activation_height = 0,
     exceptions = Map.empty, cp_network = Regtest, enforce_bip94 = False\<rparr>"

lemmas swift_defs = swift_api_def demo_api_def swift_tx_def swift_block_def swift_params_def demo_header_def

lemma swift_check_block: "check_block swift_api swift_params swift_block 2 = Inr [[50], [40]]"
  by (simp add: check_block_def check_block_structure_def check_merkle_root_def calculate_root_def
      root_loop.simps legacy_sigop_cost_def check_bip34_def Let_def swift_defs)

lemma swift_block_ok:
  "\<exists>d. process_block_swiftsync swift_api demo_sip demo_udata swift_params swift_block 2 {1} demo_salt = Inr d"
  by (simp add: process_block_swiftsync_def swift_check_block)
    (simp add: get_block_adds_from_hints_def verify_block_transactions_swiftsync_def swiftsync_step_def verify_coinbase_def
      total_out_value_def checked_add_def is_bip30_unspendable_def check_transaction_context_free_def
      has_duplicate_inputs_def validate_script_size_def is_unspendable_def MAX_SCRIPT_SIZE_def
      all_zeros_def Let_def swift_defs split: prod.split)

theorem swiftsync_sum_vanishes_witness:
  "\<exists>d. process_block_swiftsync swift_api demo_sip demo_udata swift_params swift_block 2 {1} demo_salt = Inr d
     \<and> agg_is_zero (foldl agg_plus agg_zero (map aggregator_delta [d]))"
proof -
  obtain d where d: "process_block_swiftsync swift_api demo_sip demo_udata swift_params swift_block 2 {1} demo_salt = Inr d"
    using swift_block_ok by blast
  have "agg_is_zero (foldl agg_plus agg_zero (map aggregator_delta [d]))"
  proof (rule swiftsync_sum_vanishes [where blocks = "[(swift_block, 2, {1})]"])
    show "sip_streaming demo_sip" by (simp add: sip_streaming_def demo_sip_def)
    show "mset (chain_spends swift_api [(swift_block, 2, {1})])
        = mset (chain_hinted_spent swift_api [(swift_block, 2, {1})])"
      by (simp add: block_spends_def block_hinted_spent_def indexed_txs_def block_txids_def
          removed_inputs_def counted_outputs_def spendable_vouts_def is_bip30_unspendable_def
          is_unspendable_def MAX_SCRIPT_SIZE_def swift_defs)
  qed (use d in simp)
  with d show ?thesis by blast
qed

end
