(* ===== verification/Stump_Updater.thy ===== *)
theory Stump_Updater
  imports Swift_Sync
begin

text \<open>
  \<^verbatim>\<open>stump_updater.rs\<close>: the task that applies the additions of SwiftSync blocks to the accumulator. Blocks are
  processed in any order; the task keeps what it cannot apply yet, without the empty hashes, and applies
  the rest by height. The messages of the channel are a list, whose end is the closing of the channel;
  rustreexo's \<^verbatim>\<open>Stump::modify\<close> and \<^verbatim>\<open>Proof::default\<close> are parameters, and the time the updates take, which is only logged,
  is left out. A panic of the task is the left summand.
\<close>

section \<open>Definitions\<close>

record sparse_utreexo_adds =
  sa_len :: usize
  sa_entries :: "(u32 \<times> node_hash) list"

definition utxo_count :: "sparse_utreexo_adds \<Rightarrow> usize" where
  "utxo_count a = of_nat (length (sa_entries a))"

definition sparse_new :: "node_hash list \<Rightarrow> string + sparse_utreexo_adds" where
  "sparse_new dense =
     (let kept = filter (\<lambda>(i, h). h \<noteq> NodeEmpty) (List.enumerate 0 dense) in
      if list_ex (\<lambda>(i, h). 2 ^ 32 \<le> i) kept then Inl ''block output positions fit in a u32''
      else Inr \<lparr>sa_len = of_nat (length dense), sa_entries = map (\<lambda>(i, h). (of_nat i, h)) kept\<rparr>)"

definition into_dense :: "sparse_utreexo_adds \<Rightarrow> string + node_hash list" where
  "into_dense a = foldE (\<lambda>(index, h) dense.
     if unat index < length dense then Inr (dense[unat index := h]) else Inl ''index out of bounds'')
     (sa_entries a) (replicate (unat (sa_len a)) NodeEmpty)"

text \<open>A \<^verbatim>\<open>BTreeMap\<close> is the list of its entries by ascending key; \<^verbatim>\<open>insert\<close> returns the value it replaces.\<close>

fun btree_insert :: "u32 \<Rightarrow> 'v \<Rightarrow> (u32 \<times> 'v) list \<Rightarrow> 'v option \<times> (u32 \<times> 'v) list" where
  "btree_insert k v [] = (None, [(k, v)])"
| "btree_insert k v ((k', v') # m) =
     (if k < k' then (None, (k, v) # (k', v') # m)
      else if k = k' then (Some v', (k, v) # m)
      else (let (old, m') = btree_insert k v m in (old, (k', v') # m')))"

record 'acc stump_updater =
  last_acc :: 'acc
  last_height :: u32
  pending_updates :: "(u32 \<times> sparse_utreexo_adds) list"
  cached_utxos :: usize
  max_cached_utxos :: usize

definition queue_update :: "u32 \<Rightarrow> sparse_utreexo_adds \<Rightarrow> u32 \<Rightarrow> 'acc stump_updater \<Rightarrow> string + 'acc stump_updater" where
  "queue_update height adds stop_height s =
     bindE (reject_if (height \<le> last_height s \<or> height > stop_height) ''got update height'') (\<lambda>_.
     let new_utxos = utxo_count adds; (old, pending) = btree_insert height adds (pending_updates s) in
     bindE (reject_if (old \<noteq> None) ''duplicate update data'') (\<lambda>_.
     Inr (s\<lparr>pending_updates := pending, cached_utxos := cached_utxos s + new_utxos,
       max_cached_utxos := max (max_cached_utxos s) (cached_utxos s + new_utxos)\<rparr>)))"

function try_next :: "('acc, 'p) stump_modify \<Rightarrow> 'p \<Rightarrow> 'acc stump_updater \<Rightarrow> string + 'acc stump_updater" where
  "try_next M no_proof s =
     (let next_height = last_height s + 1 in
      case pending_updates s of
        [] \<Rightarrow> Inr s
      | (height, adds) # pending \<Rightarrow>
          if height = next_height then
            (case into_dense adds of
               Inl e \<Rightarrow> Inl e
             | Inr dense \<Rightarrow>
                 (case M (last_acc s) dense [] no_proof of
                    Inl _ \<Rightarrow> Inl ''addition-only stump modification cannot fail''
                  | Inr new_acc \<Rightarrow>
                      try_next M no_proof (s\<lparr>pending_updates := pending, cached_utxos := cached_utxos s - utxo_count adds,
                        last_acc := new_acc, last_height := next_height\<rparr>)))
          else Inr s)"
  by pat_completeness auto
termination by (relation "measure (\<lambda>(_, _, s). length (pending_updates s))") auto

fun run_updater :: "('acc, 'p) stump_modify \<Rightarrow> 'p \<Rightarrow> u32 \<Rightarrow> (u32 \<times> sparse_utreexo_adds) list \<Rightarrow> 'acc stump_updater \<Rightarrow> string + 'acc option" where
  "run_updater M no_proof stop_height [] s = Inr (if last_height s < stop_height then None else Some (last_acc s))"
| "run_updater M no_proof stop_height ((height, adds) # rx) s =
     (if last_height s < stop_height then
        bindE (queue_update height adds stop_height s) (\<lambda>s.
        bindE (try_next M no_proof s) (\<lambda>s.
        run_updater M no_proof stop_height rx s))
      else Inr (Some (last_acc s)))"

text \<open>\<^verbatim>\<open>spawn\<close> with what arrives at \<^verbatim>\<open>done\<close>: \<open>None\<close> is a receiver closed without a result, which is also what a panic
  of the task leads to.\<close>

definition spawn :: "('acc, 'p) stump_modify \<Rightarrow> 'p \<Rightarrow> 'acc \<Rightarrow> u32 \<Rightarrow> u32 \<Rightarrow> (u32 \<times> sparse_utreexo_adds) list \<Rightarrow> string + 'acc option" where
  "spawn M no_proof initial_acc initial_height stop_height rx =
     bindE (reject_if (\<not> initial_height < stop_height) ''initial StumpUpdater height must be less than stop_height'') (\<lambda>_.
     Inr (case run_updater M no_proof stop_height rx
              \<lparr>last_acc = initial_acc, last_height = initial_height, pending_updates = [], cached_utxos = 0, max_cached_utxos = 0\<rparr> of
            Inl _ \<Rightarrow> None
          | Inr result \<Rightarrow> result))"

text \<open>The heights after \<open>i\<close> up to \<open>n\<close> in ascending order, and the accumulator after their additions in that
  order: what the task has to compute.\<close>

definition heights :: "u32 \<Rightarrow> u32 \<Rightarrow> u32 list" where
  "heights i n = map of_nat [Suc (unat i)..<Suc (unat n)]"

definition add_in_order :: "('acc, 'p) stump_modify \<Rightarrow> 'p \<Rightarrow> (u32 \<Rightarrow> node_hash list) \<Rightarrow> u32 list \<Rightarrow> 'acc \<Rightarrow> string + 'acc" where
  "add_in_order M no_proof adds hs acc = foldE (\<lambda>h acc. M acc (adds h) [] no_proof) hs acc"

text \<open>The state after the updates of the heights \<open>H\<close>, where \<open>u h\<close> is the update for \<open>h\<close>.\<close>

definition updater_inv ::
  "('acc, 'p) stump_modify \<Rightarrow> 'p \<Rightarrow> (u32 \<Rightarrow> node_hash list) \<Rightarrow> (u32 \<Rightarrow> sparse_utreexo_adds) \<Rightarrow> 'acc \<Rightarrow> u32 \<Rightarrow> u32 \<Rightarrow> u32 set \<Rightarrow> 'acc stump_updater \<Rightarrow> bool" where
  "updater_inv M no_proof adds u acc i stop H s \<longleftrightarrow> i \<le> last_height s \<and> last_height s \<le> stop \<and> H \<subseteq> {i<..stop}
     \<and> {i<..last_height s} \<subseteq> H \<and> sorted_wrt (<) (map fst (pending_updates s))
     \<and> set (pending_updates s) = (\<lambda>h. (h, u h)) ` {h \<in> H. last_height s < h}
     \<and> add_in_order M no_proof adds (heights i (last_height s)) acc = Inr (last_acc s)
     \<and> cached_utxos s = (\<Sum>(h, a) \<leftarrow> pending_updates s. utxo_count a)"

definition updates_for :: "u32 set \<Rightarrow> (u32 \<Rightarrow> node_hash list) \<Rightarrow> (u32 \<Rightarrow> sparse_utreexo_adds) \<Rightarrow> bool" where
  "updates_for H adds u \<longleftrightarrow> (\<forall>h \<in> H. length (adds h) < 2 ^ 64 \<and> sparse_new (adds h) = Inr (u h))"

definition additions_succeed :: "('acc, 'p) stump_modify \<Rightarrow> 'p \<Rightarrow> bool" where
  "additions_succeed M no_proof \<longleftrightarrow> (\<forall>acc adds. \<exists>acc'. M acc adds [] no_proof = Inr acc')"

text \<open>A log of additions in place of the accumulator, and the additions of two blocks.\<close>

definition log_adds :: "(node_hash list, unit) stump_modify" where
  "log_adds acc adds dels p = Inr (acc @ adds)"

definition demo_adds :: "u32 \<Rightarrow> node_hash list" where
  "demo_adds h = (if h = 1 then [NodeSome [1]] else [NodeEmpty, NodeSome [2]])"

definition demo_update :: "u32 \<Rightarrow> sparse_utreexo_adds" where
  "demo_update h = (if h = 1 then \<lparr>sa_len = 1, sa_entries = [(0, NodeSome [1])]\<rparr> else \<lparr>sa_len = 2, sa_entries = [(1, NodeSome [2])]\<rparr>)"

section \<open>Sparse additions\<close>

declare try_next.simps [simp del]

lemma fold_entries:
  assumes "length done + length todo < 2 ^ 64"
    and "\<forall>(i, h) \<in> set (List.enumerate (length done) todo). h \<noteq> NodeEmpty \<longrightarrow> i < 2 ^ 32"
  shows "foldE (\<lambda>(index, h) dense. if unat index < length dense then Inr (dense[unat index := h]) else Inl e)
      (map (\<lambda>(i, h). (of_nat i :: u32, h)) (filter (\<lambda>(i, h). h \<noteq> NodeEmpty) (List.enumerate (length done) todo)))
      (done @ replicate (length todo) NodeEmpty) = Inr (done @ todo)"
  using assms
proof (induction todo arbitrary: "done")
  case Nil
  then show ?case by simp
next
  case (Cons h todo)
  from Cons.IH [of "done @ [h]"] Cons.prems show ?case
    by (cases "h = NodeEmpty") (simp_all add: take_bit_nat_eq_self unsigned_of_nat list_update_append)
qed

lemma sparse_roundtrip:
  assumes "sparse_new dense = Inr a" and "length dense < 2 ^ 64"
  shows "into_dense a = Inr dense"
proof -
  have "\<forall>(i, h) \<in> set (List.enumerate 0 dense). h \<noteq> NodeEmpty \<longrightarrow> i < 2 ^ 32"
    and a: "a = \<lparr>sa_len = of_nat (length dense), sa_entries = map (\<lambda>(i, h). (of_nat i, h)) (filter (\<lambda>(i, h). h \<noteq> NodeEmpty) (List.enumerate 0 dense))\<rparr>"
    using assms(1) by (fastforce simp: sparse_new_def Let_def list_ex_iff split: if_splits)+
  with fold_entries [of "[]" dense "''index out of bounds''"] assms(2) show ?thesis
    by (simp add: into_dense_def take_bit_nat_eq_self unsigned_of_nat)
qed

section \<open>The task\<close>

lemma btree_insert_new:
  assumes "sorted_wrt (<) (map fst m)" and "k \<notin> fst ` set m"
  shows "\<exists>m'. btree_insert k v m = (None, m') \<and> sorted_wrt (<) (map fst m') \<and> set m' = insert (k, v) (set m)
    \<and> (\<forall>f :: _ \<Rightarrow> _ \<Rightarrow> usize. (\<Sum>(k, v) \<leftarrow> m'. f k v) = f k v + (\<Sum>(k, v) \<leftarrow> m. f k v))"
  using assms
proof (induction m)
  case Nil
  then show ?case by simp
next
  case (Cons e m)
  obtain k' v' where e: "e = (k', v')" by (cases e)
  from Cons obtain m' where m': "btree_insert k v m = (None, m')" "sorted_wrt (<) (map fst m')" "set m' = insert (k, v) (set m)"
    "\<forall>f :: _ \<Rightarrow> _ \<Rightarrow> usize. (\<Sum>(k, v) \<leftarrow> m'. f k v) = f k v + (\<Sum>(k, v) \<leftarrow> m. f k v)" by auto
  show ?case
  proof (cases "k < k'")
    case True
    with Cons.prems e show ?thesis by (auto dest: less_trans)
  next
    case False
    with Cons.prems e have "k' < k" by auto
    with Cons.prems e m' False show ?thesis by (auto simp: add.left_commute)
  qed
qed

lemma btree_insert_old:
  assumes "sorted_wrt (<) (map fst m)" and "(k, v') \<in> set m"
  shows "fst (btree_insert k v m) \<noteq> None"
  using assms by (induction m) (force split: prod.splits)+

lemma heights_next:
  assumes "i \<le> l" and "l < stop"
  shows "heights i (l + 1) = heights i l @ [l + 1]" and "l < l + 1" and "l + 1 \<le> stop"
    and "\<And>h. l < h \<Longrightarrow> l + 1 \<le> h"
proof -
  have n: "unat (l + 1) = Suc (unat l)"
    using assms(2) unsigned_less [of stop, where 'a = nat] by (subst unat_add_no_overflow) (simp_all add: word_less_nat_alt)
  show "l < l + 1" "l + 1 \<le> stop" "\<And>h. l < h \<Longrightarrow> l + 1 \<le> h"
    using assms(2) n by (simp_all add: word_less_nat_alt word_le_nat_alt)
  have "unat i \<le> unat l" using assms(1) by (simp add: word_le_nat_alt)
  then show "heights i (l + 1) = heights i l @ [l + 1]" unfolding heights_def n by simp
qed

lemma updater_invD:
  assumes "updater_inv M p adds u acc i stop H s"
  shows "i \<le> last_height s" and "sorted_wrt (<) (map fst (pending_updates s))"
    and "h \<in> H \<Longrightarrow> last_height s < h \<Longrightarrow> (h, u h) \<in> set (pending_updates s)"
  using assms by (simp_all add: updater_inv_def)

lemma pending_head:
  assumes "updater_inv M p adds u acc i stop H s" and "pending_updates s = (h, a) # rest"
  shows "h \<in> H" and "a = u h" and "last_height s < h" and "h \<le> stop" and "last_height s < stop"
    and "h \<notin> fst ` set rest" and "\<And>x. x \<in> H \<Longrightarrow> last_height s < x \<Longrightarrow> h \<le> x"
proof -
  have "(h, a) \<in> set (pending_updates s)" using assms(2) by simp
  then have m: "(h, a) \<in> (\<lambda>h. (h, u h)) ` {h \<in> H. last_height s < h}" using assms(1) unfolding updater_inv_def by blast
  then show h: "h \<in> H" "a = u h" "last_height s < h" by auto
  then show "h \<le> stop" using assms(1) by (auto simp: updater_inv_def)
  with h(3) show "last_height s < stop" by simp
  show "h \<notin> fst ` set rest" using assms by (auto simp: updater_inv_def)
  show "h \<le> x" if "x \<in> H" "last_height s < x" for x
  proof -
    have "(x, u x) \<in> set (pending_updates s)" using assms(1) that by (auto simp: updater_inv_def)
    then show ?thesis using assms by (auto simp: updater_inv_def)
  qed
qed

lemma apply_next:
  assumes "updater_inv M p adds u acc i stop H s" and "pending_updates s = (last_height s + 1, a) # rest"
    and "M (last_acc s) (adds (last_height s + 1)) [] p = Inr acc'"
  shows "updater_inv M p adds u acc i stop H (s\<lparr>pending_updates := rest, cached_utxos := cached_utxos s - utxo_count a,
    last_acc := acc', last_height := last_height s + 1\<rparr>)"
proof -
  let ?l = "last_height s"
  note hd = pending_head [OF assms(1,2)]
  have i: "i \<le> ?l" using assms(1) by (simp add: updater_inv_def)
  note n = heights_next [OF i hd(5)]
  have below: "x \<le> ?l + 1 \<longleftrightarrow> x \<le> ?l \<or> x = ?l + 1" "?l + 1 < x \<longleftrightarrow> ?l < x \<and> x \<noteq> ?l + 1" for x
    using n(2) n(4) [of x] by (cases "?l < x"; force)+
  have "set rest = set (pending_updates s) - {(?l + 1, u (?l + 1))}" using assms(2) hd(2,6) by force
  also have "\<dots> = (\<lambda>h. (h, u h)) ` {h \<in> H. ?l + 1 < h}" using assms(1) below(2) by (auto simp: updater_inv_def)
  finally have "set rest = \<dots>" .
  moreover have "{i<..?l + 1} \<subseteq> H" using assms(1) below(1) hd(1) by (auto simp: updater_inv_def)
  moreover have "add_in_order M p adds (heights i (?l + 1)) acc = Inr acc'"
    using assms(1,3) by (simp add: updater_inv_def n(1) add_in_order_def foldE_append)
  ultimately show ?thesis using assms(1,2) i n(2,3) by (auto simp: updater_inv_def)
qed

lemma try_next_inv:
  assumes "updater_inv M p adds u acc i stop H s" and "updates_for {i<..stop} adds u" and "additions_succeed M p"
  shows "\<exists>s'. try_next M p s = Inr s' \<and> updater_inv M p adds u acc i stop H s' \<and> (last_height s' < stop \<longrightarrow> last_height s' + 1 \<notin> H)"
  using assms(1)
proof (induction "pending_updates s" arbitrary: s)
  case Nil
  then have "{h \<in> H. last_height s < h} = {}" by (auto simp: updater_inv_def)
  moreover have "last_height s < last_height s + 1" if "last_height s < stop"
    using heights_next(2) [OF _ that, of i] Nil.prems by (simp add: updater_inv_def)
  ultimately show ?case using Nil by (auto simp: try_next.simps [of M p s])
next
  case (Cons e rest)
  obtain h a where e: "pending_updates s = (h, a) # rest" using Cons.hyps(2) [symmetric] by (cases e) auto
  note hd = pending_head [OF Cons.prems e]
  have i: "i \<le> last_height s" using Cons.prems by (simp add: updater_inv_def)
  note n = heights_next [OF i hd(5)]
  show ?case
  proof (cases "h = last_height s + 1")
    case True
    have "h \<in> {i<..stop}" using i hd(3,4) by simp
    then have dense: "into_dense a = Inr (adds h)" using assms(2) hd(2) sparse_roundtrip by (auto simp: updates_for_def)
    obtain acc' where acc': "M (last_acc s) (adds h) [] p = Inr acc'" using assms(3) by (auto simp: additions_succeed_def)
    let ?s = "s\<lparr>pending_updates := rest, cached_utxos := cached_utxos s - utxo_count a, last_acc := acc',
      last_height := last_height s + 1\<rparr>"
    have "try_next M p s = try_next M p ?s" using e True dense acc' by (simp add: try_next.simps [of M p s])
    moreover have "updater_inv M p adds u acc i stop H ?s"
      using apply_next [OF Cons.prems, of a rest acc'] acc' e True by simp
    ultimately show ?thesis using Cons.hyps(1) [of ?s] by simp
  next
    case False
    then have "last_height s + 1 \<notin> H" using hd(3,7) n(2,4) by (meson order.antisym)
    with False e Cons.prems show ?thesis by (simp add: try_next.simps [of M p s])
  qed
qed

lemma queue_update_new:
  assumes "updater_inv M p adds u acc i stop H s" and "h \<notin> H" and "h \<in> {i<..stop}"
  shows "\<exists>s'. queue_update h (u h) stop s = Inr s' \<and> updater_inv M p adds u acc i stop (insert h H) s'"
proof -
  have "h \<notin> {i<..last_height s}" using assms(1,2) unfolding updater_inv_def by blast
  then have above: "last_height s < h" using assms(3) by auto
  have "h \<notin> fst ` set (pending_updates s)" using assms(1,2) by (auto simp: updater_inv_def)
  with assms(1) obtain m' where m': "btree_insert h (u h) (pending_updates s) = (None, m')" "sorted_wrt (<) (map fst m')"
    "set m' = insert (h, u h) (set (pending_updates s))"
    "(\<Sum>(k, v) \<leftarrow> m'. utxo_count v) = utxo_count (u h) + (\<Sum>(k, v) \<leftarrow> pending_updates s. utxo_count v)"
    using btree_insert_new [of "pending_updates s" h "u h"] by (auto simp: updater_inv_def)
  let ?s = "s\<lparr>pending_updates := m', cached_utxos := cached_utxos s + utxo_count (u h),
    max_cached_utxos := max (max_cached_utxos s) (cached_utxos s + utxo_count (u h))\<rparr>"
  have "queue_update h (u h) stop s = Inr ?s"
    using above assms(3) m'(1) by (simp add: queue_update_def reject_if_def Let_def not_le [symmetric])
  moreover have "set m' = (\<lambda>h. (h, u h)) ` {x \<in> insert h H. last_height s < x}"
    using m'(3) above assms(1) by (auto simp: updater_inv_def)
  then have "updater_inv M p adds u acc i stop (insert h H) ?s"
    using assms(1,3) m'(2,4) by (auto simp: updater_inv_def add.commute)
  ultimately show ?thesis by blast
qed

lemma queue_update_refused:
  assumes "updater_inv M p adds u acc i stop H s" and "h \<in> H \<or> h \<notin> {i<..stop}"
  shows "\<exists>e. queue_update h a stop s = Inl e"
proof (cases "h \<le> last_height s \<or> h > stop")
  case False
  then have "h \<in> H" "last_height s < h" using assms(2) updater_invD(1) [OF assms(1)] by auto
  from btree_insert_old [OF updater_invD(2) [OF assms(1)] updater_invD(3) [OF assms(1) this], of a] False show ?thesis
    by (cases "btree_insert h a (pending_updates s)") (auto simp: queue_update_def Let_def)
qed (auto simp: queue_update_def)

lemma run_prefix:
  assumes "updates_for {i<..stop} adds u" and "additions_succeed M p"
    and "updater_inv M p adds u acc i stop H s" and "last_height s < stop \<longrightarrow> last_height s + 1 \<notin> H"
    and "distinct hs" and "set hs \<inter> H = {}" and "set hs \<subseteq> {i<..stop}"
  shows "\<exists>s'. run_updater M p stop (map (\<lambda>h. (h, u h)) hs @ rx) s = run_updater M p stop rx s'
    \<and> updater_inv M p adds u acc i stop (H \<union> set hs) s' \<and> (last_height s' < stop \<longrightarrow> last_height s' + 1 \<notin> H \<union> set hs)"
  using assms(3-)
proof (induction hs arbitrary: H s)
  case Nil
  then show ?case by auto
next
  case (Cons h hs)
  have h: "h \<notin> H" "h \<in> {i<..stop}" using Cons.prems by auto
  have "h \<notin> {i<..last_height s}" using Cons.prems(1) h(1) unfolding updater_inv_def by blast
  then have less: "last_height s < stop" using h(2) by auto
  obtain s1 where s1: "queue_update h (u h) stop s = Inr s1" "updater_inv M p adds u acc i stop (insert h H) s1"
    using queue_update_new [OF Cons.prems(1) h] by blast
  obtain s2 where s2: "try_next M p s1 = Inr s2" "updater_inv M p adds u acc i stop (insert h H) s2"
    "last_height s2 < stop \<longrightarrow> last_height s2 + 1 \<notin> insert h H"
    using try_next_inv [OF s1(2) assms(1,2)] by blast
  from Cons.IH [OF s2(2,3)] Cons.prems s1(1) s2(1) less show ?case by auto
qed

lemma updater_start:
  assumes "i < stop"
  shows "updater_inv M p adds u acc i stop {} \<lparr>last_acc = acc, last_height = i, pending_updates = [], cached_utxos = 0, max_cached_utxos = 0\<rparr>"
  using assms by (simp add: updater_inv_def add_in_order_def heights_def)

lemma updater_finished:
  assumes "updater_inv M p adds u acc i stop H s" and "last_height s < stop \<longrightarrow> last_height s + 1 \<notin> H"
  shows "last_height s < stop \<longleftrightarrow> H \<noteq> {i<..stop}"
proof
  assume l: "last_height s < stop"
  have i: "i \<le> last_height s" using assms(1) by (simp add: updater_inv_def)
  then have "last_height s + 1 \<in> {i<..stop}" using heights_next(2,3) [OF i l] by (simp add: order.strict_trans1)
  with assms(2) l show "H \<noteq> {i<..stop}" by blast
next
  assume "H \<noteq> {i<..stop}"
  then have "last_height s \<noteq> stop" using assms(1) unfolding updater_inv_def by blast
  moreover have "last_height s \<le> stop" using assms(1) by (simp add: updater_inv_def)
  ultimately show "last_height s < stop" by simp
qed

lemma run_from_start:
  assumes "i < stop" and "distinct hs" and "set hs \<subseteq> {i<..stop}"
    and "updates_for {i<..stop} adds u" and "additions_succeed M p"
  shows "\<exists>s'. run_updater M p stop (map (\<lambda>h. (h, u h)) hs @ rx)
      \<lparr>last_acc = acc, last_height = i, pending_updates = [], cached_utxos = 0, max_cached_utxos = 0\<rparr> = run_updater M p stop rx s'
    \<and> updater_inv M p adds u acc i stop (set hs) s' \<and> (last_height s' < stop \<longleftrightarrow> set hs \<noteq> {i<..stop})"
proof -
  let ?s = "\<lparr>last_acc = acc, last_height = i, pending_updates = [], cached_utxos = 0, max_cached_utxos = 0\<rparr>"
  have "\<exists>s'. run_updater M p stop (map (\<lambda>h. (h, u h)) hs @ rx) ?s = run_updater M p stop rx s'
    \<and> updater_inv M p adds u acc i stop ({} \<union> set hs) s' \<and> (last_height s' < stop \<longrightarrow> last_height s' + 1 \<notin> {} \<union> set hs)"
    by (rule run_prefix [OF assms(4,5) updater_start [OF assms(1)]]) (use assms(2,3) in simp_all)
  then obtain s' where "run_updater M p stop (map (\<lambda>h. (h, u h)) hs @ rx) ?s = run_updater M p stop rx s'"
    and s': "updater_inv M p adds u acc i stop (set hs) s'" "last_height s' < stop \<longrightarrow> last_height s' + 1 \<notin> set hs" unfolding Un_empty_left by blast
  with updater_finished [OF s'] show ?thesis by blast
qed

lemma complete_result:
  assumes "updater_inv M p adds u acc i stop H s" and "\<not> last_height s < stop"
  shows "add_in_order M p adds (heights i stop) acc = Inr (last_acc s)" and "run_updater M p stop rx s = Inr (Some (last_acc s))"
proof -
  have "last_height s \<le> stop" using assms(1) by (simp add: updater_inv_def)
  with assms(2) have "last_height s = stop" by simp
  then show "add_in_order M p adds (heights i stop) acc = Inr (last_acc s)" using assms(1) by (simp add: updater_inv_def)
  show "run_updater M p stop rx s = Inr (Some (last_acc s))" using assms(2) by (cases rx) auto
qed

section \<open>Properties\<close>

text \<open>C8. The updates of the blocks may arrive in any order. Once each height after the initial one up to the stop
  height has been sent, the result is the accumulator after all additions in the order of the heights,
  whatever follows. If the channel is closed before that, or a height comes that is out of range or was
  sent before, no accumulator is returned.\<close>

theorem updates_in_any_order:
  assumes "i < stop" and "distinct hs" and "set hs \<subseteq> {i<..stop}"
    and "updates_for {i<..stop} adds u" and "additions_succeed M no_proof"
  shows "if set hs = {i<..stop}
    then \<exists>acc'. add_in_order M no_proof adds (heights i stop) acc = Inr acc'
      \<and> (\<forall>rx. spawn M no_proof acc i stop (map (\<lambda>h. (h, u h)) hs @ rx) = Inr (Some acc'))
    else spawn M no_proof acc i stop (map (\<lambda>h. (h, u h)) hs) = Inr None
      \<and> (\<forall>h a rx. h \<in> set hs \<or> h \<notin> {i<..stop} \<longrightarrow>
           spawn M no_proof acc i stop (map (\<lambda>h. (h, u h)) hs @ (h, a) # rx) = Inr None)"
proof -
  let ?s = "\<lparr>last_acc = acc, last_height = i, pending_updates = [], cached_utxos = 0, max_cached_utxos = 0\<rparr>"
  let ?sent = "map (\<lambda>h. (h, u h)) hs"
  have run: "\<exists>s. run_updater M no_proof stop (?sent @ rx) ?s = run_updater M no_proof stop rx s
    \<and> updater_inv M no_proof adds u acc i stop (set hs) s \<and> (last_height s < stop \<longleftrightarrow> set hs \<noteq> {i<..stop})" for rx
    by (rule run_from_start [OF assms])
  have spawn: "spawn M no_proof acc i stop rx = Inr (case run_updater M no_proof stop rx ?s of Inl _ \<Rightarrow> None | Inr r \<Rightarrow> r)" for rx
    using assms(1) by (simp add: spawn_def)
  show ?thesis
  proof (cases "set hs = {i<..stop}")
    case True
    have whole: "\<exists>acc'. add_in_order M no_proof adds (heights i stop) acc = Inr acc' \<and> run_updater M no_proof stop (?sent @ rx) ?s = Inr (Some acc')" for rx
    proof -
      obtain s where s: "run_updater M no_proof stop (?sent @ rx) ?s = run_updater M no_proof stop rx s"
        "updater_inv M no_proof adds u acc i stop (set hs) s" "\<not> last_height s < stop" using run [of rx] True by metis
      show ?thesis using s(1) complete_result [OF s(2,3)] by simp
    qed
    obtain acc' where acc': "add_in_order M no_proof adds (heights i stop) acc = Inr acc'" using whole by blast
    then have "run_updater M no_proof stop (?sent @ rx) ?s = Inr (Some acc')" for rx using whole [of rx] by simp
    then have "\<forall>rx. spawn M no_proof acc i stop (?sent @ rx) = Inr (Some acc')" by (simp add: spawn)
    with acc' show ?thesis unfolding if_P [OF True] by blast
  next
    case False
    have "spawn M no_proof acc i stop (?sent @ (h, a) # rx) = Inr None" if bad: "h \<in> set hs \<or> h \<notin> {i<..stop}" for h a rx
    proof -
      obtain s where s: "run_updater M no_proof stop (?sent @ (h, a) # rx) ?s = run_updater M no_proof stop ((h, a) # rx) s"
        "updater_inv M no_proof adds u acc i stop (set hs) s" "last_height s < stop" using run [of "(h, a) # rx"] False by metis
      obtain e where "queue_update h a stop s = Inl e" using queue_update_refused [OF s(2) bad] ..
      with s(1,3) show ?thesis by (simp add: spawn)
    qed
    moreover obtain s where "run_updater M no_proof stop (?sent @ []) ?s = run_updater M no_proof stop [] s" "last_height s < stop"
      using run [of "[]"] False by metis
    then have "spawn M no_proof acc i stop ?sent = Inr None" by (simp add: spawn)
    ultimately show ?thesis unfolding if_not_P [OF False] by blast
  qed
qed

theorem updates_in_any_order_witness:
  "spawn log_adds () [] 0 2 [(2, \<lparr>sa_len = 2, sa_entries = [(1, NodeSome [2])]\<rparr>), (1, \<lparr>sa_len = 1, sa_entries = [(0, NodeSome [1])]\<rparr>)]
     = Inr (Some [NodeSome [1], NodeEmpty, NodeSome [2]])"
proof -
  have "x = 1 \<or> x = 2" if "0 < x" "x \<le> 2" for x :: u32
  proof -
    have "unat x = 1 \<or> unat x = 2" using that unfolding word_less_nat_alt word_le_nat_alt by auto
    then show ?thesis by (simp add: word_unat_eq_iff)
  qed
  then have r: "{0 :: u32<..2} = {1, 2}" by force
  have "updates_for {0<..2} demo_adds demo_update"
    by (simp add: r updates_for_def demo_adds_def demo_update_def sparse_new_def)
  moreover have "additions_succeed log_adds ()" by (simp add: additions_succeed_def log_adds_def)
  moreover have "add_in_order log_adds () demo_adds (heights 0 2) [] = Inr [NodeSome [1], NodeEmpty, NodeSome [2]]"
    by (simp add: add_in_order_def heights_def log_adds_def demo_adds_def upt_rec)
  moreover have "set [2, 1] = {0 :: u32<..2}" by (simp add: r insert_commute)
  ultimately have "\<forall>rx. spawn log_adds () [] 0 2 (map (\<lambda>h. (h, demo_update h)) [2, 1] @ rx) = Inr (Some [NodeSome [1], NodeEmpty, NodeSome [2]])"
    using updates_in_any_order [of 0 2 "[2, 1]" demo_adds demo_update log_adds "()" "[]"] by simp
  from spec [OF this, of "[]"] show ?thesis by (simp add: demo_update_def)
qed

end
