(* ===== verification/Mempool.thy ===== *)
theory Mempool
  imports Transaction_Rules
begin

text \<open>
  \<^verbatim>\<open>floresta-mempool\<close>: the transactions the node holds, indexed by a keyed 64-bit hash of their
  txid, with the dependencies between them; acceptance, removal of a confirmed block's
  transactions, and assembly of a block template (\<^verbatim>\<open>mempool.rs\<close>, \<^verbatim>\<open>floresta-domain\<close>'s \<^verbatim>\<open>MempoolBase\<close>
  and \<^verbatim>\<open>MempoolError\<close>).

  The hash map is a partial function; where the source iterates over it, the order of the keys is
  an argument. The clock is a number of nanoseconds and an argument of the operations that read
  it. The recursion of \<^verbatim>\<open>add_transaction_to_block\<close> follows dependencies and need not end on an
  arbitrary map, so it carries fuel: \<open>None\<close> is running out of it. A panic is a value.
\<close>

section \<open>Definitions\<close>

record mempool_api =
  tx_total_size :: "transaction \<Rightarrow> usize"
  tx_weight :: "transaction \<Rightarrow> u64"
  compute_merkle_root :: "block \<Rightarrow> hash option"

datatype mempool_error =
    FullMempool
  | ConflictingTransaction
  | DuplicatedInputs
  | ConsensusValidation blockchain_error
  | MempoolPanicked

record mempool_transaction =
  mt_transaction :: transaction
  mt_time :: nat
  depends :: "u64 list"
  children :: "u64 list"

record mempool =
  transactions :: "u64 \<rightharpoonup> mempool_transaction"
  mempool_size :: usize
  max_mempool_size :: usize
  queue :: "hash list"
  hasher :: "hash \<Rightarrow> u64"

definition mempool_new :: "(hash \<Rightarrow> u64) \<Rightarrow> usize \<Rightarrow> mempool" where
  "mempool_new h max_size =
     \<lparr>transactions = Map.empty, mempool_size = 0, max_mempool_size = max_size, queue = [], hasher = h\<rparr>"

definition list_unprocessed :: "mempool \<Rightarrow> hash list" where
  "list_unprocessed mp = queue mp"

definition list_mempool :: "bitcoin_api \<Rightarrow> u64 list \<Rightarrow> mempool \<Rightarrow> hash list" where
  "list_mempool L order mp =
     map (\<lambda>k. compute_txid L (mt_transaction (the (transactions mp k)))) order"

definition short_txid :: "bitcoin_api \<Rightarrow> mempool \<Rightarrow> transaction \<Rightarrow> u64" where
  "short_txid L mp tx = hasher mp (compute_txid L tx)"

definition get_from_mempool :: "mempool \<Rightarrow> hash \<Rightarrow> transaction option" where
  "get_from_mempool mp txid = map_option mt_transaction (transactions mp (hasher mp txid))"

definition get_stale :: "bitcoin_api \<Rightarrow> u64 list \<Rightarrow> nat \<Rightarrow> mempool \<Rightarrow> hash list" where
  "get_stale L order now mp =
     map (\<lambda>k. compute_txid L (mt_transaction (the (transactions mp k))))
       (filter (\<lambda>k. now - mt_time (the (transactions mp k)) > 3600 * 10 ^ 9) order)"

definition is_already_spent :: "mempool \<Rightarrow> outpoint \<Rightarrow> bool" where
  "is_already_spent mp out =
     (case transactions mp (hasher mp (op_txid out)) of
        None \<Rightarrow> False
      | Some tx \<Rightarrow> list_ex (\<lambda>child.
          (case transactions mp child of
             None \<Rightarrow> False
           | Some child_tx \<Rightarrow> list_ex (\<lambda>input. op_txid (previous_output input) = op_txid out
               \<and> op_vout (previous_output input) = op_vout out) (tx_input (mt_transaction child_tx))))
        (children tx))"

definition check_for_conflicts :: "mempool \<Rightarrow> transaction \<Rightarrow> mempool_error + unit" where
  "check_for_conflicts mp tx =
     bindE (reject_if (card (set (map previous_output (tx_input tx))) \<noteq> length (tx_input tx))
       DuplicatedInputs) (\<lambda>_.
     foldE (\<lambda>input _. reject_if (is_already_spent mp (previous_output input)) ConflictingTransaction)
       (tx_input tx) ())"

definition find_mempool_depends :: "mempool \<Rightarrow> transaction \<Rightarrow> u64 list" where
  "find_mempool_depends mp tx =
     filter (\<lambda>k. transactions mp k \<noteq> None)
       (map (\<lambda>input. hasher mp (op_txid (previous_output input))) (tx_input tx))"

definition push_child :: "u64 \<Rightarrow> u64 \<Rightarrow> (u64 \<rightharpoonup> mempool_transaction) \<Rightarrow>
  mempool_error + (u64 \<rightharpoonup> mempool_transaction)" where
  "push_child short depend txs =
     (case txs depend of
        None \<Rightarrow> Inl MempoolPanicked
      | Some tx \<Rightarrow> Inr (txs(depend \<mapsto> tx\<lparr>children := children tx @ [short]\<rparr>)))"

definition accept_to_mempool ::
  "bitcoin_api \<Rightarrow> mempool_api \<Rightarrow> nat \<Rightarrow> transaction \<Rightarrow> mempool \<Rightarrow> mempool_error + mempool" where
  "accept_to_mempool L M now tx mp =
     (let short = short_txid L mp tx in
      if transactions mp short \<noteq> None then Inr mp
      else
        (let tx_size = tx_total_size M tx in
         bindE (reject_if (mempool_size mp + tx_size > max_mempool_size mp) FullMempool) (\<lambda>_.
         bindE (map_err ConsensusValidation (check_transaction_context_free L tx)) (\<lambda>_.
         bindE (check_for_conflicts mp tx) (\<lambda>_.
         let deps = find_mempool_depends mp tx in
         bindE (foldE (push_child short) deps (transactions mp)) (\<lambda>txs.
         Inr (mp\<lparr>transactions := txs(short \<mapsto>
                \<lparr>mt_transaction = tx, mt_time = now, depends = deps, children = []\<rparr>),
              mempool_size := mempool_size mp + tx_size\<rparr>)))))))"

definition drop_depend :: "u64 \<Rightarrow> u64 \<Rightarrow> (u64 \<rightharpoonup> mempool_transaction) \<Rightarrow> (u64 \<rightharpoonup> mempool_transaction)" where
  "drop_depend short child txs =
     (case txs child of
        None \<Rightarrow> txs
      | Some child_tx \<Rightarrow>
          txs(child \<mapsto> child_tx\<lparr>depends := filter (\<lambda>d. d \<noteq> short) (depends child_tx)\<rparr>))"

definition consume_transaction ::
  "bitcoin_api \<Rightarrow> mempool_api \<Rightarrow> transaction \<Rightarrow> mempool \<Rightarrow> mempool" where
  "consume_transaction L M tx mp =
     (let short = short_txid L mp tx in
      case transactions mp short of
        None \<Rightarrow> mp
      | Some removed \<Rightarrow>
          mp\<lparr>transactions := fold (drop_depend short) (children removed) ((transactions mp)(short := None)),
             mempool_size := mempool_size mp - tx_total_size M (mt_transaction removed)\<rparr>)"

definition consume_block ::
  "bitcoin_api \<Rightarrow> mempool_api \<Rightarrow> block \<Rightarrow> mempool \<Rightarrow> hash list \<times> mempool" where
  "consume_block L M b mp =
     (map (compute_txid L) (txdata b), fold (consume_transaction L M) (txdata b) mp)"

fun add_transaction_to_block ::
  "nat \<Rightarrow> mempool \<Rightarrow> u64 \<Rightarrow> transaction list \<Rightarrow> (mempool_error + transaction list) option"
and add_dependencies ::
  "nat \<Rightarrow> mempool \<Rightarrow> u64 list \<Rightarrow> transaction list \<Rightarrow> (mempool_error + transaction list) option" where
  "add_transaction_to_block 0 mp short txs = None"
| "add_transaction_to_block (Suc fuel) mp short txs =
     (case transactions mp short of
        None \<Rightarrow> Some (Inl MempoolPanicked)
      | Some tx \<Rightarrow>
          if mt_transaction tx \<in> set txs then Some (Inr txs)
          else (case add_dependencies fuel mp (depends tx) txs of
                 Some (Inr txs) \<Rightarrow> Some (Inr (txs @ [mt_transaction tx]))
               | r \<Rightarrow> r))"
| "add_dependencies fuel mp [] txs = Some (Inr txs)"
| "add_dependencies fuel mp (d # ds) txs =
     (case add_transaction_to_block fuel mp d txs of
        Some (Inr txs) \<Rightarrow> add_dependencies fuel mp ds txs
      | r \<Rightarrow> r)"

text \<open>The loop of \<^verbatim>\<open>get_block_template\<close> over the values of the map, in the given order of keys.\<close>

fun template_loop ::
  "nat \<Rightarrow> bitcoin_api \<Rightarrow> mempool_api \<Rightarrow> mempool \<Rightarrow> u64 \<Rightarrow> u64 list \<Rightarrow> u64 \<Rightarrow> transaction list \<Rightarrow>
   (mempool_error + transaction list) option" where
  "template_loop fuel L M mp max_weight [] weight txs = Some (Inr txs)"
| "template_loop fuel L M mp max_weight (k # ks) weight txs =
     (let tx = mt_transaction (the (transactions mp k));
          tx_size = tx_weight M tx
      in if weight + tx_size > max_weight then Some (Inr txs)
         else if tx \<in> set txs then template_loop fuel L M mp max_weight ks weight txs
         else (case add_transaction_to_block fuel mp (short_txid L mp tx) txs of
                Some (Inr txs) \<Rightarrow> template_loop fuel L M mp max_weight ks (weight + tx_size) txs
              | r \<Rightarrow> r))"

definition get_block_template ::
  "nat \<Rightarrow> bitcoin_api \<Rightarrow> mempool_api \<Rightarrow> u64 list \<Rightarrow> u32 \<Rightarrow> hash \<Rightarrow> u32 \<Rightarrow> u32 \<Rightarrow> u64 \<Rightarrow> mempool \<Rightarrow>
   (mempool_error + block) option" where
  "get_block_template fuel L M order version prev time bits max_weight mp =
     (case template_loop fuel L M mp max_weight order 0 [] of
        None \<Rightarrow> None
      | Some (Inl e) \<Rightarrow> Some (Inl e)
      | Some (Inr txs) \<Rightarrow>
         (let b = \<lparr>blk_header = \<lparr>hdr_version = version, prev_blockhash = prev, merkle_root = all_zeros,
                hdr_time = time, hdr_bits = bits, hdr_nonce = 0\<rparr>, txdata = txs\<rparr>;
              root = (case compute_merkle_root M b of Some r \<Rightarrow> r | None \<Rightarrow> all_zeros)
          in Some (Inr (b\<lparr>blk_header := (blk_header b)\<lparr>merkle_root := root\<rparr>\<rparr>))))"

section \<open>The invariant\<close>

text \<open>Keys are the short ids of their transactions; a dependency is in the pool and lists its
  dependant as a child; dependencies decrease a rank, so they have no cycle; the recorded size is
  the size of the held transactions and within the limit.\<close>

definition keys_ok :: "bitcoin_api \<Rightarrow> mempool \<Rightarrow> bool" where
  "keys_ok L mp \<longleftrightarrow> (\<forall>k t. transactions mp k = Some t \<longrightarrow> short_txid L mp (mt_transaction t) = k)"

definition linked :: "(u64 \<rightharpoonup> mempool_transaction) \<Rightarrow> bool" where
  "linked txs \<longleftrightarrow> (\<forall>k t d. txs k = Some t \<longrightarrow> d \<in> set (depends t) \<longrightarrow>
     (\<exists>p. txs d = Some p \<and> k \<in> set (children p)))"

definition ranked :: "(u64 \<rightharpoonup> mempool_transaction) \<Rightarrow> (u64 \<Rightarrow> nat) \<Rightarrow> bool" where
  "ranked txs rank \<longleftrightarrow> (\<forall>k t d. txs k = Some t \<longrightarrow> d \<in> set (depends t) \<longrightarrow> rank d < rank k)"

definition pool_bytes :: "mempool_api \<Rightarrow> (u64 \<rightharpoonup> mempool_transaction) \<Rightarrow> nat" where
  "pool_bytes M txs = (\<Sum>k \<in> dom txs. unat (tx_total_size M (mt_transaction (the (txs k)))))"

definition mempool_inv :: "bitcoin_api \<Rightarrow> mempool_api \<Rightarrow> mempool \<Rightarrow> bool" where
  "mempool_inv L M mp \<longleftrightarrow> keys_ok L mp \<and> linked (transactions mp) \<and> (\<exists>rank. ranked (transactions mp) rank)
     \<and> unat (mempool_size mp) = pool_bytes M (transactions mp) \<and> mempool_size mp \<le> max_mempool_size mp"

lemma linkedD: "linked txs \<Longrightarrow> txs k = Some t \<Longrightarrow> d \<in> set (depends t) \<Longrightarrow> \<exists>p. txs d = Some p \<and> k \<in> set (children p)"
  unfolding linked_def by blast

section \<open>Acceptance\<close>

text \<open>The map after the new child was pushed to the given parents: the same transactions, with
  longer lists of children.\<close>

definition children_grown ::
  "u64 \<Rightarrow> u64 set \<Rightarrow> (u64 \<rightharpoonup> mempool_transaction) \<Rightarrow> (u64 \<rightharpoonup> mempool_transaction) \<Rightarrow> bool" where
  "children_grown s parents txs txs' \<longleftrightarrow> (\<forall>k. case txs k of
       None \<Rightarrow> txs' k = None
     | Some t \<Rightarrow> \<exists>cs. txs' k = Some (t\<lparr>children := children t @ cs\<rparr>) \<and> (k \<in> parents \<longrightarrow> s \<in> set cs))"

lemma children_grownD:
  assumes "children_grown s parents txs txs'"
  shows "txs' k = Some t' \<Longrightarrow> \<exists>t cs. txs k = Some t \<and> t' = t\<lparr>children := children t @ cs\<rparr>"
    and "txs k = Some t \<Longrightarrow> \<exists>cs. txs' k = Some (t\<lparr>children := children t @ cs\<rparr>) \<and> (k \<in> parents \<longrightarrow> s \<in> set cs)"
    and "dom txs' = dom txs"
proof -
  have *: "case txs k of None \<Rightarrow> txs' k = None
     | Some t \<Rightarrow> \<exists>cs. txs' k = Some (t\<lparr>children := children t @ cs\<rparr>) \<and> (k \<in> parents \<longrightarrow> s \<in> set cs)" for k
    using assms by (simp add: children_grown_def)
  show "txs' k = Some t' \<Longrightarrow> \<exists>t cs. txs k = Some t \<and> t' = t\<lparr>children := children t @ cs\<rparr>"
    using * [of k] by (auto split: option.splits)
  show "txs k = Some t \<Longrightarrow> \<exists>cs. txs' k = Some (t\<lparr>children := children t @ cs\<rparr>) \<and> (k \<in> parents \<longrightarrow> s \<in> set cs)"
    using * [of k] by simp
  have "k \<in> dom txs' \<longleftrightarrow> k \<in> dom txs" for k using * [of k] by (auto split: option.splits)
  then show "dom txs' = dom txs" by blast
qed

lemma push_children:
  "set ds \<subseteq> dom txs \<Longrightarrow> \<exists>txs'. foldE (push_child s) ds txs = Inr txs' \<and> children_grown s (set ds) txs txs'"
proof (induction ds arbitrary: txs)
  case Nil
  have "t = t\<lparr>children := children t @ []\<rparr>" for t by simp
  then show ?case by (auto simp: children_grown_def split: option.split intro!: exI [of _ "[]"])
next
  case (Cons d ds)
  then obtain td where td: "txs d = Some td" by auto
  let ?txs = "txs(d \<mapsto> td\<lparr>children := children td @ [s]\<rparr>)"
  have "set ds \<subseteq> dom ?txs" using Cons.prems by auto
  from Cons.IH [OF this] obtain txs' where loop: "foldE (push_child s) ds ?txs = Inr txs'"
    and res: "children_grown s (set ds) ?txs txs'"
    by blast
  have "case txs k of None \<Rightarrow> txs' k = None
      | Some t \<Rightarrow> \<exists>cs. txs' k = Some (t\<lparr>children := children t @ cs\<rparr>) \<and> (k \<in> set (d # ds) \<longrightarrow> s \<in> set cs)" for k
  proof (cases "k = d")
    case True
    have "?txs d = Some (td\<lparr>children := children td @ [s]\<rparr>)" by simp
    from children_grownD(2) [OF res this]
    obtain cs where "txs' d = Some (td\<lparr>children := (children td @ [s]) @ cs\<rparr>)" by auto
    then show ?thesis using True td by (auto intro!: exI [of _ "s # cs"])
  next
    case False
    with res [unfolded children_grown_def, THEN spec, of k] show ?thesis by (simp split: option.splits)
  qed
  then have "children_grown s (set (d # ds)) txs txs'" unfolding children_grown_def by blast
  moreover have "foldE (push_child s) (d # ds) txs = Inr txs'" using loop by (simp add: push_child_def td)
  ultimately show ?case by blast
qed

lemma depends_in_pool: "set (find_mempool_depends mp tx) \<subseteq> dom (transactions mp)"
  by (auto simp: find_mempool_depends_def)

text \<open>What acceptance of a new transaction does.\<close>

definition new_entry :: "nat \<Rightarrow> transaction \<Rightarrow> mempool \<Rightarrow> mempool_transaction" where
  "new_entry now tx mp =
     \<lparr>mt_transaction = tx, mt_time = now, depends = find_mempool_depends mp tx, children = []\<rparr>"

definition accepted_as ::
  "bitcoin_api \<Rightarrow> mempool_api \<Rightarrow> nat \<Rightarrow> transaction \<Rightarrow> mempool \<Rightarrow> (u64 \<rightharpoonup> mempool_transaction) \<Rightarrow> mempool \<Rightarrow> bool" where
  "accepted_as L M now tx mp txs mp' \<longleftrightarrow>
     transactions mp (short_txid L mp tx) = None
   \<and> children_grown (short_txid L mp tx) (set (find_mempool_depends mp tx)) (transactions mp) txs
   \<and> mp' = mp\<lparr>transactions := txs(short_txid L mp tx \<mapsto> new_entry now tx mp),
       mempool_size := mempool_size mp + tx_total_size M tx\<rparr>
   \<and> mempool_size mp + tx_total_size M tx \<le> max_mempool_size mp"

lemma accept_new:
  assumes "accept_to_mempool L M now tx mp = Inr mp'"
    and "transactions mp (short_txid L mp tx) = None"
  obtains txs where "accepted_as L M now tx mp txs mp'"
proof -
  from push_children [OF depends_in_pool, of "short_txid L mp tx" mp tx] obtain txs where
    "foldE (push_child (short_txid L mp tx)) (find_mempool_depends mp tx) (transactions mp) = Inr txs"
    and "children_grown (short_txid L mp tx) (set (find_mempool_depends mp tx)) (transactions mp) txs"
    by blast
  with assms show ?thesis
    by (intro that [of txs])
      (auto simp: accepted_as_def accept_to_mempool_def new_entry_def Let_def res_simps not_less)
qed

lemma accept_present:
  "transactions mp (short_txid L mp tx) \<noteq> None \<Longrightarrow> accept_to_mempool L M now tx mp = Inr mp"
  by (simp add: accept_to_mempool_def)

section \<open>The invariant is kept\<close>

text \<open>Rust allocations, hence serialised transactions, are smaller than \<^verbatim>\<open>isize::MAX\<close>.\<close>

definition sizes_bounded :: "mempool_api \<Rightarrow> bool" where
  "sizes_bounded M \<longleftrightarrow> (\<forall>tx. unat (tx_total_size M tx) < 2 ^ 63)"

lemma finite_pool [simp]: "finite (dom (txs :: u64 \<rightharpoonup> mempool_transaction))"
  by (rule finite_subset [OF subset_UNIV]) simp

lemma pool_bytes_cong:
  assumes "dom txs' = dom txs"
    and "\<And>k t'. txs' k = Some t' \<Longrightarrow> mt_transaction t' = mt_transaction (the (txs k))"
  shows "pool_bytes M txs' = pool_bytes M txs"
  unfolding pool_bytes_def assms(1) by (rule sum.cong) (use assms in force)+

text \<open>The entries of the map after an acceptance: the new one, and the old ones with their
  dependencies unchanged.\<close>

lemma accepted_cases:
  assumes "accepted_as L M now tx mp txs mp'" and "transactions mp' k = Some t"
  obtains (new) "k = short_txid L mp tx" "t = new_entry now tx mp"
    | (old) t0 cs where "k \<noteq> short_txid L mp tx" "transactions mp k = Some t0"
        "t = t0\<lparr>children := children t0 @ cs\<rparr>"
proof (cases "k = short_txid L mp tx")
  case True
  with assms show ?thesis by (intro new) (auto simp: accepted_as_def)
next
  case False
  with assms have "txs k = Some t" by (auto simp: accepted_as_def)
  with assms(1) False show ?thesis
    by (auto simp: accepted_as_def dest!: children_grownD(1) intro: old)
qed

lemma accepted_parent:
  assumes "accepted_as L M now tx mp txs mp'" and "transactions mp d = Some p"
  shows "d \<noteq> short_txid L mp tx"
    and "\<exists>cs. transactions mp' d = Some (p\<lparr>children := children p @ cs\<rparr>)
      \<and> (d \<in> set (find_mempool_depends mp tx) \<longrightarrow> short_txid L mp tx \<in> set cs)"
proof -
  show neq: "d \<noteq> short_txid L mp tx" using assms by (auto simp: accepted_as_def)
  from assms have "children_grown (short_txid L mp tx) (set (find_mempool_depends mp tx)) (transactions mp) txs"
    by (simp add: accepted_as_def)
  from children_grownD(2) [OF this assms(2)] neq assms(1)
  show "\<exists>cs. transactions mp' d = Some (p\<lparr>children := children p @ cs\<rparr>)
      \<and> (d \<in> set (find_mempool_depends mp tx) \<longrightarrow> short_txid L mp tx \<in> set cs)"
    by (auto simp: accepted_as_def)
qed

lemma accepted_keys_ok:
  assumes "accepted_as L M now tx mp txs mp'" and "keys_ok L mp"
  shows "keys_ok L mp'"
proof (unfold keys_ok_def, intro allI impI)
  fix k t assume "transactions mp' k = Some t"
  with assms(1) show "short_txid L mp' (mt_transaction t) = k"
  proof (cases rule: accepted_cases)
    case new
    with assms(1) show ?thesis by (auto simp: accepted_as_def new_entry_def short_txid_def)
  next
    case (old t0 cs)
    with assms show ?thesis by (auto simp: accepted_as_def keys_ok_def short_txid_def)
  qed
qed

lemma accepted_linked:
  assumes "accepted_as L M now tx mp txs mp'" and "linked (transactions mp)"
  shows "linked (transactions mp')"
proof (unfold linked_def, intro allI impI)
  fix k t d assume "transactions mp' k = Some t" and d: "d \<in> set (depends t)"
  with assms(1) show "\<exists>p. transactions mp' d = Some p \<and> k \<in> set (children p)"
  proof (cases rule: accepted_cases)
    case new
    with d have dep: "d \<in> set (find_mempool_depends mp tx)" by (simp add: new_entry_def)
    with depends_in_pool obtain p where "transactions mp d = Some p" by blast
    from accepted_parent(2) [OF assms(1) this] dep new show ?thesis by auto
  next
    case (old t0 cs)
    with d assms(2) obtain p where "transactions mp d = Some p" "k \<in> set (children p)"
      by (auto dest: linkedD)
    with accepted_parent(2) [OF assms(1)] show ?thesis by fastforce
  qed
qed

lemma accepted_ranked:
  assumes "accepted_as L M now tx mp txs mp'" and "linked (transactions mp)" and "ranked (transactions mp) rank"
  shows "\<exists>rank. ranked (transactions mp') rank"
proof -
  let ?s = "short_txid L mp tx"
  let ?top = "Suc (Max (insert 0 (rank ` dom (transactions mp))))"
  have "ranked (transactions mp') (rank(?s := ?top))"
  proof (unfold ranked_def, intro allI impI)
    fix k t d assume "transactions mp' k = Some t" and d: "d \<in> set (depends t)"
    with assms(1) show "(rank(?s := ?top)) d < (rank(?s := ?top)) k"
    proof (cases rule: accepted_cases)
      case new
      with d have "d \<in> dom (transactions mp)" using depends_in_pool by (auto simp: new_entry_def)
      moreover from this have "d \<noteq> ?s" using accepted_parent(1) [OF assms(1)] by auto
      ultimately show ?thesis using new by (simp add: less_Suc_eq_le)
    next
      case (old t0 cs)
      with d assms(2) obtain p where "transactions mp d = Some p" by (auto dest: linkedD)
      then have "d \<noteq> ?s" by (rule accepted_parent(1) [OF assms(1)])
      with old d assms(3) show ?thesis by (auto simp: ranked_def)
    qed
  qed
  then show ?thesis by blast
qed

lemma accepted_bytes:
  assumes "accepted_as L M now tx mp txs mp'"
  shows "pool_bytes M (transactions mp') = unat (tx_total_size M tx) + pool_bytes M (transactions mp)"
proof -
  let ?s = "short_txid L mp tx"
  have grown: "children_grown ?s (set (find_mempool_depends mp tx)) (transactions mp) txs"
    and mp': "transactions mp' = txs(?s \<mapsto> new_entry now tx mp)"
    and none: "transactions mp ?s = None"
    using assms by (simp_all add: accepted_as_def)
  have fresh: "?s \<notin> dom txs" unfolding children_grownD(3) [OF grown] using none by blast
  have "pool_bytes M txs = pool_bytes M (transactions mp)"
    by (rule pool_bytes_cong [OF children_grownD(3) [OF grown]]) (auto dest!: children_grownD(1) [OF grown])
  moreover have "(\<Sum>k \<in> dom txs. unat (tx_total_size M (mt_transaction (the ((txs(?s \<mapsto> new_entry now tx mp)) k)))))
      = pool_bytes M txs"
    unfolding pool_bytes_def using fresh by (intro sum.cong) auto
  ultimately show ?thesis
    using fresh by (simp add: pool_bytes_def mp') (simp add: new_entry_def)
qed

lemma accept_inv:
  assumes inv: "mempool_inv L M mp" and sizes: "sizes_bounded M" "unat (max_mempool_size mp) < 2 ^ 63"
    and acc: "accept_to_mempool L M now tx mp = Inr mp'"
  shows "mempool_inv L M mp'"
proof (cases "transactions mp (short_txid L mp tx)")
  case Some
  then show ?thesis using acc inv accept_present [of mp L tx M now] by simp
next
  case None
  from accept_new [OF acc None] obtain txs where acc': "accepted_as L M now tx mp txs mp'" .
  have "unat (mempool_size mp) < 2 ^ 63"
    using inv sizes(2) by (auto simp: mempool_inv_def word_le_nat_alt)
  moreover have "unat (tx_total_size M tx) < 2 ^ 63" using sizes(1) by (simp add: sizes_bounded_def)
  ultimately have "unat (mempool_size mp + tx_total_size M tx)
      = unat (mempool_size mp) + unat (tx_total_size M tx)"
    by (intro unat_add_no_overflow) simp
  with acc' inv have "unat (mempool_size mp') = pool_bytes M (transactions mp')"
    "mempool_size mp' \<le> max_mempool_size mp'"
    using accepted_bytes [OF acc'] by (auto simp: accepted_as_def mempool_inv_def)
  with inv accepted_keys_ok [OF acc'] accepted_linked [OF acc'] accepted_ranked [OF acc']
  show ?thesis by (auto simp: mempool_inv_def)
qed

section \<open>Confirmation\<close>

lemma drop_depend_fold:
  "fold (drop_depend s) cs txs k =
     (case txs k of
        None \<Rightarrow> None
      | Some t \<Rightarrow> Some (if k \<in> set cs then t\<lparr>depends := filter (\<lambda>d. d \<noteq> s) (depends t)\<rparr> else t))"
  by (induction cs arbitrary: txs) (auto simp: drop_depend_def split: option.splits)

lemma consumed_entry:
  assumes "transactions mp (short_txid L mp tx) = Some removed"
    and "transactions (consume_transaction L M tx mp) k = Some t"
  obtains t0 where "k \<noteq> short_txid L mp tx" "transactions mp k = Some t0" "mt_transaction t = mt_transaction t0"
    "children t = children t0"
    "depends t = (if k \<in> set (children removed) then filter (\<lambda>d. d \<noteq> short_txid L mp tx) (depends t0) else depends t0)"
  using assms by (auto simp: consume_transaction_def Let_def drop_depend_fold split: option.splits if_splits)

lemma consumed_kept:
  assumes "transactions mp (short_txid L mp tx) = Some removed"
    and "transactions mp k = Some t0" and "k \<noteq> short_txid L mp tx"
  shows "\<exists>t. transactions (consume_transaction L M tx mp) k = Some t \<and> mt_transaction t = mt_transaction t0
    \<and> children t = children t0"
  using assms by (auto simp: consume_transaction_def Let_def drop_depend_fold)

lemma consumed_absent:
  "transactions mp (short_txid L mp tx) = None \<Longrightarrow> consume_transaction L M tx mp = mp"
  by (simp add: consume_transaction_def)

lemma consumed_frame [simp]:
  "hasher (consume_transaction L M tx mp) = hasher mp"
  "max_mempool_size (consume_transaction L M tx mp) = max_mempool_size mp"
  by (simp_all add: consume_transaction_def Let_def split: option.split)

lemma short_txid_consumed [simp]: "short_txid L (consume_transaction L M tx mp) = short_txid L mp"
  by (simp add: short_txid_def fun_eq_iff)

lemma consumed_bytes:
  assumes "transactions mp (short_txid L mp tx) = Some removed"
  shows "pool_bytes M (transactions (consume_transaction L M tx mp)) + unat (tx_total_size M (mt_transaction removed))
     = pool_bytes M (transactions mp)"
proof -
  let ?s = "short_txid L mp tx" and ?txs = "transactions mp"
  have "pool_bytes M (transactions (consume_transaction L M tx mp)) = pool_bytes M (?txs(?s := None))"
  proof (rule pool_bytes_cong)
    show "dom (transactions (consume_transaction L M tx mp)) = dom (?txs(?s := None))"
      using assms by (auto simp: consume_transaction_def Let_def drop_depend_fold split: option.splits if_splits)
    show "mt_transaction t' = mt_transaction (the ((?txs(?s := None)) k))"
      if "transactions (consume_transaction L M tx mp) k = Some t'" for k t'
      using assms that by (rule consumed_entry) simp
  qed
  also have "\<dots> = (\<Sum>k \<in> dom ?txs - {?s}. unat (tx_total_size M (mt_transaction (the (?txs k)))))"
    unfolding pool_bytes_def by (rule sum.cong) auto
  finally show ?thesis
    using assms sum.remove [of "dom ?txs" ?s "\<lambda>k. unat (tx_total_size M (mt_transaction (the (?txs k))))"]
    by (simp add: pool_bytes_def domI)
qed

lemma consume_transaction_inv:
  assumes inv: "mempool_inv L M mp"
  shows "mempool_inv L M (consume_transaction L M tx mp)"
proof (cases "transactions mp (short_txid L mp tx)")
  case None
  then show ?thesis using inv by (simp add: consumed_absent)
next
  case (Some removed)
  let ?s = "short_txid L mp tx" and ?mp = "consume_transaction L M tx mp"
  have "keys_ok L ?mp"
    using inv by (auto simp: keys_ok_def mempool_inv_def elim!: consumed_entry [OF Some])
  moreover have "linked (transactions ?mp)"
  proof (unfold linked_def, intro allI impI)
    fix k t d assume k: "transactions ?mp k = Some t" and d: "d \<in> set (depends t)"
    from consumed_entry [OF Some k] obtain t0 where t0: "k \<noteq> ?s" "transactions mp k = Some t0"
      "depends t = (if k \<in> set (children removed) then filter (\<lambda>d. d \<noteq> ?s) (depends t0) else depends t0)"
      by metis
    with d have "d \<in> set (depends t0)" by (auto split: if_splits)
    with inv t0 obtain p where p: "transactions mp d = Some p" "k \<in> set (children p)"
      by (auto simp: mempool_inv_def dest: linkedD)
    with Some d t0(3) have "d \<noteq> ?s" by (auto split: if_splits)
    from consumed_kept [OF Some p(1) this, of M] p(2) show "\<exists>p. transactions ?mp d = Some p \<and> k \<in> set (children p)"
      by auto
  qed
  moreover have "\<exists>rank. ranked (transactions ?mp) rank"
  proof -
    obtain rank where "ranked (transactions mp) rank" using inv by (auto simp: mempool_inv_def)
    then have "ranked (transactions ?mp) rank"
      by (auto simp: ranked_def elim!: consumed_entry [OF Some] split: if_splits)
    then show ?thesis by blast
  qed
  moreover have "unat (mempool_size ?mp) = pool_bytes M (transactions ?mp)" "mempool_size ?mp \<le> max_mempool_size ?mp"
  proof -
    have le: "tx_total_size M (mt_transaction removed) \<le> mempool_size mp"
      using inv consumed_bytes [OF Some, of M] by (simp add: mempool_inv_def word_le_nat_alt)
    have sz: "mempool_size ?mp = mempool_size mp - tx_total_size M (mt_transaction removed)"
      by (simp add: consume_transaction_def Let_def Some)
    from le inv consumed_bytes [OF Some, of M] show "unat (mempool_size ?mp) = pool_bytes M (transactions ?mp)"
      by (simp add: sz unat_sub_no_underflow mempool_inv_def)
    from le inv show "mempool_size ?mp \<le> max_mempool_size ?mp"
      by (auto simp: sz mempool_inv_def word_le_nat_alt unat_sub_no_underflow)
  qed
  ultimately show ?thesis by (simp add: mempool_inv_def)
qed

lemma consume_block_inv: "mempool_inv L M mp \<Longrightarrow> mempool_inv L M (snd (consume_block L M b mp))"
proof -
  have "mempool_inv L M mp \<Longrightarrow> mempool_inv L M (fold (consume_transaction L M) txs mp)" for txs
    by (induction txs arbitrary: mp) (simp_all add: consume_transaction_inv)
  then show "mempool_inv L M mp \<Longrightarrow> mempool_inv L M (snd (consume_block L M b mp))"
    by (simp add: consume_block_def)
qed

section \<open>Reachable pools\<close>

inductive mempool_reachable :: "bitcoin_api \<Rightarrow> mempool_api \<Rightarrow> usize \<Rightarrow> mempool \<Rightarrow> bool"
  for L :: bitcoin_api and M :: mempool_api and max_size :: usize where
  start: "mempool_reachable L M max_size (mempool_new h max_size)"
| accept: "mempool_reachable L M max_size mp \<Longrightarrow> accept_to_mempool L M now tx mp = Inr mp' \<Longrightarrow>
     mempool_reachable L M max_size mp'"
| consume: "mempool_reachable L M max_size mp \<Longrightarrow> mempool_reachable L M max_size (snd (consume_block L M b mp))"

lemma accept_max_size: "accept_to_mempool L M now tx mp = Inr mp' \<Longrightarrow> max_mempool_size mp' = max_mempool_size mp"
  by (auto simp: accept_to_mempool_def Let_def res_simps split: if_splits)

lemma consume_max_size: "max_mempool_size (snd (consume_block L M b mp)) = max_mempool_size mp"
proof -
  have "max_mempool_size (fold (consume_transaction L M) txs mp) = max_mempool_size mp" for txs
    by (induction txs arbitrary: mp) simp_all
  then show ?thesis by (simp add: consume_block_def)
qed

lemma mempool_new_inv: "mempool_inv L M (mempool_new h max_size)"
  by (simp add: mempool_inv_def mempool_new_def keys_ok_def linked_def ranked_def pool_bytes_def)

lemma reachable_inv:
  assumes "sizes_bounded M" and "unat max_size < 2 ^ 63"
  shows "mempool_reachable L M max_size mp \<Longrightarrow> mempool_inv L M mp \<and> max_mempool_size mp = max_size"
proof (induction rule: mempool_reachable.induct)
  case (start h)
  then show ?case by (simp add: mempool_new_inv) (simp add: mempool_new_def)
next
  case (accept mp now tx mp')
  then show ?case using assms accept_inv accept_max_size by blast
next
  case (consume mp b)
  then show ?case by (simp add: consume_block_inv consume_max_size)
qed

section \<open>Block templates\<close>

text \<open>A list of held transactions in which each one comes once, after all those it depends on.\<close>

inductive placed :: "mempool \<Rightarrow> transaction list \<Rightarrow> bool" for mp :: mempool where
  empty: "placed mp []"
| snoc: "placed mp txs \<Longrightarrow> transactions mp k = Some t \<Longrightarrow> mt_transaction t \<notin> set txs \<Longrightarrow>
    (\<And>d. d \<in> set (depends t) \<Longrightarrow> mt_transaction (the (transactions mp d)) \<in> set txs) \<Longrightarrow>
    placed mp (txs @ [mt_transaction t])"

definition held :: "mempool \<Rightarrow> u64 \<Rightarrow> transaction" where
  "held mp k = mt_transaction (the (transactions mp k))"

text \<open>A step that extends a placed list by transactions whose rank satisfies a bound.\<close>

definition extends :: "mempool \<Rightarrow> (u64 \<Rightarrow> bool) \<Rightarrow> transaction list \<Rightarrow> transaction list \<Rightarrow> bool" where
  "extends mp low txs txs' \<longleftrightarrow> placed mp txs' \<and> set txs \<subseteq> set txs'
     \<and> set txs' \<subseteq> set txs \<union> held mp ` {j \<in> dom (transactions mp). low j}"

lemma extends_trans: "extends mp low a b \<Longrightarrow> extends mp low b c \<Longrightarrow> extends mp low a c"
  unfolding extends_def by blast

lemma extends_weaken: "extends mp low a b \<Longrightarrow> (\<And>j. low j \<Longrightarrow> low' j) \<Longrightarrow> extends mp low' a b"
  unfolding extends_def by blast

definition height_of :: "mempool \<Rightarrow> (u64 \<Rightarrow> nat) \<Rightarrow> u64 \<Rightarrow> nat" where
  "height_of mp rank k = card {j \<in> dom (transactions mp). rank j < rank k}"

lemma finite_keys [simp]: "finite {j \<in> dom (transactions mp). P j}"
  by (rule finite_subset [OF _ finite_pool]) auto

lemma height_of_less: "d \<in> dom (transactions mp) \<Longrightarrow> rank d < rank k \<Longrightarrow> height_of mp rank d < height_of mp rank k"
  unfolding height_of_def by (rule psubset_card_mono) auto

lemma height_of_bound: "k \<in> dom (transactions mp) \<Longrightarrow> height_of mp rank k < card (dom (transactions mp))"
  unfolding height_of_def by (rule psubset_card_mono) auto

lemma held_inj: "keys_ok L mp \<Longrightarrow> j \<in> dom (transactions mp) \<Longrightarrow> k \<in> dom (transactions mp) \<Longrightarrow>
    held mp j = held mp k \<Longrightarrow> j = k"
  unfolding keys_ok_def held_def by (metis domD option.sel)

lemma add_dependencies_ok:
  assumes step: "\<And>k txs. k \<in> dom (transactions mp) \<Longrightarrow> height_of mp rank k < fuel \<Longrightarrow> placed mp txs \<Longrightarrow>
      \<exists>txs'. add_transaction_to_block fuel mp k txs = Some (Inr txs')
        \<and> extends mp (\<lambda>j. rank j \<le> rank k) txs txs' \<and> held mp k \<in> set txs'"
  shows "placed mp txs \<Longrightarrow>
    (\<And>d. d \<in> set ds \<Longrightarrow> d \<in> dom (transactions mp) \<and> height_of mp rank d < fuel \<and> rank d < r) \<Longrightarrow>
    \<exists>txs'. add_dependencies fuel mp ds txs = Some (Inr txs')
      \<and> extends mp (\<lambda>j. rank j < r) txs txs' \<and> held mp ` set ds \<subseteq> set txs'"
proof (induction ds arbitrary: txs)
  case Nil
  then show ?case by (simp add: extends_def)
next
  case (Cons d ds)
  have d: "d \<in> dom (transactions mp)" "height_of mp rank d < fuel" "rank d < r" using Cons.prems(2) by auto
  from step [OF d(1,2) Cons.prems(1)] obtain txs1 where one: "add_transaction_to_block fuel mp d txs = Some (Inr txs1)"
    "extends mp (\<lambda>j. rank j \<le> rank d) txs txs1" "held mp d \<in> set txs1"
    by blast
  from one(2) d(3) have e1: "extends mp (\<lambda>j. rank j < r) txs txs1" by (auto intro: extends_weaken)
  have "placed mp txs1" using one(2) by (simp add: extends_def)
  with Cons.IH [of txs1] Cons.prems(2) obtain txs2 where two: "add_dependencies fuel mp ds txs1 = Some (Inr txs2)"
    "extends mp (\<lambda>j. rank j < r) txs1 txs2" "held mp ` set ds \<subseteq> set txs2"
    by auto
  have "held mp d \<in> set txs2" using one(3) two(2) by (auto simp: extends_def)
  with one(1) two extends_trans [OF e1 two(2)] show ?case by simp
qed

lemma add_transaction_ok:
  assumes keys: "keys_ok L mp" and linked: "linked (transactions mp)" and rank: "ranked (transactions mp) rank"
  shows "k \<in> dom (transactions mp) \<Longrightarrow> height_of mp rank k < fuel \<Longrightarrow> placed mp txs \<Longrightarrow>
    \<exists>txs'. add_transaction_to_block fuel mp k txs = Some (Inr txs')
      \<and> extends mp (\<lambda>j. rank j \<le> rank k) txs txs' \<and> held mp k \<in> set txs'"
proof (induction fuel arbitrary: k txs)
  case 0
  then show ?case by simp
next
  case (Suc fuel)
  then obtain t where t: "transactions mp k = Some t" by auto
  show ?case
  proof (cases "mt_transaction t \<in> set txs")
    case True
    with t Suc.prems(3) show ?thesis by (simp add: extends_def held_def)
  next
    case False
    have deps: "d \<in> dom (transactions mp) \<and> height_of mp rank d < fuel \<and> rank d < rank k" if "d \<in> set (depends t)" for d
    proof -
      from linkedD [OF linked t that] have "d \<in> dom (transactions mp)" by auto
      moreover have "rank d < rank k" using rank t that by (auto simp: ranked_def)
      ultimately show ?thesis using height_of_less [of d mp rank k] Suc.prems(2) by simp
    qed
    from add_dependencies_ok [OF Suc.IH Suc.prems(3) deps]
    obtain txs1 where one: "add_dependencies fuel mp (depends t) txs = Some (Inr txs1)"
      "extends mp (\<lambda>j. rank j < rank k) txs txs1" "held mp ` set (depends t) \<subseteq> set txs1"
      by blast
    have "held mp k \<notin> held mp ` {j \<in> dom (transactions mp). rank j < rank k}"
      using held_inj [OF keys Suc.prems(1)] by fastforce
    with False one(2) have fresh: "mt_transaction t \<notin> set txs1" by (auto simp: extends_def held_def t)
    have "placed mp (txs1 @ [mt_transaction t])"
      using one t fresh by (intro placed.snoc) (auto simp: extends_def held_def)
    moreover have "held mp k = mt_transaction t" by (simp add: held_def t)
    moreover have "extends mp (\<lambda>j. rank j \<le> rank k) txs txs1" using one(2) by (rule extends_weaken) simp
    ultimately have "extends mp (\<lambda>j. rank j \<le> rank k) txs (txs1 @ [mt_transaction t])"
      using Suc.prems(1) by (auto simp: extends_def intro: image_eqI [of _ _ k])
    with t False one(1) show ?thesis by (simp add: held_def)
  qed
qed

lemma template_loop_ok:
  assumes inv: "keys_ok L mp" "linked (transactions mp)" "ranked (transactions mp) rank"
    and fuel: "card (dom (transactions mp)) \<le> fuel"
  shows "set order \<subseteq> dom (transactions mp) \<Longrightarrow> placed mp txs \<Longrightarrow>
    \<exists>txs'. template_loop fuel L M mp max_weight order weight txs = Some (Inr txs') \<and> placed mp txs'"
proof (induction order arbitrary: weight txs)
  case Nil
  then show ?case by simp
next
  case (Cons k ks)
  then have k: "k \<in> dom (transactions mp)" and "set ks \<subseteq> dom (transactions mp)" by auto
  moreover have "short_txid L mp (mt_transaction (the (transactions mp k))) = k"
    using inv(1) k by (auto simp: keys_ok_def)
  moreover have "height_of mp rank k < fuel" using height_of_bound [OF k, of rank] fuel by simp
  from add_transaction_ok [OF inv k this Cons.prems(2)] obtain txs1 where
    "add_transaction_to_block fuel mp k txs = Some (Inr txs1)" "placed mp txs1"
    by (auto simp: extends_def)
  ultimately show ?case using Cons.IH Cons.prems(2) by (simp add: Let_def)
qed

lemma placed_distinct: "placed mp txs \<Longrightarrow> distinct txs"
  by (induction rule: placed.induct) auto

lemma placed_depends:
  assumes "placed mp txs"
  shows "\<And>i. i < length txs \<Longrightarrow> \<exists>k t. transactions mp k = Some t \<and> mt_transaction t = txs ! i
    \<and> (\<forall>d \<in> set (depends t). \<exists>j < i. txs ! j = held mp d)"
  using assms
proof (induction rule: placed.induct)
  case empty
  then show ?case by simp
next
  case (snoc txs k t)
  show ?case
  proof (cases "i < length txs")
    case True
    with snoc.IH [OF True] show ?thesis by (fastforce simp: nth_append)
  next
    case False
    with snoc.prems have "i = length txs" by simp
    moreover have "\<exists>j < length txs. txs ! j = held mp d" if "d \<in> set (depends t)" for d
      using snoc.hyps(4) [OF that] by (auto simp: in_set_conv_nth held_def)
    ultimately show ?thesis using snoc.hyps(2) by (fastforce simp: nth_append)
  qed
qed

lemma template_ok:
  assumes "mempool_inv L M mp" and "set order \<subseteq> dom (transactions mp)" and "card (dom (transactions mp)) \<le> fuel"
  shows "\<exists>b. get_block_template fuel L M order version prev time bits max_weight mp = Some (Inr b) \<and> placed mp (txdata b)"
proof -
  from assms(1) obtain rank where "keys_ok L mp" "linked (transactions mp)" "ranked (transactions mp) rank"
    by (auto simp: mempool_inv_def)
  from template_loop_ok [OF this assms(3,2) placed.empty, of M max_weight 0] show ?thesis
    by (auto simp: get_block_template_def Let_def)
qed

section \<open>Retrieval\<close>

lemma accept_get:
  assumes "accept_to_mempool L M now tx mp = Inr mp'" and "get_from_mempool mp (compute_txid L tx) = None"
  shows "get_from_mempool mp' txid =
    (if hasher mp txid = hasher mp (compute_txid L tx) then Some tx else get_from_mempool mp txid)"
proof -
  have none: "transactions mp (short_txid L mp tx) = None"
    using assms(2) by (simp add: get_from_mempool_def short_txid_def)
  from accept_new [OF assms(1) none] obtain txs where acc: "accepted_as L M now tx mp txs mp'" .
  then have frame: "hasher mp' = hasher mp" by (simp add: accepted_as_def)
  show ?thesis
  proof (cases "transactions mp' (hasher mp txid)")
    case None
    with acc accepted_parent(2) [OF acc, of "hasher mp txid"] show ?thesis
      by (cases "transactions mp (hasher mp txid)")
        (auto simp: get_from_mempool_def frame accepted_as_def short_txid_def split: if_splits)
  next
    case (Some t)
    from acc Some show ?thesis
      by (cases rule: accepted_cases)
        (use Some in \<open>auto simp: get_from_mempool_def frame new_entry_def short_txid_def\<close>)
  qed
qed

lemma consume_transaction_get:
  "get_from_mempool (consume_transaction L M tx mp) txid =
     (if hasher mp txid = short_txid L mp tx then None else get_from_mempool mp txid)"
  by (auto simp: get_from_mempool_def consume_transaction_def Let_def drop_depend_fold split: option.split)

lemma consume_transactions_get:
  "get_from_mempool (fold (consume_transaction L M) txs mp) txid =
     (if hasher mp txid \<in> short_txid L mp ` set txs then None else get_from_mempool mp txid)"
  by (induction txs arbitrary: mp) (simp_all add: consume_transaction_get)

section \<open>Correctness\<close>

definition demo_mempool_api :: mempool_api where
  "demo_mempool_api = \<lparr>tx_total_size = (\<lambda>tx. 100), tx_weight = (\<lambda>tx. 400), compute_merkle_root = (\<lambda>b. Some [7])\<rparr>"

definition demo_hasher :: "hash \<Rightarrow> u64" where
  "demo_hasher h = (case h of [] \<Rightarrow> 0 | byte # _ \<Rightarrow> ucast byte)"

text \<open>A parent and a child spending its output.\<close>

definition pay :: "hash \<Rightarrow> u64 \<Rightarrow> transaction" where
  "pay coin amount = \<lparr>tx_version = 2, lock_time = Blocks 0,
     tx_input = [\<lparr>previous_output = \<lparr>op_txid = coin, op_vout = 0\<rparr>, script_sig = [1], sequence = 10, witness = []\<rparr>],
     tx_output = [\<lparr>value_sat = amount, script_pubkey = [1]\<rparr>]\<rparr>"

definition accept_all :: "transaction list \<Rightarrow> mempool_error + mempool" where
  "accept_all txs = foldE (accept_to_mempool example_api demo_mempool_api 0) txs (mempool_new demo_hasher 1000)"

definition demo_pool :: mempool where
  "demo_pool = mempool_new demo_hasher 1000\<lparr>
     transactions := [60 \<mapsto> \<lparr>mt_transaction = pay [9] 60, mt_time = 0, depends = [], children = [50]\<rparr>,
                      50 \<mapsto> \<lparr>mt_transaction = pay [60] 50, mt_time = 0, depends = [60], children = []\<rparr>],
     mempool_size := 200\<rparr>"

lemma pay_context_free [simp]:
  assumes "length coin = 1" and "unat v \<le> 1000"
  shows "check_transaction_context_free example_api (pay coin v) = Inr v"
proof -
  have "coin \<noteq> all_zeros" using assms(1) by (auto simp: all_zeros_def)
  moreover have "\<not> 2100000000000000 < v" using assms(2) by (simp add: word_less_nat_alt)
  ultimately show ?thesis using assms(2)
    by (simp add: check_transaction_context_free_def pay_def example_api_def demo_api_def is_unspendable_def
        validate_script_size_def total_out_value_def has_duplicate_inputs_def MAX_SCRIPT_SIZE_def Let_def
        checked_add_def)
qed

lemma pay_simps [simp]:
  "tx_input (pay coin v) = [\<lparr>previous_output = \<lparr>op_txid = coin, op_vout = 0\<rparr>, script_sig = [1], sequence = 10, witness = []\<rparr>]"
  "compute_txid example_api (pay coin v) = [ucast v]"
  "pay coin v = pay coin' v' \<longleftrightarrow> coin = coin' \<and> v = v'"
  by (auto simp: pay_def example_api_def)

lemma demo_api_simps [simp]:
  "tx_total_size demo_mempool_api tx = 100" "tx_weight demo_mempool_api tx = 400"
  "compute_merkle_root demo_mempool_api b = Some [7]"
  by (simp_all add: demo_mempool_api_def)

lemmas mempool_run = accept_all_def accept_to_mempool_def short_txid_def check_for_conflicts_def
  find_mempool_depends_def is_already_spent_def push_child_def mempool_new_def demo_hasher_def all_zeros_def

lemma demo_pool_accepted: "accept_all [pay [9] 60, pay [60] 50] = Inr demo_pool"
  by (simp add: mempool_run demo_pool_def)

lemma demo_pool_reachable: "mempool_reachable example_api demo_mempool_api 1000 demo_pool"
proof -
  have "mempool_reachable L M ms mp \<Longrightarrow> foldE (accept_to_mempool L M now) txs mp = Inr mp' \<Longrightarrow>
      mempool_reachable L M ms mp'" for L M ms now txs mp mp'
    by (induction txs arbitrary: mp) (auto simp: res_simps intro: mempool_reachable.accept)
  from this [OF mempool_reachable.start demo_pool_accepted [unfolded accept_all_def]] show ?thesis .
qed

lemma demo_sizes_bounded: "sizes_bounded demo_mempool_api"
  by (simp add: sizes_bounded_def)

text \<open>C29. In every pool reached from an empty one by accepted transactions and confirmed blocks, keys are
  the short ids of their transactions, every recorded dependency is held and lists its dependant
  as a child, dependencies are acyclic, and the recorded size is the exact sum of the sizes held
  and within the limit: neither the addition on acceptance nor the subtraction on confirmation wraps.\<close>

theorem mempool_bookkeeping:
  assumes "sizes_bounded M" and "unat max_size < 2 ^ 63" and "mempool_reachable L M max_size mp"
  shows "mempool_inv L M mp \<and> max_mempool_size mp = max_size"
  using reachable_inv [OF assms] .

theorem mempool_bookkeeping_witness:
  "mempool_inv example_api demo_mempool_api demo_pool \<and> max_mempool_size demo_pool = 1000"
  by (rule mempool_bookkeeping [OF demo_sizes_bounded _ demo_pool_reachable]) simp

text \<open>C28. On every reachable pool the recursive assembly of a block template ends without a panic, with fuel
  for one level per held transaction, whatever the order in which the map is traversed; the
  template holds each transaction once, and each one after all the held transactions recorded as
  its dependencies.\<close>

theorem template_complete:
  assumes "sizes_bounded M" and "unat max_size < 2 ^ 63" and "mempool_reachable L M max_size mp"
    and "set order \<subseteq> dom (transactions mp)" and "card (dom (transactions mp)) \<le> fuel"
  shows "\<exists>b. get_block_template fuel L M order version prev time bits max_weight mp = Some (Inr b)
    \<and> distinct (txdata b)
    \<and> (\<forall>i < length (txdata b). \<exists>k t. transactions mp k = Some t \<and> mt_transaction t = txdata b ! i
         \<and> (\<forall>d \<in> set (depends t). \<exists>j < i. txdata b ! j = held mp d))"
proof -
  from reachable_inv [OF assms(1-3)] have "mempool_inv L M mp" by simp
  from template_ok [OF this assms(4,5), of version prev time bits max_weight] obtain b where
    "get_block_template fuel L M order version prev time bits max_weight mp = Some (Inr b)" "placed mp (txdata b)"
    by blast
  with placed_distinct placed_depends show ?thesis by blast
qed

theorem template_complete_witness:
  "\<exists>b. get_block_template 2 example_api demo_mempool_api [50, 60] 1 [] 0 0 4000 demo_pool = Some (Inr b)
    \<and> distinct (txdata b)
    \<and> (\<forall>i < length (txdata b). \<exists>k t. transactions demo_pool k = Some t \<and> mt_transaction t = txdata b ! i
         \<and> (\<forall>d \<in> set (depends t). \<exists>j < i. txdata b ! j = held demo_pool d))"
  by (rule template_complete [OF demo_sizes_bounded _ demo_pool_reachable]) (simp_all add: demo_pool_def mempool_new_def)

text \<open>A transaction accepted under an unused short id is returned by a lookup of its txid, and lookups of
  ids with another short id are unaffected.\<close>

theorem accept_then_get:
  assumes "accept_to_mempool L M now tx mp = Inr mp'" and "get_from_mempool mp (compute_txid L tx) = None"
  shows "get_from_mempool mp' (compute_txid L tx) = Some tx
    \<and> (\<forall>txid. hasher mp txid \<noteq> hasher mp (compute_txid L tx) \<longrightarrow> get_from_mempool mp' txid = get_from_mempool mp txid)"
  using accept_get [OF assms] by simp

theorem accept_then_get_witness:
  "\<exists>mp'. accept_to_mempool example_api demo_mempool_api 5 (pay [50] 40) demo_pool = Inr mp'
    \<and> get_from_mempool mp' [40] = Some (pay [50] 40) \<and> get_from_mempool mp' [60] = Some (pay [9] 60)"
proof -
  obtain mp' where acc: "accept_to_mempool example_api demo_mempool_api 5 (pay [50] 40) demo_pool = Inr mp'"
    by (simp add: mempool_run demo_pool_def Let_def)
  have "get_from_mempool demo_pool [40] = None" "get_from_mempool demo_pool [60] = Some (pay [9] 60)"
    "hasher demo_pool [60] \<noteq> hasher demo_pool [40]"
    by (simp_all add: get_from_mempool_def demo_pool_def mempool_new_def demo_hasher_def)
  with accept_then_get [OF acc] acc show ?thesis by simp
qed

text \<open>After a block is confirmed, the pool holds no transaction with the short id of one of the block, and
  still returns every other transaction it held.\<close>

theorem consume_block_exact:
  "get_from_mempool (snd (consume_block L M b mp)) txid =
     (if hasher mp txid \<in> short_txid L mp ` set (txdata b) then None else get_from_mempool mp txid)"
  by (simp add: consume_block_def consume_transactions_get)


text \<open>A template can weigh more than the requested limit: the weight of the dependencies pulled in by a
  transaction is not counted.\<close>

lemma template_exceeds_weight:
  "\<exists>b. get_block_template 2 example_api demo_mempool_api [50, 60] 1 [] 0 0 400 demo_pool = Some (Inr b)
    \<and> (\<Sum>tx \<leftarrow> txdata b. tx_weight demo_mempool_api tx) = 800"
proof -
  have "template_loop (Suc (Suc 0)) example_api demo_mempool_api demo_pool 400 [50, 60] 0 []
      = Some (Inr [pay [9] 60, pay [60] 50])"
    by (simp add: demo_pool_def mempool_new_def short_txid_def demo_hasher_def)
  then show ?thesis by (simp add: get_block_template_def numeral_2_eq_2)
qed

text \<open>Dependencies are only recorded when the parent is already held: a child submitted first may
  precede its parent in a template.\<close>

lemma child_before_parent:
  "\<exists>mp b. accept_all [pay [60] 50, pay [9] 60] = Inr mp
    \<and> get_block_template 2 example_api demo_mempool_api [50, 60] 1 [] 0 0 4000 mp = Some (Inr b)
    \<and> txdata b = [pay [60] 50, pay [9] 60]"
proof -
  let ?mp = "mempool_new demo_hasher 1000\<lparr>
     transactions := [50 \<mapsto> \<lparr>mt_transaction = pay [60] 50, mt_time = 0, depends = [], children = []\<rparr>,
                      60 \<mapsto> \<lparr>mt_transaction = pay [9] 60, mt_time = 0, depends = [], children = []\<rparr>],
     mempool_size := 200\<rparr>"
  have "accept_all [pay [60] 50, pay [9] 60] = Inr ?mp" by (simp add: mempool_run)
  moreover have "template_loop (Suc (Suc 0)) example_api demo_mempool_api ?mp 4000 [50, 60] 0 []
      = Some (Inr [pay [60] 50, pay [9] 60])"
    by (simp add: mempool_new_def short_txid_def demo_hasher_def)
  ultimately show ?thesis by (simp add: get_block_template_def numeral_2_eq_2)
qed

end
