(* ===== verification/Chain_Store.thy ===== *)
theory Chain_Store
  imports Errors
begin

text \<open>
  \<^verbatim>\<open>chainstore.rs\<close>: the header a store keeps with its validation state, the description of the best
  chain, and their encodings. The encoders and decoders of the primitive types are rust-bitcoin's
  and are the fields of \<open>store_codecs\<close>; a decoder returns what is left to read with its result.
\<close>

section \<open>Definitions\<close>

datatype chain_store_warning = HeaderStorageFull | BlockIndexFull

datatype disk_block_header =
    FullyValid header u32
  | AssumedValid header u32
  | Orphan header
  | HeadersOnly header u32
  | InFork header u32
  | InvalidChain header

fun header_of :: "disk_block_header \<Rightarrow> header" where
  "header_of (FullyValid h _) = h"
| "header_of (Orphan h) = h"
| "header_of (HeadersOnly h _) = h"
| "header_of (InFork h _) = h"
| "header_of (InvalidChain h) = h"
| "header_of (AssumedValid h _) = h"

definition disk_block_hash :: "bitcoin_api \<Rightarrow> disk_block_header \<Rightarrow> hash" where
  "disk_block_hash L d = block_hash L (header_of d)"

fun disk_height :: "disk_block_header \<Rightarrow> u32 option" where
  "disk_height (InFork _ height) = Some height"
| "disk_height (FullyValid _ height) = Some height"
| "disk_height (HeadersOnly _ height) = Some height"
| "disk_height (AssumedValid _ height) = Some height"
| "disk_height (Orphan _) = None"
| "disk_height (InvalidChain _) = None"

definition try_height :: "disk_block_header \<Rightarrow> blockchain_error + u32" where
  "try_height d = ok_or OrphanOrInvalidBlock (disk_height d)"

record 'a codec =
  enc :: "'a \<Rightarrow> bytes"
  dec :: "bytes \<Rightarrow> string + 'a \<times> bytes"

record store_codecs =
  c_u8 :: "u8 codec"
  c_u32 :: "u32 codec"
  c_header :: "header codec"
  c_hash :: "hash codec"
  c_hashes :: "hash list codec"

definition disk_header_decode :: "store_codecs \<Rightarrow> bytes \<Rightarrow> string + disk_block_header \<times> bytes" where
  "disk_header_decode C reader =
     bindE (dec (c_u8 C) reader) (\<lambda>(tag, reader).
     bindE (dec (c_header C) reader) (\<lambda>(hdr, reader).
     if tag = 0x00 then bindE (dec (c_u32 C) reader) (\<lambda>(height, reader). Inr (FullyValid hdr height, reader))
     else if tag = 0x01 then Inr (Orphan hdr, reader)
     else if tag = 0x02 then bindE (dec (c_u32 C) reader) (\<lambda>(height, reader). Inr (HeadersOnly hdr height, reader))
     else if tag = 0x03 then bindE (dec (c_u32 C) reader) (\<lambda>(height, reader). Inr (InFork hdr height, reader))
     else if tag = 0x04 then Inr (InvalidChain hdr, reader)
     else if tag = 0x05 then bindE (dec (c_u32 C) reader) (\<lambda>(height, reader). Inr (AssumedValid hdr height, reader))
     else Inl ''DiskBlockHeader: invalid tag''))"

text \<open>The bytes written and the length that is returned.\<close>

fun disk_header_encode :: "store_codecs \<Rightarrow> disk_block_header \<Rightarrow> bytes \<times> nat" where
  "disk_header_encode C (FullyValid hdr height) =
     (enc (c_u8 C) 0x00 @ enc (c_header C) hdr @ enc (c_u32 C) height, 80 + 1 + 4)"
| "disk_header_encode C (Orphan hdr) = (enc (c_u8 C) 0x01 @ enc (c_header C) hdr, 80 + 1)"
| "disk_header_encode C (HeadersOnly hdr height) =
     (enc (c_u8 C) 0x02 @ enc (c_header C) hdr @ enc (c_u32 C) height, 80 + 1 + 4)"
| "disk_header_encode C (InFork hdr height) =
     (enc (c_u8 C) 0x03 @ enc (c_header C) hdr @ enc (c_u32 C) height, 80 + 1 + 4)"
| "disk_header_encode C (InvalidChain hdr) = (enc (c_u8 C) 0x04 @ enc (c_header C) hdr, 80 + 1)"
| "disk_header_encode C (AssumedValid hdr height) =
     (enc (c_u8 C) 0x05 @ enc (c_header C) hdr @ enc (c_u32 C) height, 80 + 1 + 4)"

record best_chain =
  best_block :: hash
  depth :: u32
  validation_index :: hash
  alternative_tips :: "hash list"

definition new_block :: "hash \<Rightarrow> u32 \<Rightarrow> best_chain \<Rightarrow> best_chain" where
  "new_block bhash height bc = bc\<lparr>best_block := bhash, depth := height\<rparr>"

definition valid_block :: "hash \<Rightarrow> best_chain \<Rightarrow> best_chain" where
  "valid_block bhash bc = bc\<lparr>validation_index := bhash\<rparr>"

definition best_chain_encode :: "store_codecs \<Rightarrow> best_chain \<Rightarrow> bytes \<times> nat" where
  "best_chain_encode C bc =
     (let a = enc (c_hash C) (best_block bc); b = enc (c_u32 C) (depth bc);
          c = enc (c_hash C) (validation_index bc); d = enc (c_hashes C) (alternative_tips bc)
      in (a @ b @ c @ d, length a + length b + length c + length d))"

definition best_chain_decode :: "store_codecs \<Rightarrow> bytes \<Rightarrow> string + best_chain \<times> bytes" where
  "best_chain_decode C reader =
     bindE (dec (c_hash C) reader) (\<lambda>(best, reader).
     bindE (dec (c_u32 C) reader) (\<lambda>(dep, reader).
     bindE (dec (c_hash C) reader) (\<lambda>(valid, reader).
     bindE (dec (c_hashes C) reader) (\<lambda>(tips, reader).
     Inr (\<lparr>best_block = best, depth = dep, validation_index = valid, alternative_tips = tips\<rparr>, reader)))))"

section \<open>Round trips\<close>

definition codec_ok :: "('a \<Rightarrow> bool) \<Rightarrow> 'a codec \<Rightarrow> bool" where
  "codec_ok valid c \<longleftrightarrow> (\<forall>x r. valid x \<longrightarrow> dec c (enc c x @ r) = Inr (x, r))"

definition is_hash :: "hash \<Rightarrow> bool" where
  "is_hash h \<longleftrightarrow> length h = 32"

definition is_header :: "header \<Rightarrow> bool" where
  "is_header hdr \<longleftrightarrow> is_hash (prev_blockhash hdr) \<and> is_hash (merkle_root hdr)"

text \<open>What rust-bitcoin documents of its consensus encoding: fixed widths, and decoding what was
  encoded. Hashes are 32 bytes, which Rust's type of hashes guarantees.\<close>

definition codecs_ok :: "store_codecs \<Rightarrow> bool" where
  "codecs_ok C \<longleftrightarrow> codec_ok (\<lambda>_. True) (c_u8 C) \<and> codec_ok (\<lambda>_. True) (c_u32 C) \<and> codec_ok is_header (c_header C)
     \<and> codec_ok is_hash (c_hash C) \<and> codec_ok (\<lambda>hs. list_all is_hash hs \<and> length hs < 2 ^ 32) (c_hashes C)
     \<and> (\<forall>x. length (enc (c_u8 C) x) = 1) \<and> (\<forall>x. length (enc (c_u32 C) x) = 4)
     \<and> (\<forall>x. is_header x \<longrightarrow> length (enc (c_header C) x) = 80)"

lemma codecs_okD:
  assumes "codecs_ok C"
  shows "dec (c_u8 C) (enc (c_u8 C) a @ r) = Inr (a, r)"
    and "dec (c_u32 C) (enc (c_u32 C) b @ r) = Inr (b, r)"
    and "is_header hdr \<Longrightarrow> dec (c_header C) (enc (c_header C) hdr @ r) = Inr (hdr, r)"
    and "is_hash h \<Longrightarrow> dec (c_hash C) (enc (c_hash C) h @ r) = Inr (h, r)"
    and "list_all is_hash hs \<Longrightarrow> length hs < 2 ^ 32 \<Longrightarrow> dec (c_hashes C) (enc (c_hashes C) hs @ r) = Inr (hs, r)"
    and "length (enc (c_u8 C) a) = 1" and "length (enc (c_u32 C) b) = 4"
    and "is_header hdr \<Longrightarrow> length (enc (c_header C) hdr) = 80"
  using assms by (simp_all add: codecs_ok_def codec_ok_def)

definition best_chain_wf :: "best_chain \<Rightarrow> bool" where
  "best_chain_wf bc \<longleftrightarrow> is_hash (best_block bc) \<and> is_hash (validation_index bc)
     \<and> list_all is_hash (alternative_tips bc) \<and> length (alternative_tips bc) < 2 ^ 32"

lemma disk_header_roundtrip:
  assumes "codecs_ok C" and "is_header (header_of d)"
  shows "disk_header_decode C (fst (disk_header_encode C d) @ r) = Inr (d, r)
    \<and> snd (disk_header_encode C d) = length (fst (disk_header_encode C d))"
  using assms by (cases d) (simp_all add: disk_header_decode_def codecs_okD [OF assms(1)])

lemma best_chain_roundtrip:
  assumes "codecs_ok C" and "best_chain_wf bc"
  shows "best_chain_decode C (fst (best_chain_encode C bc) @ r) = Inr (bc, r)
    \<and> snd (best_chain_encode C bc) = length (fst (best_chain_encode C bc))"
  using assms(2) by (simp add: best_chain_wf_def best_chain_encode_def best_chain_decode_def Let_def codecs_okD [OF assms(1)])


subsection \<open>A concrete codec\<close>

text \<open>Fixed-width fields read by \<open>take\<close> and \<open>drop\<close>.\<close>

definition fixed_codec :: "nat \<Rightarrow> ('a \<Rightarrow> bytes) \<Rightarrow> (bytes \<Rightarrow> 'a) \<Rightarrow> 'a codec" where
  "fixed_codec n e d = \<lparr>enc = e,
     dec = (\<lambda>bs. if length bs < n then Inl ''eof'' else Inr (d (take n bs), drop n bs))\<rparr>"

definition header_bytes :: "header \<Rightarrow> bytes" where
  "header_bytes h = u32_to_le_bytes (hdr_version h) @ prev_blockhash h @ merkle_root h
     @ u32_to_le_bytes (hdr_time h) @ u32_to_le_bytes (hdr_bits h) @ u32_to_le_bytes (hdr_nonce h)"

definition header_from_bytes :: "bytes \<Rightarrow> header" where
  "header_from_bytes bs = \<lparr>hdr_version = u32_from_le_bytes (take 4 bs), prev_blockhash = take 32 (drop 4 bs),
     merkle_root = take 32 (drop 36 bs), hdr_time = u32_from_le_bytes (take 4 (drop 68 bs)),
     hdr_bits = u32_from_le_bytes (take 4 (drop 72 bs)), hdr_nonce = u32_from_le_bytes (drop 76 bs)\<rparr>"

fun chunks :: "nat \<Rightarrow> bytes \<Rightarrow> hash list" where
  "chunks 0 bs = []"
| "chunks (Suc n) bs = take 32 bs # chunks n (drop 32 bs)"

definition demo_hashes :: "hash list codec" where
  "demo_hashes = \<lparr>enc = (\<lambda>hs. u32_to_le_bytes (of_nat (length hs)) @ concat hs),
     dec = (\<lambda>bs. let n = unat (u32_from_le_bytes (take 4 bs)) in
       if length bs < 4 + 32 * n then Inl ''eof''
       else Inr (chunks n (drop 4 bs), drop (4 + 32 * n) bs))\<rparr>"

definition demo_codecs :: store_codecs where
  "demo_codecs = \<lparr>c_u8 = fixed_codec 1 (\<lambda>b. [b]) hd, c_u32 = fixed_codec 4 u32_to_le_bytes u32_from_le_bytes,
     c_header = fixed_codec 80 header_bytes header_from_bytes, c_hash = fixed_codec 32 id id, c_hashes = demo_hashes\<rparr>"

lemma fixed_codec_ok:
  assumes "\<And>x. valid x \<Longrightarrow> length (e x) = n \<and> d (e x) = x"
  shows "codec_ok valid (fixed_codec n e d)"
  using assms by (simp add: codec_ok_def fixed_codec_def)

lemma header_bytes_ok:
  assumes "is_header x"
  shows "length (header_bytes x) = 80 \<and> header_from_bytes (header_bytes x) = x"
  using assms by (simp add: header_bytes_def header_from_bytes_def is_header_def is_hash_def)

lemma chunks_concat:
  "list_all is_hash hs \<Longrightarrow> chunks (length hs) (concat hs @ r) = hs \<and> length (concat hs) = 32 * length hs"
  by (induction hs) (simp_all add: is_hash_def)

lemma demo_hashes_ok: "codec_ok (\<lambda>hs. list_all is_hash hs \<and> length hs < 2 ^ 32) demo_hashes"
proof -
  have "dec demo_hashes (enc demo_hashes hs @ r) = Inr (hs, r)"
    if hs: "list_all is_hash hs" "length hs < 2 ^ 32" for hs r
  proof -
    have "unat (of_nat (length hs) :: u32) = length hs" using hs(2) by (simp add: unat_of_nat)
    with chunks_concat [OF hs(1)] show ?thesis
      by (simp add: demo_hashes_def Let_def)
  qed
  then show ?thesis by (simp add: codec_ok_def)
qed

lemma demo_codecs_ok: "codecs_ok demo_codecs"
proof -
  have "codec_ok (\<lambda>_. True) (c_u8 demo_codecs)" "codec_ok (\<lambda>_. True) (c_u32 demo_codecs)"
    "codec_ok is_hash (c_hash demo_codecs)"
    by (simp_all add: demo_codecs_def, (rule fixed_codec_ok, simp add: is_hash_def)+)
  moreover have "codec_ok is_header (c_header demo_codecs)"
    by (simp add: demo_codecs_def) (rule fixed_codec_ok, rule header_bytes_ok)
  ultimately show ?thesis
    using demo_hashes_ok header_bytes_ok by (simp add: codecs_ok_def demo_codecs_def fixed_codec_def)
qed

definition store_header :: "u32 \<Rightarrow> hash \<Rightarrow> header" where
  "store_header nonce prev = \<lparr>hdr_version = 4, prev_blockhash = prev, merkle_root = all_zeros, hdr_time = 1231006505,
     hdr_bits = 0x207FFFFF, hdr_nonce = nonce\<rparr>"


end
