(* ===== verification/Flat_Chain_Store.thy ===== *)
theory Flat_Chain_Store
  imports Chain_Store
begin

text \<open>
  \<^verbatim>\<open>flat_chain_store.rs\<close>: the on-disk store of headers. Headers of the best chain are in a flat file at
  the position of their height, other headers in a second file in the order they came, and an
  open-addressing table maps block hashes to tagged positions in the two files. Accumulators are
  appended to a third file.

  Memory maps are lists of their records; a record of zero bytes is \<open>zero_slot\<close>, whose hash is
  zero (the header in it is never read). The LRU cache and the checksum function are third-party
  code and are parameters; the cache's mutex is a flag that says whether it is poisoned. The
  positions of the accumulator file that the source seeks to before each access are computed at
  that access. Failures of the operating system are modelled for the synchronisation of the maps
  and for reads past the end of the accumulator file.
\<close>

section \<open>Definitions\<close>

definition FLAT_CHAINSTORE_MAGIC :: u32 where
  "FLAT_CHAINSTORE_MAGIC = 0x74736C66"

definition FLAT_CHAINSTORE_VERSION :: u32 where
  "FLAT_CHAINSTORE_VERSION = 1"

definition MAX_ACCUMULATOR_SIZE :: nat where
  "MAX_ACCUMULATOR_SIZE = 2056"

record flat_chain_store_config =
  cfg_block_index_size :: "usize option"
  cfg_headers_file_size :: "usize option"
  cfg_cache_size :: "usize option"
  cfg_fork_file_size :: "usize option"

definition config_new :: flat_chain_store_config where
  "config_new = \<lparr>cfg_block_index_size = Some 10000000, cfg_headers_file_size = Some 10000000,
     cfg_cache_size = Some 10000, cfg_fork_file_size = Some 10000\<rparr>"

record db_check_sum =
  headers_checksum :: u64
  index_checksum :: u64
  fork_headers_checksum :: u64

subsection \<open>Tagged positions\<close>

type_synonym index = u32

definition FORK_BIT :: u32 where
  "FORK_BIT = 0x80000000"

definition INDEX_MASK :: u32 where
  "INDEX_MASK = 0x7FFFFFFF"

definition index_new :: "u32 \<Rightarrow> flat_chainstore_error + index" where
  "index_new i = (if i \<ge> FORK_BIT then Inl OversizedIndex else Inr i)"

definition index_new_fork :: "u32 \<Rightarrow> flat_chainstore_error + index" where
  "index_new_fork i = (if i \<ge> FORK_BIT then Inl OversizedIndex else Inr (i OR FORK_BIT))"

definition is_main_chain :: "index \<Rightarrow> bool" where
  "is_main_chain i \<longleftrightarrow> i AND FORK_BIT = 0"

definition index_of :: "index \<Rightarrow> u32" where
  "index_of i = i AND INDEX_MASK"

definition index_is_empty :: "index \<Rightarrow> bool" where
  "index_is_empty i \<longleftrightarrow> i = 0"

subsection \<open>Records of the files\<close>

record hashed_disk_header =
  hd_header :: disk_block_header
  hd_hash :: hash
  acc_pos :: u32
  acc_len :: u32

definition zero_slot :: hashed_disk_header where
  "zero_slot = \<lparr>hd_header = FullyValid \<lparr>hdr_version = 0, prev_blockhash = all_zeros, merkle_root = all_zeros,
       hdr_time = 0, hdr_bits = 0, hdr_nonce = 0\<rparr> 0,
     hd_hash = all_zeros, acc_pos = 0, acc_len = 0\<rparr>"

record metadata =
  md_magic :: u32
  md_version :: u32
  md_best_block :: hash
  md_depth :: u32
  md_validation_index :: hash
  md_alternative_tips :: "hash list"
  fork_count :: u32
  headers_file_size :: usize
  fork_file_size :: usize
  block_index_occupancy :: usize
  index_capacity :: usize
  checksum :: db_check_sum

record metadata_v0 =
  v0_magic :: u32
  v0_version :: u32
  v0_best_block :: hash
  v0_depth :: u32
  v0_validation_index :: hash
  v0_alternative_tips :: "hash list"
  v0_assume_valid_index :: u32
  v0_fork_count :: u32
  v0_headers_file_size :: usize
  v0_fork_file_size :: usize
  v0_block_index_occupancy :: usize
  v0_index_capacity :: usize
  v0_checksum :: db_check_sum

definition metadata_from_v0 :: "metadata_v0 \<Rightarrow> metadata" where
  "metadata_from_v0 m = \<lparr>md_magic = v0_magic m, md_version = FLAT_CHAINSTORE_VERSION,
     md_best_block = v0_best_block m, md_depth = v0_depth m, md_validation_index = v0_validation_index m,
     md_alternative_tips = v0_alternative_tips m, fork_count = v0_fork_count m,
     headers_file_size = v0_headers_file_size m, fork_file_size = v0_fork_file_size m,
     block_index_occupancy = v0_block_index_occupancy m, index_capacity = v0_index_capacity m,
     checksum = v0_checksum m\<rparr>"

text \<open>The third-party LRU cache, with the view \<open>lru_peek\<close> of what it holds, and the checksum of the
  memory of the two kinds of map.\<close>

record 'c lru_api =
  lru_new :: "usize \<Rightarrow> 'c"
  lru_get :: "hash \<Rightarrow> 'c \<Rightarrow> disk_block_header option \<times> 'c"
  lru_put :: "hash \<Rightarrow> disk_block_header \<Rightarrow> 'c \<Rightarrow> 'c"
  lru_peek :: "'c \<Rightarrow> hash \<rightharpoonup> disk_block_header"
  xxh3_headers :: "hashed_disk_header list \<Rightarrow> u64"
  xxh3_index :: "index list \<Rightarrow> u64"

record 'c flat_chain_store =
  hdr_file :: "hashed_disk_header list"
  meta :: metadata
  index_map :: "index list"
  index_size :: usize
  fork_file :: "hashed_disk_header list"
  accumulator_file :: bytes
  lru_cache :: 'c
  poisoned :: bool
  pending_warnings :: "chain_store_warning list"

subsection \<open>The block index\<close>

datatype index_bucket = Empty nat | Occupied nat disk_block_header

text \<open>The Jenkins hash of \<^verbatim>\<open>index_hash_fn\<close>.\<close>

definition index_hash_fn :: "hash \<Rightarrow> u32" where
  "index_hash_fn bhash =
     (let h = foldl (\<lambda>h i.
            let h = h + ucast i; h = h + push_bit 10 h in h XOR drop_bit 6 h) (2 ^ 16 - 1) bhash;
          h = h + push_bit 3 h;
          h = h XOR drop_bit 11 h
      in h + push_bit 15 h)"

fun find_pos_loop ::
  "nat \<Rightarrow> index list \<Rightarrow> usize \<Rightarrow> (index \<Rightarrow> flat_chainstore_error + hashed_disk_header) \<Rightarrow> hash \<Rightarrow> usize \<Rightarrow>
   flat_chainstore_error + index_bucket" where
  "find_pos_loop 0 imap msk get bhash h = Inl FullIndex"
| "find_pos_loop (Suc n) imap msk get bhash h =
     (let entry = unat (h AND msk); candidate = imap ! entry in
      bindE (get candidate) (\<lambda>file_header.
      if hd_hash file_header = bhash then Inr (Occupied entry (hd_header file_header))
      else if index_is_empty candidate then Inr (Empty entry)
      else find_pos_loop n imap msk get bhash (h + 1)))"

definition hash_map_find_pos ::
  "index list \<Rightarrow> usize \<Rightarrow> hash \<Rightarrow> (index \<Rightarrow> flat_chainstore_error + hashed_disk_header) \<Rightarrow>
   flat_chainstore_error + index_bucket" where
  "hash_map_find_pos imap isize bhash get =
     find_pos_loop (unat isize) imap (isize - 1) get bhash (ucast (index_hash_fn bhash))"

definition set_index_for_hash ::
  "index list \<Rightarrow> usize \<Rightarrow> hash \<Rightarrow> index \<Rightarrow> (index \<Rightarrow> flat_chainstore_error + hashed_disk_header) \<Rightarrow>
   flat_chainstore_error + bool \<times> index list" where
  "set_index_for_hash imap isize bhash i get =
     bindE (hash_map_find_pos imap isize bhash get) (\<lambda>pos.
     case pos of
       Empty p \<Rightarrow> Inr (True, imap[p := i])
     | Occupied p _ \<Rightarrow> Inr (False, imap[p := i]))"

definition get_index_for_hash ::
  "index list \<Rightarrow> usize \<Rightarrow> hash \<Rightarrow> (index \<Rightarrow> flat_chainstore_error + hashed_disk_header) \<Rightarrow>
   flat_chainstore_error + (index \<times> disk_block_header) option" where
  "get_index_for_hash imap isize bhash get =
     bindE (hash_map_find_pos imap isize bhash get) (\<lambda>pos.
     case pos of
       Empty p \<Rightarrow> Inr None
     | Occupied p hdr \<Rightarrow> Inr (Some (imap ! p, hdr)))"

subsection \<open>Opening a store\<close>

definition truncate_to_pow2 :: "usize \<Rightarrow> usize" where
  "truncate_to_pow2 n =
     (if n = 0 then 0
      else let n = n - 1;
               n = n OR drop_bit 1 n;
               n = n OR drop_bit 2 n;
               n = n OR drop_bit 4 n;
               n = n OR drop_bit 8 n;
               n = n OR drop_bit 16 n
           in n + 1)"

text \<open>The files in the data directory: a missing file is empty, a missing metadata file is \<open>None\<close>.\<close>

datatype metadata_file = V0 metadata_v0 | V1 metadata

record disk =
  d_headers :: "hashed_disk_header list"
  d_index :: "index list"
  d_fork :: "hashed_disk_header list"
  d_accumulators :: bytes
  d_metadata :: "metadata_file option"

text \<open>\<^verbatim>\<open>File::set_len\<close> cuts a file or extends it with zeros.\<close>

definition set_len :: "'a \<Rightarrow> nat \<Rightarrow> 'a list \<Rightarrow> 'a list" where
  "set_len z n xs = take n xs @ replicate (n - length xs) z"

definition maybe_migrate :: "disk \<Rightarrow> bool \<times> disk" where
  "maybe_migrate d =
     (case d_metadata d of
        Some (V0 m) \<Rightarrow> (True, d\<lparr>d_metadata := Some (V1 (metadata_from_v0 m))\<rparr>)
      | _ \<Rightarrow> (False, d))"

definition cache_capacity :: "flat_chain_store_config \<Rightarrow> usize" where
  "cache_capacity config =
     (case cfg_cache_size config of
        None \<Rightarrow> 1000
      | Some n \<Rightarrow> if n = 0 then 1000 else n)"

definition create_chain_store :: "'c lru_api \<Rightarrow> flat_chain_store_config \<Rightarrow> disk \<Rightarrow> 'c flat_chain_store" where
  "create_chain_store X config d =
     (let isize = (case cfg_block_index_size config of
            Some n \<Rightarrow> truncate_to_pow2 n | None \<Rightarrow> truncate_to_pow2 10000000);
          headers_size = (case cfg_headers_file_size config of
            Some n \<Rightarrow> truncate_to_pow2 n | None \<Rightarrow> truncate_to_pow2 10000000);
          fork_size = (case cfg_fork_file_size config of
            Some n \<Rightarrow> truncate_to_pow2 n | None \<Rightarrow> truncate_to_pow2 10000)
      in \<lparr>hdr_file = set_len zero_slot (unat headers_size) (d_headers d),
          meta = \<lparr>md_magic = FLAT_CHAINSTORE_MAGIC, md_version = FLAT_CHAINSTORE_VERSION,
            md_best_block = all_zeros, md_depth = 0, md_validation_index = all_zeros,
            md_alternative_tips = replicate 64 all_zeros, fork_count = 0,
            headers_file_size = headers_size, fork_file_size = fork_size,
            block_index_occupancy = 0, index_capacity = isize,
            checksum = \<lparr>headers_checksum = 0, index_checksum = 0, fork_headers_checksum = 0\<rparr>\<rparr>,
          index_map = set_len 0 (unat isize) (d_index d),
          index_size = isize,
          fork_file = set_len zero_slot (unat fork_size) (d_fork d),
          accumulator_file = d_accumulators d,
          lru_cache = lru_new X (cache_capacity config),
          poisoned = False,
          pending_warnings = []\<rparr>)"

definition compute_checksum :: "'c lru_api \<Rightarrow> 'c flat_chain_store \<Rightarrow> db_check_sum" where
  "compute_checksum X s = \<lparr>headers_checksum = xxh3_headers X (hdr_file s),
     index_checksum = xxh3_index X (index_map s), fork_headers_checksum = xxh3_headers X (fork_file s)\<rparr>"

definition check_integrity :: "'c lru_api \<Rightarrow> 'c flat_chain_store \<Rightarrow> flat_chainstore_error + unit" where
  "check_integrity X s = reject_if (checksum (meta s) \<noteq> compute_checksum X s) CorruptedDatabase"

text \<open>The outcome of each \<^verbatim>\<open>msync\<close> of \<^verbatim>\<open>do_flush\<close>.\<close>

record sync_io =
  sync_headers :: "string + unit"
  sync_index :: "string + unit"
  sync_fork :: "string + unit"
  sync_metadata :: "string + unit"

definition do_flush ::
  "'c lru_api \<Rightarrow> sync_io \<Rightarrow> 'c flat_chain_store \<Rightarrow> (flat_chainstore_error + unit) \<times> 'c flat_chain_store" where
  "do_flush X io s =
     (case bindE (map_err Io (sync_headers io)) (\<lambda>_. bindE (map_err Io (sync_index io)) (\<lambda>_. map_err Io (sync_fork io))) of
        Inl e \<Rightarrow> (Inl e, s)
      | Inr _ \<Rightarrow>
          (let s' = s\<lparr>meta := (meta s)\<lparr>checksum := compute_checksum X s\<rparr>\<rparr>
           in (map_err Io (sync_metadata io), s')))"

definition flat_new ::
  "'c lru_api \<Rightarrow> sync_io \<Rightarrow> flat_chain_store_config \<Rightarrow> disk \<Rightarrow> flat_chainstore_error + 'c flat_chain_store" where
  "flat_new X io config d0 =
     (let d = snd (maybe_migrate d0) in
      case d_metadata d of
        None \<Rightarrow> (case do_flush X io (create_chain_store X config d) of
                  (Inl e, _) \<Rightarrow> Inl e
                | (Inr _, s) \<Rightarrow> Inr s)
      | Some (V0 _) \<Rightarrow> Inl InvalidMetadataPointer
      | Some (V1 m) \<Rightarrow>
          bindE (reject_if (md_version m > FLAT_CHAINSTORE_VERSION) (UnsupportedSchema (md_version m))) (\<lambda>_.
          bindE (reject_if (md_magic m \<noteq> FLAT_CHAINSTORE_MAGIC) (BadMagic (md_magic m))) (\<lambda>_.
          Inr \<lparr>hdr_file = set_len zero_slot (unat (headers_file_size m)) (d_headers d),
               meta = m,
               index_map = set_len 0 (unat (index_capacity m)) (d_index d),
               index_size = index_capacity m,
               fork_file = set_len zero_slot (unat (fork_file_size m)) (d_fork d),
               accumulator_file = d_accumulators d,
               lru_cache = lru_new X (cache_capacity config),
               poisoned = False,
               pending_warnings = []\<rparr>)))"

subsection \<open>Access to the files\<close>

definition get_disk_header :: "'c flat_chain_store \<Rightarrow> index \<Rightarrow> flat_chainstore_error + hashed_disk_header" where
  "get_disk_header s i =
     (let (max_size, base) = (if is_main_chain i then (headers_file_size (meta s), hdr_file s)
                              else (fork_file_size (meta s), fork_file s));
          i = index_of i
      in if ucast i \<ge> max_size then Inl FullIndex
         else let hdr = base ! unat i in
              if hd_hash hdr = all_zeros then Inl HeaderNotFound else Inr hdr)"

text \<open>\<^verbatim>\<open>get_disk_header_mut\<close> returns a reference: here the record and the store with it replaced.\<close>

definition get_disk_header_mut ::
  "'c flat_chain_store \<Rightarrow> index \<Rightarrow>
   flat_chainstore_error + hashed_disk_header \<times> (hashed_disk_header \<Rightarrow> 'c flat_chain_store)" where
  "get_disk_header_mut s i =
     (let n = index_of i in
      if is_main_chain i then
        (if ucast n \<ge> headers_file_size (meta s) then Inl FullIndex
         else Inr (hdr_file s ! unat n, \<lambda>r. s\<lparr>hdr_file := (hdr_file s)[unat n := r]\<rparr>))
      else
        (if ucast n \<ge> fork_file_size (meta s) then Inl FullIndex
         else Inr (fork_file s ! unat n, \<lambda>r. s\<lparr>fork_file := (fork_file s)[unat n := r]\<rparr>)))"

definition add_index_entry ::
  "hash \<Rightarrow> index \<Rightarrow> 'c flat_chain_store \<Rightarrow> (flat_chainstore_error + unit) \<times> 'c flat_chain_store" where
  "add_index_entry bhash i s =
     (let next_occupancy = block_index_occupancy (meta s) + 1 in
      if next_occupancy \<ge> index_capacity (meta s) then (Inl FullIndex, s)
      else (case set_index_for_hash (index_map s) (index_size s) bhash i (get_disk_header s) of
              Inl e \<Rightarrow> (Inl e, s)
            | Inr (is_new, imap) \<Rightarrow>
                (Inr (), s\<lparr>index_map := imap,
                   meta := (if is_new then (meta s)\<lparr>block_index_occupancy := next_occupancy\<rparr> else meta s)\<rparr>)))"

definition do_save_height :: "best_chain \<Rightarrow> 'c flat_chain_store \<Rightarrow> 'c flat_chain_store" where
  "do_save_height bc s = s\<lparr>meta := (meta s)\<lparr>md_best_block := best_block bc, md_depth := depth bc,
     md_validation_index := validation_index bc\<rparr>\<rparr>"

definition get_header_by_hash ::
  "'c flat_chain_store \<Rightarrow> hash \<Rightarrow> flat_chainstore_error + disk_block_header option" where
  "get_header_by_hash s bhash =
     bindE (get_index_for_hash (index_map s) (index_size s) bhash (get_disk_header s)) (\<lambda>r.
     Inr (map_option snd r))"

text \<open>The order in which the difference of the two hash sets is visited is an argument.\<close>

fun scan_forks ::
  "'c flat_chain_store \<Rightarrow> nat list \<Rightarrow> hash list \<Rightarrow> hash list \<Rightarrow> flat_chainstore_error + hash list \<times> hash list" where
  "scan_forks s [] fork_hashes parent_hashes = Inr (fork_hashes, parent_hashes)"
| "scan_forks s (i # rest) fork_hashes parent_hashes =
     bindE (index_new_fork (of_nat i)) (\<lambda>ix.
     bindE (get_disk_header s ix) (\<lambda>hdr.
     case hd_header hdr of
       InFork _ _ \<Rightarrow> scan_forks s rest (List.insert (hd_hash hdr) fork_hashes)
                       (List.insert (prev_blockhash (header_of (hd_header hdr))) parent_hashes)
     | Orphan _ \<Rightarrow> scan_forks s rest (List.insert (hd_hash hdr) fork_hashes)
                       (List.insert (prev_blockhash (header_of (hd_header hdr))) parent_hashes)
     | InvalidChain _ \<Rightarrow> scan_forks s rest (List.insert (hd_hash hdr) fork_hashes)
                       (List.insert (prev_blockhash (header_of (hd_header hdr))) parent_hashes)
     | _ \<Rightarrow> Inl CorruptedDatabase))"

definition derive_alternative_tips ::
  "(hash list \<Rightarrow> hash list) \<Rightarrow> 'c flat_chain_store \<Rightarrow> flat_chainstore_error + hash list" where
  "derive_alternative_tips visit s =
     bindE (scan_forks s [0 ..< unat (fork_count (meta s))] [] []) (\<lambda>(fork_hashes, parent_hashes).
     foldE (\<lambda>bhash tips.
         bindE (get_header_by_hash s bhash) (\<lambda>r.
         Inr (case r of Some (InFork _ _) \<Rightarrow> tips @ [bhash] | _ \<Rightarrow> tips)))
       (visit (filter (\<lambda>h. h \<notin> set parent_hashes) fork_hashes)) [])"

definition get_best_chain ::
  "(hash list \<Rightarrow> hash list) \<Rightarrow> 'c flat_chain_store \<Rightarrow> flat_chainstore_error + best_chain" where
  "get_best_chain visit s =
     bindE (derive_alternative_tips visit s) (\<lambda>tips.
     Inr \<lparr>best_block = md_best_block (meta s), depth = md_depth (meta s),
          validation_index = md_validation_index (meta s), alternative_tips = tips\<rparr>)"

text \<open>\<^verbatim>\<open>expect\<close> on the height is never reached from \<^verbatim>\<open>save_header\<close>, whose match only passes headers
  with a height; the model returns a corrupted-database error there.\<close>

definition write_header_to_storage ::
  "bitcoin_api \<Rightarrow> disk_block_header \<Rightarrow> 'c flat_chain_store \<Rightarrow> (flat_chainstore_error + unit) \<times> 'c flat_chain_store" where
  "write_header_to_storage L hdr s =
     (case disk_height hdr of
        None \<Rightarrow> (Inl CorruptedDatabase, s)
      | Some height \<Rightarrow>
          (case bindE (index_new height) (get_disk_header_mut s) of
             Inl e \<Rightarrow> (Inl e, s)
           | Inr (_, write) \<Rightarrow>
               (Inr (), write \<lparr>hd_header = hdr, hd_hash = disk_block_hash L hdr, acc_pos = 0, acc_len = 0\<rparr>)))"

definition save_fork_block ::
  "bitcoin_api \<Rightarrow> disk_block_header \<Rightarrow> 'c flat_chain_store \<Rightarrow> (flat_chainstore_error + unit) \<times> 'c flat_chain_store" where
  "save_fork_block L hdr s =
     (let fork_blocks = fork_count (meta s) in
      case bindE (index_new_fork fork_blocks) (\<lambda>i. bindE (get_disk_header_mut s i) (\<lambda>m. Inr (i, m))) of
        Inl e \<Rightarrow> (Inl e, s)
      | Inr (i, _, write) \<Rightarrow>
          (let bhash = disk_block_hash L hdr;
               s1 = write \<lparr>hd_header = hdr, hd_hash = bhash, acc_pos = 0, acc_len = 0\<rparr>
           in case add_index_entry bhash i s1 of
                (Inl e, s2) \<Rightarrow> (Inl e, s2)
              | (Inr _, s2) \<Rightarrow> (Inr (), s2\<lparr>meta := (meta s2)\<lparr>fork_count := fork_count (meta s2) + 1\<rparr>\<rparr>)))"

definition try_push_warning :: "chain_store_warning \<Rightarrow> 'c flat_chain_store \<Rightarrow> 'c flat_chain_store" where
  "try_push_warning w s =
     (if w \<in> set (pending_warnings s) then s else s\<lparr>pending_warnings := pending_warnings s @ [w]\<rparr>)"

subsection \<open>The store interface\<close>

definition flat_get_header ::
  "'c lru_api \<Rightarrow> hash \<Rightarrow> 'c flat_chain_store \<Rightarrow>
   (flat_chainstore_error + disk_block_header option) \<times> 'c flat_chain_store" where
  "flat_get_header X bhash s =
     (if poisoned s then (Inl PoisonedLock, s)
      else case lru_get X bhash (lru_cache s) of
        (Some hdr, c) \<Rightarrow> (Inr (Some hdr), s\<lparr>lru_cache := c\<rparr>)
      | (None, c) \<Rightarrow>
          (let s1 = s\<lparr>lru_cache := c\<rparr> in
           case get_header_by_hash s1 bhash of
             Inl e \<Rightarrow> (Inl e, s1)
           | Inr None \<Rightarrow> (Inr None, s1)
           | Inr (Some hdr) \<Rightarrow> (Inr (Some hdr), s1\<lparr>lru_cache := lru_put X bhash hdr c\<rparr>)))"

definition flat_get_header_by_height ::
  "u32 \<Rightarrow> 'c flat_chain_store \<Rightarrow> flat_chainstore_error + disk_block_header option" where
  "flat_get_header_by_height height s =
     bindE (index_new height) (\<lambda>i.
     case get_disk_header s i of
       Inr hdr \<Rightarrow> Inr (Some (hd_header hdr))
     | Inl HeaderNotFound \<Rightarrow> Inr None
     | Inl e \<Rightarrow> Inl e)"

definition flat_get_block_hash :: "u32 \<Rightarrow> 'c flat_chain_store \<Rightarrow> flat_chainstore_error + hash option" where
  "flat_get_block_hash height s =
     bindE (index_new height) (\<lambda>i.
     case get_disk_header s i of
       Inr hdr \<Rightarrow> Inr (Some (hd_hash hdr))
     | Inl HeaderNotFound \<Rightarrow> Inr None
     | Inl e \<Rightarrow> Inl e)"

definition flat_load_height ::
  "(hash list \<Rightarrow> hash list) \<Rightarrow> 'c flat_chain_store \<Rightarrow> flat_chainstore_error + best_chain option" where
  "flat_load_height visit s =
     bindE (get_best_chain visit s) (\<lambda>x. Inr (if depth x = 0 then None else Some x))"

definition flat_save_header ::
  "bitcoin_api \<Rightarrow> 'c lru_api \<Rightarrow> disk_block_header \<Rightarrow> 'c flat_chain_store \<Rightarrow>
   (flat_chainstore_error + unit) \<times> 'c flat_chain_store" where
  "flat_save_header L X hdr s =
     (if poisoned s then (Inl PoisonedLock, s)
      else
       (let s1 = s\<lparr>lru_cache := lru_put X (disk_block_hash L hdr) hdr (lru_cache s)\<rparr>;
            (result, s2) =
              (case hdr of
                 FullyValid _ _ \<Rightarrow> write_header_to_storage L hdr s1
               | HeadersOnly _ _ \<Rightarrow> write_header_to_storage L hdr s1
               | AssumedValid _ _ \<Rightarrow> write_header_to_storage L hdr s1
               | InFork _ _ \<Rightarrow> save_fork_block L hdr s1
               | Orphan _ \<Rightarrow> save_fork_block L hdr s1
               | InvalidChain _ \<Rightarrow> save_fork_block L hdr s1)
        in (result, if result = Inl FullIndex then try_push_warning HeaderStorageFull s2 else s2)))"

definition flat_update_block_index ::
  "u32 \<Rightarrow> hash \<Rightarrow> 'c flat_chain_store \<Rightarrow> (flat_chainstore_error + unit) \<times> 'c flat_chain_store" where
  "flat_update_block_index height bhash s =
     (case index_new height of
        Inl e \<Rightarrow> (Inl e, s)
      | Inr i \<Rightarrow>
          (let (result, s1) = add_index_entry bhash i s
           in (result, if result = Inl FullIndex then try_push_warning BlockIndexFull s1 else s1)))"

definition flat_save_roots_for_block ::
  "'c lru_api \<Rightarrow> bytes \<Rightarrow> u32 \<Rightarrow> 'c flat_chain_store \<Rightarrow> (flat_chainstore_error + unit) \<times> 'c flat_chain_store" where
  "flat_save_roots_for_block X roots height s =
     (case index_new height of
        Inl e \<Rightarrow> (Inl e, s)
      | Inr i \<Rightarrow>
         (case flat_get_header X (md_validation_index (meta s)) s of
            (Inl e, s1) \<Rightarrow> (Inl e, s1)
          | (Inr found, s1) \<Rightarrow>
             (case (case found of
                      None \<Rightarrow> Inr 0
                    | Some h \<Rightarrow> map_err (\<lambda>_. InvalidValidationIndex) (try_height h)) of
                Inl e \<Rightarrow> (Inl e, s1)
              | Inr validation \<Rightarrow>
                 (case (if height \<le> validation
                        then bindE (get_disk_header s1 i) (\<lambda>hdr.
                          Inr (s1\<lparr>accumulator_file := set_len 0 (unat (acc_pos hdr)) (accumulator_file s1)\<rparr>))
                        else Inr s1) of
                    Inl e \<Rightarrow> (Inl e, s1)
                  | Inr s2 \<Rightarrow>
                     (let pos = length (accumulator_file s2); n = length roots in
                      if n > MAX_ACCUMULATOR_SIZE then (Inl OversizedAccumulator, s2)
                      else case get_disk_header_mut s2 i of
                             Inl e \<Rightarrow> (Inl e, s2)
                           | Inr (hdr, write) \<Rightarrow>
                               if hd_hash hdr = all_zeros then (Inl HeaderNotFound, s2)
                               else
                                (let s3 = write (hdr\<lparr>acc_pos := of_nat pos, acc_len := of_nat n\<rparr>)
                                 in (Inr (), s3\<lparr>accumulator_file := accumulator_file s3 @ roots\<rparr>)))))))"

definition flat_load_roots_for_block :: "u32 \<Rightarrow> 'c flat_chain_store \<Rightarrow> flat_chainstore_error + bytes option" where
  "flat_load_roots_for_block height s =
     bindE (index_new height) (\<lambda>i.
     bindE (get_disk_header s i) (\<lambda>hdr.
     let n = unat (acc_len hdr); pos = unat (acc_pos hdr) in
     if n = 0 then Inr None
     else if length (accumulator_file s) < pos + n then Inl (Io ''failed to fill whole buffer'')
     else Inr (Some (take n (drop pos (accumulator_file s))))))"

text \<open>The lengths of the three files that are measured on disk, \<open>None\<close> when one is missing.\<close>

definition flat_size_on_disk :: "u64 \<Rightarrow> u64 option list \<Rightarrow> 'c flat_chain_store \<Rightarrow> u64" where
  "flat_size_on_disk header_size lens s =
     fold (\<lambda>len total. case len of None \<Rightarrow> total | Some n \<Rightarrow> total + n) lens
       ((ucast (md_depth (meta s)) + 1) * header_size + ucast (fork_count (meta s)) * header_size)"

end
