(* ===== verification/Flat_Index.thy ===== *)
theory Flat_Index
  imports Flat_Chain_Store
begin

text \<open>
  The block index of the flat store: tagged positions, the capacity computed from a requested
  size, and the open-addressing table. Lookups end, an inserted hash is found and no other lookup
  changes, also in the presence of the stale entries that reorganisations leave behind.
\<close>

section \<open>Tagged positions\<close>

lemma FORK_BIT_eq: "FORK_BIT = 2 ^ 31"
  by (simp add: FORK_BIT_def)

lemma INDEX_MASK_eq: "INDEX_MASK = mask 31"
  by (simp add: INDEX_MASK_def mask_eq_exp_minus_1)

lemma bit_FORK_BIT: "bit FORK_BIT n \<longleftrightarrow> n = 31"
  unfolding FORK_BIT_eq bit_exp_iff by auto

lemma below_fork_bit:
  fixes i :: u32
  assumes "\<not> FORK_BIT \<le> i"
  shows "i AND INDEX_MASK = i" and "\<not> bit i 31"
proof -
  have "unat i < 2 ^ 31" using assms by (simp add: FORK_BIT_def word_le_nat_alt)
  then have "take_bit 31 i = i"
    by (simp add: word_unat_eq_iff unsigned_take_bit_eq take_bit_nat_eq_self)
  then show "i AND INDEX_MASK = i" by (simp add: INDEX_MASK_eq flip: take_bit_eq_mask)
  show "\<not> bit i 31" using arg_cong [OF \<open>take_bit 31 i = i\<close>, of "\<lambda>w. bit w 31"] by (simp add: bit_simps)
qed

lemma index_new_iff: "index_new i = Inr ix \<longleftrightarrow> unat i < 2 ^ 31 \<and> ix = i"
  by (auto simp: index_new_def FORK_BIT_def word_le_nat_alt)

lemma index_main: 
  assumes "unat i < 2 ^ 31"
  shows "is_main_chain i" and "index_of i = i"
proof -
  have "\<not> FORK_BIT \<le> i" using assms by (simp add: FORK_BIT_def word_le_nat_alt)
  note below = below_fork_bit [OF this]
  show "index_of i = i" using below(1) by (simp add: index_of_def)
  show "is_main_chain i" unfolding is_main_chain_def
    by (rule bit_word_eqI) (use below(2) in \<open>auto simp: bit_simps bit_FORK_BIT\<close>)
qed

lemma index_fork:
  assumes "index_new_fork i = Inr ix"
  shows "\<not> is_main_chain ix" and "index_of ix = i" and "ix \<noteq> 0" and "unat i < 2 ^ 31"
proof -
  have i: "\<not> FORK_BIT \<le> i" and ix: "ix = i OR FORK_BIT"
    using assms by (auto simp: index_new_fork_def split: if_splits)
  have "bit (ix AND FORK_BIT) 31" by (simp add: ix bit_simps bit_FORK_BIT)
  then show main: "\<not> is_main_chain ix" by (auto simp: is_main_chain_def)
  then show "ix \<noteq> 0" by (auto simp: is_main_chain_def)
  have "FORK_BIT AND INDEX_MASK = 0" by (simp add: FORK_BIT_def INDEX_MASK_def)
  then show "index_of ix = i"
    using below_fork_bit(1) [OF i] by (simp add: index_of_def ix bit.conj_disj_distrib2)
  show "unat i < 2 ^ 31" using i by (simp add: FORK_BIT_def word_le_nat_alt)
qed

lemma main_index_self: "is_main_chain i \<Longrightarrow> index_of i = i"
proof -
  assume "is_main_chain i"
  then have "\<not> bit (i AND FORK_BIT) 31" by (simp add: is_main_chain_def)
  then have "\<not> bit i 31" by (simp add: bit_and_iff bit_FORK_BIT)
  then have "bit (take_bit 31 i) n = bit i n" if "n < 32" for n
    using that by (cases "n = 31") (simp_all add: bit_take_bit_iff)
  then have "take_bit 31 i = i" by (intro bit_word_eqI) simp
  then show ?thesis by (simp add: index_of_def INDEX_MASK_eq flip: take_bit_eq_mask)
qed

lemma index_eqI:
  assumes "is_main_chain i = is_main_chain j" and "index_of i = index_of j"
  shows "i = j"
proof (rule bit_word_eqI)
  fix n assume "n < LENGTH(32)"
  have tag: "is_main_chain x \<longleftrightarrow> \<not> bit x 31" for x
  proof
    assume "\<not> bit x 31"
    then have "bit (x AND FORK_BIT) n = False" for n by (auto simp: bit_and_iff bit_FORK_BIT)
    then show "is_main_chain x" unfolding is_main_chain_def by (intro bit_word_eqI) simp
  next
    assume "is_main_chain x"
    then have "\<not> bit (x AND FORK_BIT) 31" by (simp add: is_main_chain_def)
    then show "\<not> bit x 31" by (simp add: bit_and_iff bit_FORK_BIT)
  qed
  have low: "bit (index_of x) n \<longleftrightarrow> n < 31 \<and> bit x n" for x
    by (auto simp: index_of_def INDEX_MASK_eq bit_take_bit_iff simp flip: take_bit_eq_mask)
  show "bit i n = bit j n"
  proof (cases "n = 31")
    case True
    then show ?thesis using assms(1) tag by blast
  next
    case False
    with \<open>n < LENGTH(32)\<close> have "n < 31" by simp
    with low [of i] low [of j] assms(2) show ?thesis by simp
  qed
qed

text \<open>C32. A 32-bit position fits an index exactly below 2^31; the tag and the position of an index are
  those it was made from, so positions of the two files never collide.\<close>

theorem index_tagging:
  "(index_new i = Inr i \<and> is_main_chain i \<and> index_of i = i
      \<and> index_new_fork i = Inr (i OR FORK_BIT) \<and> \<not> is_main_chain (i OR FORK_BIT) \<and> index_of (i OR FORK_BIT) = i
      \<and> unat i < 2 ^ 31)
   \<noteq> (index_new i = Inl OversizedIndex \<and> index_new_fork i = Inl OversizedIndex \<and> 2 ^ 31 \<le> unat i)"
proof (cases "unat i < 2 ^ 31")
  case True
  then have "index_new i = Inr i" "index_new_fork i = Inr (i OR FORK_BIT)"
    by (simp_all add: index_new_def index_new_fork_def FORK_BIT_def word_le_nat_alt)
  with True index_main [OF True] index_fork [of i "i OR FORK_BIT"] show ?thesis by simp
next
  case False
  then show ?thesis by (simp add: index_new_def index_new_fork_def FORK_BIT_def word_le_nat_alt)
qed

section \<open>The capacity of a file\<close>

definition smeared :: "nat \<Rightarrow> usize \<Rightarrow> usize \<Rightarrow> bool" where
  "smeared k m a \<longleftrightarrow> (\<forall>i. bit a i \<longleftrightarrow> (\<exists>d < k. bit m (i + d)))"

lemma smeared_double: "smeared k m a \<Longrightarrow> smeared (k + k) m (a OR drop_bit k a)"
proof (unfold smeared_def, intro allI)
  fix i assume a: "\<forall>i. bit a i \<longleftrightarrow> (\<exists>d < k. bit m (i + d))"
  have "(\<exists>d < k + k. bit m (i + d)) \<longleftrightarrow> (\<exists>d < k. bit m (i + d)) \<or> (\<exists>d < k. bit m (k + i + d))"
  proof
    assume "\<exists>d < k + k. bit m (i + d)"
    then obtain d where d: "d < k + k" "bit m (i + d)" by blast
    show "(\<exists>d < k. bit m (i + d)) \<or> (\<exists>d < k. bit m (k + i + d))"
    proof (cases "d < k")
      case False
      with d have "d - k < k" "bit m (k + i + (d - k))" by simp_all
      then show ?thesis by blast
    qed (use d in blast)
  next
    assume "(\<exists>d < k. bit m (i + d)) \<or> (\<exists>d < k. bit m (k + i + d))"
    then show "\<exists>d < k + k. bit m (i + d)"
    proof
      assume "\<exists>d < k. bit m (k + i + d)"
      then obtain d where "d < k" "bit m (k + i + d)" by blast
      then have "k + d < k + k" "bit m (i + (k + d))" by (simp_all add: ac_simps)
      then show ?thesis by blast
    qed (meson trans_less_add1)
  qed
  with a show "bit (a OR drop_bit k a) i \<longleftrightarrow> (\<exists>d < k + k. bit m (i + d))"
    by (simp add: bit_or_iff bit_drop_bit_eq)
qed

lemma smeared_step: "k + k = k' \<Longrightarrow> smeared k m a \<Longrightarrow> smeared k' m (a OR drop_bit k a)"
  using smeared_double by blast

lemma smeared_mask:
  fixes m a :: usize
  assumes "smeared 32 m a" and "unat m < 2 ^ 32"
  shows "\<exists>k \<le> 32. a = mask k \<and> unat m < 2 ^ k \<and> (\<forall>j. unat m < 2 ^ j \<longrightarrow> k \<le> j)"
proof -
  define top where "top = (\<lambda>k. \<forall>j \<ge> k. \<not> bit m j)"
  have high: "unat m < 2 ^ k \<longleftrightarrow> top k" for k
  proof
    assume "unat m < 2 ^ k"
    then have "take_bit k m = m" by (simp add: word_unat_eq_iff unsigned_take_bit_eq take_bit_nat_eq_self)
    then show "top k" unfolding top_def by (metis bit_take_bit_iff not_le)
  next
    assume "top k"
    then have "bit (take_bit k m) n = bit m n" for n by (cases "n < k") (simp_all add: top_def bit_take_bit_iff)
    then have "take_bit k m = m" by (intro bit_word_eqI)
    then have "unat m = take_bit k (unat m)" by (metis unsigned_take_bit_eq)
    then show "unat m < 2 ^ k" by (metis take_bit_nat_less_exp)
  qed
  define k where "k = (LEAST k. top k)"
  have top32: "top 32" using assms(2) high by blast
  have k: "top k" "k \<le> 32" unfolding k_def using top32 by (auto intro: LeastI Least_le)
  have low: "\<exists>j \<ge> i. bit m j" if "i < k" for i
    using not_less_Least [of i top] that by (auto simp: k_def top_def)
  have "bit a i \<longleftrightarrow> i < k" for i
  proof
    assume "bit a i"
    then obtain d where "bit m (i + d)" using assms(1) by (auto simp: smeared_def)
    then show "i < k" using k(1) by (cases "k \<le> i + d") (simp_all add: top_def)
  next
    assume "i < k"
    from low [OF this] obtain j where j: "i \<le> j" "bit m j" by blast
    then have "j < 32" using top32 by (cases "32 \<le> j") (simp_all add: top_def)
    with j have "j - i < 32" "bit m (i + (j - i))" by simp_all
    then show "bit a i" using assms(1) by (auto simp: smeared_def)
  qed
  then have "a = mask k" using k(2) by (intro bit_word_eqI) (auto simp: bit_mask_iff)
  moreover have "k \<le> j" if "unat m < 2 ^ j" for j
    using that high by (auto simp: k_def intro: Least_le)
  ultimately show ?thesis using k high by blast
qed

lemma unat_power_of_two: "k < 64 \<Longrightarrow> unat (2 ^ k :: usize) = 2 ^ k"
proof -
  assume "k < 64"
  then have "(2 :: nat) ^ k < 2 ^ 64" by (rule power_strict_increasing) simp
  then have "unat (of_nat (2 ^ k) :: usize) = 2 ^ k" unfolding unat_of_nat by simp
  then show ?thesis by simp
qed

text \<open>For a requested size of at most 2^32 the computed capacity is the least power of two that is not
  smaller: a request is rounded up, not truncated.\<close>

lemma truncate_to_pow2_ok:
  assumes "n \<noteq> 0" and "unat n \<le> 2 ^ 32"
  shows "\<exists>k \<le> 32. unat (truncate_to_pow2 n) = 2 ^ k \<and> unat n \<le> 2 ^ k \<and> (\<forall>j. unat n \<le> 2 ^ j \<longrightarrow> k \<le> j)"
proof -
  have n: "unat (n - 1) = unat n - 1" "0 < unat n"
    using assms(1) by (simp_all add: unat_minus_one unat_gt_0)
  have one: "smeared 1 (n - 1) (n - 1)" by (simp add: smeared_def)
  define a where "a = (let n = n - 1; n = n OR drop_bit 1 n; n = n OR drop_bit 2 n;
               n = n OR drop_bit 4 n; n = n OR drop_bit 8 n in n OR drop_bit 16 n)"
  have "smeared 32 (n - 1) a"
    unfolding a_def Let_def by (rule smeared_step smeared_step [OF _ one] | simp only: arith_simps one_add_one)+
  moreover have "unat (n - 1) < 2 ^ 32" using n assms(2) by simp
  ultimately obtain k where
    k: "k \<le> 32" "a = mask k" "unat (n - 1) < 2 ^ k" "\<forall>j. unat (n - 1) < 2 ^ j \<longrightarrow> k \<le> j"
    using smeared_mask by blast
  have "truncate_to_pow2 n = 2 ^ k"
    using assms(1) k(2) by (simp add: truncate_to_pow2_def a_def Let_def mask_eq_exp_minus_1)
  then have "unat (truncate_to_pow2 n) = 2 ^ k" using k(1) by (simp add: unat_power_of_two)
  with k n show ?thesis by (auto intro!: exI [of _ k] simp: less_eq_Suc_le)
qed

section \<open>Probing\<close>

text \<open>The record behind a tagged position, the bucket of a hash at each step of its probe sequence,
  and the buckets where the probe for a hash stops: empty ones and those that lead to it.\<close>

definition slot :: "'c flat_chain_store \<Rightarrow> index \<Rightarrow> hashed_disk_header" where
  "slot s i = (case get_disk_header s i of Inr r \<Rightarrow> r | Inl _ \<Rightarrow> zero_slot)"

definition bucket :: "'c flat_chain_store \<Rightarrow> hash \<Rightarrow> nat \<Rightarrow> nat" where
  "bucket s h j = unat ((ucast (index_hash_fn h) + of_nat j) AND (index_size s - 1))"

definition key :: "'c flat_chain_store \<Rightarrow> nat \<Rightarrow> hash" where
  "key s p = hd_hash (slot s (index_map s ! p))"

definition stops :: "'c flat_chain_store \<Rightarrow> hash \<Rightarrow> nat \<Rightarrow> bool" where
  "stops s h p \<longleftrightarrow> index_map s ! p = 0 \<or> key s p = h"

definition home :: "'c flat_chain_store \<Rightarrow> hash \<Rightarrow> nat" where
  "home s h = bucket s h (LEAST j. stops s h (bucket s h j))"

definition lookup :: "'c flat_chain_store \<Rightarrow> hash \<rightharpoonup> disk_block_header" where
  "lookup s h = (if key s (home s h) = h then Some (hd_header (slot s (index_map s ! home s h))) else None)"

definition live :: "'c flat_chain_store \<Rightarrow> hash \<Rightarrow> index" where
  "live s h = index_map s ! home s h"

text \<open>A table of a power of two of buckets that all lead to a record, one of them empty.\<close>

definition table_ok :: "'c flat_chain_store \<Rightarrow> bool" where
  "table_ok s \<longleftrightarrow> (\<exists>k < 64. index_size s = 2 ^ k) \<and> length (index_map s) = unat (index_size s)
     \<and> (\<forall>p < length (index_map s). get_disk_header s (index_map s ! p) = Inr (slot s (index_map s ! p)))
     \<and> (\<exists>p < length (index_map s). index_map s ! p = 0)"

lemma bucket_mod:
  assumes "index_size s = 2 ^ k" and "k < 64"
  shows "bucket s h j = (unat (index_hash_fn h) + j) mod 2 ^ k"
proof -
  have dvd: "(2 :: nat) ^ k dvd 2 ^ 64" using assms(2) by (intro le_imp_power_dvd) simp
  have "bucket s h j = unat (take_bit k ((ucast (index_hash_fn h) :: usize) + of_nat j))"
    by (simp add: bucket_def assms(1) take_bit_eq_mask mask_eq_exp_minus_1)
  also have "\<dots> = unat ((ucast (index_hash_fn h) :: usize) + of_nat j) mod 2 ^ k"
    unfolding unsigned_take_bit_eq by (rule take_bit_eq_mod)
  also have "unat ((ucast (index_hash_fn h) :: usize) + of_nat j) = (unat (index_hash_fn h) + j) mod 2 ^ 64"
  proof -
    have "unat (ucast (index_hash_fn h) :: usize) = unat (index_hash_fn h)"
      using unsigned_less [of "index_hash_fn h", where ?'a = nat]
      by (simp add: unsigned_ucast_eq take_bit_nat_eq_self)
    moreover have "unat (of_nat j :: usize) = j mod 2 ^ 64" by (simp add: unat_of_nat)
    ultimately show ?thesis by (simp add: unat_word_ariths(1) mod_simps)
  qed
  also have "\<dots> mod 2 ^ k = (unat (index_hash_fn h) + j) mod 2 ^ k" using dvd by (rule mod_mod_cancel)
  finally show ?thesis .
qed

lemma table_okE:
  assumes "table_ok s"
  obtains k where "k < 64" "index_size s = 2 ^ k" "length (index_map s) = 2 ^ k"
  using assms by (auto simp: table_ok_def unat_power_of_two)

lemma bucket_less: "table_ok s \<Longrightarrow> bucket s h j < length (index_map s)"
  by (erule table_okE) (simp add: bucket_mod)

lemma bucket_onto:
  assumes "table_ok s" and "p < length (index_map s)"
  shows "\<exists>j < length (index_map s). bucket s h j = p"
proof -
  from assms(1) obtain k where k: "k < 64" "index_size s = 2 ^ k" "length (index_map s) = 2 ^ k"
    by (rule table_okE)
  let ?n = "(2 :: nat) ^ k" and ?a = "unat (index_hash_fn h)"
  let ?j = "(p + (?n - ?a mod ?n)) mod ?n"
  have "(?a + ?j) mod ?n = (?a mod ?n + (p + (?n - ?a mod ?n))) mod ?n" by (simp add: mod_simps)
  also have "?a mod ?n + (p + (?n - ?a mod ?n)) = p + ?n"
    using mod_less_divisor [of ?n ?a] by (simp del: mod_less_divisor)
  also have "(p + ?n) mod ?n = p" using assms(2) k(3) by simp
  finally have "bucket s h ?j = p" by (simp add: bucket_mod [OF k(2,1)])
  then show ?thesis using k(3) by (intro exI [of _ ?j]) simp
qed

lemma probe_ends:
  assumes "table_ok s"
  shows "\<exists>j < length (index_map s). stops s h (bucket s h j)"
proof -
  from assms obtain p where "p < length (index_map s)" "index_map s ! p = 0" by (auto simp: table_ok_def)
  with bucket_onto [OF assms, of p h] show ?thesis by (auto simp: stops_def)
qed

lemma home_stops:
  assumes "table_ok s"
  obtains j where "j < length (index_map s)" "home s h = bucket s h j" "stops s h (bucket s h j)"
    "\<And>i. i < j \<Longrightarrow> \<not> stops s h (bucket s h i)"
proof -
  let ?j = "LEAST j. stops s h (bucket s h j)"
  from probe_ends [OF assms, of h] obtain j where j: "j < length (index_map s)" "stops s h (bucket s h j)" by blast
  have "stops s h (bucket s h ?j)" using j(2) by (rule LeastI)
  moreover have "?j < length (index_map s)" using Least_le [of "\<lambda>j. stops s h (bucket s h j)", OF j(2)] j(1) by simp
  ultimately show ?thesis using not_less_Least by (intro that [of ?j]) (auto simp: home_def)
qed

lemma stops_home: "table_ok s \<Longrightarrow> stops s h (home s h)"
  by (erule home_stops [of s h]) simp

lemma home_less: "table_ok s \<Longrightarrow> home s h < length (index_map s)"
  by (simp add: home_def bucket_less)

lemma homeI:
  "stops s h (bucket s h j) \<Longrightarrow> (\<And>i. i < j \<Longrightarrow> \<not> stops s h (bucket s h i)) \<Longrightarrow> home s h = bucket s h j"
  unfolding home_def by (rule arg_cong [of _ _ "bucket s h"], rule Least_equality) (auto simp: not_less [symmetric])

lemma find_pos_loop_stops:
  assumes "\<And>i. i \<le> j \<Longrightarrow> get (imap ! unat ((h + of_nat i) AND msk)) = Inr (f i)"
    and "\<And>i. i < j \<Longrightarrow> hd_hash (f i) \<noteq> bhash \<and> imap ! unat ((h + of_nat i) AND msk) \<noteq> 0"
    and "hd_hash (f j) = bhash \<or> imap ! unat ((h + of_nat j) AND msk) = 0" and "j < n"
  shows "find_pos_loop n imap msk get bhash h =
    Inr (if hd_hash (f j) = bhash then Occupied (unat ((h + of_nat j) AND msk)) (hd_header (f j))
         else Empty (unat ((h + of_nat j) AND msk)))"
  using assms
proof (induction n arbitrary: h j f)
  case 0
  then show ?case by simp
next
  case (Suc n)
  show ?case
  proof (cases j)
    case 0
    then show ?thesis using Suc.prems(1) [of 0] Suc.prems(3) by (auto simp: Let_def index_is_empty_def)
  next
    case (Suc j')
    have shift: "h + 1 + of_nat i = h + of_nat (Suc i)" for i by simp
    have "find_pos_loop n imap msk get bhash (h + 1) =
      Inr (if hd_hash (f (Suc j')) = bhash then Occupied (unat ((h + 1 + of_nat j') AND msk)) (hd_header (f (Suc j')))
           else Empty (unat ((h + 1 + of_nat j') AND msk)))"
      by (rule Suc.IH [where f = "\<lambda>i. f (Suc i)"]) (use Suc.prems Suc in \<open>auto simp: shift simp del: of_nat_Suc\<close>)
    then show ?thesis
      using Suc.prems(1) [of 0] Suc.prems(2) [of 0] Suc by (simp add: Let_def index_is_empty_def add.assoc)
  qed
qed

lemma find_pos_ok:
  assumes "table_ok s"
  shows "hash_map_find_pos (index_map s) (index_size s) h (get_disk_header s) =
    Inr (if key s (home s h) = h then Occupied (home s h) (hd_header (slot s (index_map s ! home s h)))
         else Empty (home s h))"
proof -
  from home_stops [OF assms] obtain j where j: "j < length (index_map s)" "home s h = bucket s h j"
    "stops s h (bucket s h j)" "\<And>i. i < j \<Longrightarrow> \<not> stops s h (bucket s h i)"
    by metis
  have len: "length (index_map s) = unat (index_size s)" using assms by (simp add: table_ok_def)
  have get: "get_disk_header s (index_map s ! bucket s h i) = Inr (slot s (index_map s ! bucket s h i))" for i
    using assms bucket_less [OF assms] by (simp add: table_ok_def)
  show ?thesis unfolding hash_map_find_pos_def j(2)
    unfolding bucket_def key_def
    by (rule find_pos_loop_stops [where f = "\<lambda>i. slot s (index_map s ! bucket s h i)", unfolded bucket_def])
      (use j len get in \<open>auto simp: stops_def key_def bucket_def\<close>)
qed

lemma get_header_by_hash_ok: "table_ok s \<Longrightarrow> get_header_by_hash s h = Inr (lookup s h)"
  by (simp add: get_header_by_hash_def get_index_for_hash_def find_pos_ok lookup_def)

section \<open>Insertion\<close>

text \<open>Every bucket in use leads to a hash that is found, except possibly those that lead to a hash
  being inserted; none leads to the genesis block, which the empty buckets lead to.\<close>

definition settled :: "hash \<Rightarrow> 'c flat_chain_store \<Rightarrow> hash \<Rightarrow> bool" where
  "settled g0 s h \<longleftrightarrow> (\<forall>p < length (index_map s). index_map s ! p \<noteq> 0 \<longrightarrow> key s p \<noteq> h \<longrightarrow>
     key s p \<noteq> g0 \<and> lookup s (key s p) \<noteq> None)"

definition complete :: "hash \<Rightarrow> 'c flat_chain_store \<Rightarrow> bool" where
  "complete g0 s \<longleftrightarrow> (\<forall>p < length (index_map s). index_map s ! p \<noteq> 0 \<longrightarrow>
     key s p \<noteq> g0 \<and> lookup s (key s p) \<noteq> None)"

lemma settledD:
  "settled g0 s h \<Longrightarrow> p < length (index_map s) \<Longrightarrow> index_map s ! p \<noteq> 0 \<Longrightarrow> key s p \<noteq> h \<Longrightarrow>
     key s p \<noteq> g0 \<and> lookup s (key s p) \<noteq> None"
  by (simp add: settled_def)

lemma complete_settled: "complete g0 s \<Longrightarrow> settled g0 s h"
  by (simp add: complete_def settled_def)

text \<open>The store after the bucket of \<open>h\<close> was set to the tagged position \<open>i\<close>.\<close>

definition inserted :: "'c flat_chain_store \<Rightarrow> hash \<Rightarrow> index \<Rightarrow> 'c flat_chain_store \<Rightarrow> bool" where
  "inserted s h i s' \<longleftrightarrow> index_size s' = index_size s \<and> get_disk_header s' = get_disk_header s
     \<and> index_map s' = (index_map s)[home s h := i] \<and> i \<noteq> 0
     \<and> get_disk_header s i = Inr (slot s i) \<and> hd_hash (slot s i) = h
     \<and> (\<exists>p < length (index_map s). p \<noteq> home s h \<and> index_map s ! p = 0)"

lemma inserted_same:
  assumes "inserted s h i s'"
  shows "bucket s' g j = bucket s g j" and "slot s' x = slot s x" and "length (index_map s') = length (index_map s)"
    and "p \<noteq> home s h \<Longrightarrow> index_map s' ! p = index_map s ! p"
    and "p \<noteq> home s h \<Longrightarrow> key s' p = key s p" and "p \<noteq> home s h \<Longrightarrow> stops s' g p = stops s g p"
  using assms by (simp_all add: inserted_def bucket_def slot_def key_def stops_def)

lemma inserted_bucket:
  assumes "table_ok s" and "inserted s h i s'"
  shows "index_map s' ! home s h = i" and "key s' (home s h) = h"
    and "stops s' g (home s h) \<longleftrightarrow> g = h" and "i \<noteq> 0"
  using assms home_less [OF assms(1), of h]
  by (auto simp: inserted_def key_def stops_def inserted_same(2) [OF assms(2)])

lemma inserted_table_ok:
  assumes "table_ok s" and "inserted s h i s'"
  shows "table_ok s'"
proof -
  have "get_disk_header s' (index_map s' ! p) = Inr (slot s' (index_map s' ! p))"
    if "p < length (index_map s)" for p
    using assms that by (cases "p = home s h") (auto simp: table_ok_def inserted_def slot_def)
  moreover have "\<exists>p < length (index_map s). index_map s' ! p = 0"
    using assms(2) by (auto simp: inserted_def)
  ultimately show ?thesis
    using assms by (simp add: table_ok_def inserted_same(3) [OF assms(2)]) (simp add: inserted_def)
qed

lemma inserted_found:
  assumes "table_ok s" and "inserted s h i s'"
  shows "home s' h = home s h" and "lookup s' h = Some (hd_header (slot s i))" and "live s' h = i"
proof -
  from home_stops [OF assms(1)] obtain j where j: "home s h = bucket s h j"
    "\<And>i. i < j \<Longrightarrow> \<not> stops s h (bucket s h i)" "stops s h (bucket s h j)"
    by metis
  have "home s' h = bucket s' h j"
  proof (rule homeI)
    show "stops s' h (bucket s' h j)"
      using inserted_bucket(3) [OF assms] by (simp add: inserted_same(1) [OF assms(2)] flip: j(1))
  next
    fix i assume "i < j"
    then have no: "\<not> stops s h (bucket s h i)" by (rule j(2))
    with j have "bucket s h i \<noteq> home s h" by auto
    then show "\<not> stops s' h (bucket s' h i)" using no assms(2) by (simp add: inserted_same)
  qed
  then show home: "home s' h = home s h" using j(1) assms(2) by (simp add: inserted_same)
  show "live s' h = i" using inserted_bucket(1) [OF assms] by (simp add: live_def home)
  show "lookup s' h = Some (hd_header (slot s i))"
    using inserted_bucket [OF assms] by (simp add: lookup_def home inserted_same(2) [OF assms(2)])
qed

text \<open>A probe for another hash that does not end in the changed bucket ends where it did.\<close>

lemma inserted_home_other:
  assumes "table_ok s" and ins: "inserted s h i s'" and "g \<noteq> h" and "home s g \<noteq> home s h"
  shows "home s' g = home s g"
proof -
  from home_stops [OF assms(1)] obtain j where j: "home s g = bucket s g j"
    "\<And>i. i < j \<Longrightarrow> \<not> stops s g (bucket s g i)" "stops s g (bucket s g j)"
    by metis
  have "home s' g = bucket s' g j"
  proof (rule homeI)
    show "stops s' g (bucket s' g j)" using j assms(4) ins by (simp add: inserted_same)
  next
    fix i assume "i < j"
    then have "\<not> stops s g (bucket s g i)" by (rule j(2))
    then show "\<not> stops s' g (bucket s' g i)"
      using inserted_bucket(3) [OF assms(1,2), of g] assms(3) ins
      by (cases "bucket s g i = home s h") (simp_all add: inserted_same)
  qed
  then show ?thesis using j(1) ins by (simp add: inserted_same)
qed

lemma inserted_other:
  assumes ok: "table_ok s" and ins: "inserted s h i s'" and settled: "settled g0 s h"
    and gen: "hd_hash (slot s 0) = g0" and "g \<noteq> h"
  shows "lookup s' g = lookup s g \<and> (lookup s g \<noteq> None \<longrightarrow> live s' g = live s g)"
proof (cases "home s g = home s h")
  case False
  then have "home s' g = home s g" by (rule inserted_home_other [OF ok ins \<open>g \<noteq> h\<close>])
  with False ins show ?thesis by (simp add: lookup_def live_def inserted_same)
next
  case True
  have "stops s g (home s g)" "stops s h (home s h)" by (rule stops_home [OF ok])+
  then have zero: "index_map s ! home s h = 0" using \<open>g \<noteq> h\<close> unfolding stops_def True by blast
  have st: "stops s' g (home s' g)" by (rule stops_home [OF inserted_table_ok [OF ok ins]])
  then have neq: "home s' g \<noteq> home s h" using inserted_bucket(3) [OF ok ins, of g] \<open>g \<noteq> h\<close> by metis
  have key0: "key s (home s h) = g0" using zero gen by (simp add: key_def)
  have less: "home s' g < length (index_map s)"
    using home_less [OF inserted_table_ok [OF ok ins]] inserted_same(3) [OF ins] by simp
  have "index_map s ! home s' g = 0"
  proof (rule ccontr)
    assume used: "index_map s ! home s' g \<noteq> 0"
    with st neq ins have "key s (home s' g) = g" by (simp add: inserted_same stops_def)
    with settledD [OF settled less used] \<open>g \<noteq> h\<close> have "g \<noteq> g0" "lookup s g \<noteq> None" by auto
    then show False using True key0 by (simp add: lookup_def split: if_splits)
  qed
  then have "index_map s' ! home s' g = 0" "key s' (home s' g) = g0"
    using neq ins gen by (simp_all add: inserted_same key_def)
  then show ?thesis using True zero key0 by (simp add: lookup_def live_def inserted_same(2) [OF ins])
qed

lemma inserted_complete:
  assumes ok: "table_ok s" and ins: "inserted s h i s'" and settled: "settled g0 s h"
    and gen: "hd_hash (slot s 0) = g0" and "h \<noteq> g0"
  shows "complete g0 s'"
proof (unfold complete_def, intro allI impI)
  fix p assume p: "p < length (index_map s')" "index_map s' ! p \<noteq> 0"
  show "key s' p \<noteq> g0 \<and> lookup s' (key s' p) \<noteq> None"
  proof (cases "key s' p = h")
    case True
    with inserted_found(2) [OF ok ins] \<open>h \<noteq> g0\<close> show ?thesis by simp
  next
    case False
    with inserted_bucket(2) [OF ok ins] have "p \<noteq> home s h" by auto
    with p ins False settledD [OF settled, of p] have "key s p = key s' p" "key s' p \<noteq> g0" "lookup s (key s' p) \<noteq> None"
      by (auto simp: inserted_same)
    with inserted_other [OF ok ins settled gen False] show ?thesis by simp
  qed
qed

end
