(* ===== verification/Flat_Store.thy ===== *)
theory Flat_Store
  imports Flat_Index
begin

text \<open>
  The flat store as an implementation of the store of the chain state. Its invariant, kept by
  saving headers of either kind, the view of it as a map from block hashes to headers, and what
  each operation does to that map; the accumulators saved with the headers; the cache.
\<close>

section \<open>The invariant\<close>

definition used :: "'c flat_chain_store \<Rightarrow> nat set" where
  "used s = {p. p < length (index_map s) \<and> index_map s ! p \<noteq> 0}"

definition record_ok :: "bitcoin_api \<Rightarrow> hashed_disk_header \<Rightarrow> bool" where
  "record_ok L r \<longleftrightarrow> hd_hash r = all_zeros \<or> hd_hash r = disk_block_hash L (hd_header r)"

text \<open>What holds of a store between any two writes, and, with \<open>complete\<close>, between operations. Fork
  positions in the table are below \<open>n\<close>.\<close>

definition store_ok :: "bitcoin_api \<Rightarrow> hash \<Rightarrow> nat \<Rightarrow> 'c flat_chain_store \<Rightarrow> bool" where
  "store_ok L g0 n s \<longleftrightarrow> table_ok s \<and> index_capacity (meta s) = index_size s
     \<and> unat (block_index_occupancy (meta s)) = card (used s)
     \<and> length (hdr_file s) = unat (headers_file_size (meta s))
     \<and> length (fork_file s) = unat (fork_file_size (meta s))
     \<and> list_all (record_ok L) (hdr_file s) \<and> list_all (record_ok L) (fork_file s)
     \<and> get_disk_header s 0 = Inr (slot s 0) \<and> hd_hash (slot s 0) = g0 \<and> g0 \<noteq> all_zeros
     \<and> (\<forall>p \<in> used s. is_main_chain (index_map s ! p) \<or> unat (index_of (index_map s ! p)) < n)"

definition store_inv :: "bitcoin_api \<Rightarrow> hash \<Rightarrow> 'c flat_chain_store \<Rightarrow> bool" where
  "store_inv L g0 s \<longleftrightarrow> store_ok L g0 (unat (fork_count (meta s))) s \<and> complete g0 s"

lemma store_ok_table: "store_ok L g0 n s \<Longrightarrow> table_ok s"
  by (simp add: store_ok_def)

lemma table_length: "table_ok s \<Longrightarrow> length (index_map s) = unat (index_size s)"
  by (simp add: table_ok_def)

lemma finite_used [simp]: "finite (used s)"
  by (simp add: used_def)

lemma card_used_less:
  assumes "table_ok s"
  shows "card (used s) < length (index_map s)"
proof -
  obtain p where p: "p < length (index_map s)" "index_map s ! p = 0" using assms by (auto simp: table_ok_def)
  then have "used s \<subset> {..< length (index_map s)}" by (auto simp: used_def)
  then have "card (used s) < card {..< length (index_map s)}" by (intro psubset_card_mono) auto
  then show ?thesis by simp
qed

lemma another_empty:
  assumes "Suc (card (used s)) < length (index_map s)"
  shows "\<exists>p < length (index_map s). p \<noteq> q \<and> index_map s ! p = 0"
proof (rule ccontr)
  assume "\<not> ?thesis"
  then have "{..< length (index_map s)} \<subseteq> insert q (used s)" by (auto simp: used_def)
  then have "card {..< length (index_map s)} \<le> card (insert q (used s))" by (intro card_mono) auto
  also have "\<dots> \<le> Suc (card (used s))" by (simp add: card_insert_if)
  finally show False using assms by simp
qed

lemma slot_record:
  assumes "store_ok L g0 n s" and "get_disk_header s i = Inr r"
  shows "record_ok L r" and "hd_hash r \<noteq> all_zeros"
proof -
  have len: "length (hdr_file s) = unat (headers_file_size (meta s))" "length (fork_file s) = unat (fork_file_size (meta s))"
    and all: "list_all (record_ok L) (hdr_file s)" "list_all (record_ok L) (fork_file s)"
    using assms(1) by (simp_all add: store_ok_def)
  show "hd_hash r \<noteq> all_zeros"
    using assms(2) by (auto simp: get_disk_header_def Let_def split: if_splits prod.splits)
  have in_range: "unat j < unat m" if "\<not> m \<le> ucast j" for j :: u32 and m :: usize
  proof -
    have "unat (ucast j :: usize) = unat j"
      using unsigned_less [of j, where ?'a = nat] by (simp add: unsigned_ucast_eq take_bit_nat_eq_self)
    with that show ?thesis by (simp add: word_le_nat_alt)
  qed
  show "record_ok L r"
    using assms(2) len all in_range
    by (auto simp: get_disk_header_def Let_def list_all_length split: if_splits prod.splits)
qed

text \<open>A block that is found is the record at the position where it lives.\<close>

lemma live_slot:
  assumes "table_ok s" and "lookup s h = Some d"
  shows "get_disk_header s (live s h) = Inr (slot s (live s h)) \<and> hd_header (slot s (live s h)) = d"
  using assms home_less [OF assms(1), of h] by (auto simp: table_ok_def live_def lookup_def split: if_splits)

text \<open>A lookup returns a header with the hash that was asked for.\<close>

lemma lookup_hash:
  assumes "store_ok L g0 n s" and "lookup s h = Some d"
  shows "disk_block_hash L d = h"
proof -
  have ok: "table_ok s" using assms(1) by (simp add: store_ok_def)
  then have get: "get_disk_header s (index_map s ! home s h) = Inr (slot s (index_map s ! home s h))"
    using home_less [OF ok] by (simp add: table_ok_def)
  from slot_record [OF assms(1) get] assms(2) show ?thesis
    by (auto simp: lookup_def key_def record_ok_def split: if_splits)
qed

section \<open>Adding an index entry\<close>

lemma card_used_inserted:
  assumes "table_ok s" and "inserted s h i s'"
  shows "card (used s') = (if index_map s ! home s h = 0 then Suc (card (used s)) else card (used s))"
proof -
  have "used s' = insert (home s h) (used s)"
    using inserted_bucket [OF assms] home_less [OF assms(1), of h] inserted_same [OF assms(2)]
    by (auto simp: used_def) (metis)+
  then show ?thesis using home_less [OF assms(1), of h] by (auto simp: used_def card_insert_if)
qed

text \<open>What a table entry changes of the store.\<close>

definition same_files :: "'c flat_chain_store \<Rightarrow> 'c flat_chain_store \<Rightarrow> bool" where
  "same_files s s' \<longleftrightarrow> hdr_file s' = hdr_file s \<and> fork_file s' = fork_file s \<and> lru_cache s' = lru_cache s
     \<and> poisoned s' = poisoned s \<and> accumulator_file s' = accumulator_file s
     \<and> fork_count (meta s') = fork_count (meta s) \<and> headers_file_size (meta s') = headers_file_size (meta s)
     \<and> fork_file_size (meta s') = fork_file_size (meta s)
     \<and> md_validation_index (meta s') = md_validation_index (meta s)"

lemma get_disk_header_cong:
  "hdr_file s' = hdr_file s \<Longrightarrow> fork_file s' = fork_file s \<Longrightarrow>
   headers_file_size (meta s') = headers_file_size (meta s) \<Longrightarrow> fork_file_size (meta s') = fork_file_size (meta s) \<Longrightarrow>
   get_disk_header s' = get_disk_header s"
  by (simp add: get_disk_header_def fun_eq_iff)

definition has_room :: "'c flat_chain_store \<Rightarrow> bool" where
  "has_room s \<longleftrightarrow> unat (block_index_occupancy (meta s)) + 1 < unat (index_capacity (meta s))"

lemma occupancy_step:
  assumes "store_ok L g0 n s"
  shows "unat (block_index_occupancy (meta s) + 1) = unat (block_index_occupancy (meta s)) + 1"
    and "index_capacity (meta s) \<le> block_index_occupancy (meta s) + 1 \<longleftrightarrow> \<not> has_room s"
proof -
  have "unat (block_index_occupancy (meta s)) < unat (index_size s)"
    using assms card_used_less [OF store_ok_table [OF assms]]
    by (simp add: store_ok_def table_length [OF store_ok_table [OF assms]])
  then have "unat (block_index_occupancy (meta s)) + unat (1 :: usize) < 2 ^ LENGTH(64)"
    using unsigned_less [of "index_size s", where ?'a = nat] by simp
  from unat_add_no_overflow [OF this]
  show *: "unat (block_index_occupancy (meta s) + 1) = unat (block_index_occupancy (meta s)) + 1" by simp
  show "index_capacity (meta s) \<le> block_index_occupancy (meta s) + 1 \<longleftrightarrow> \<not> has_room s"
    unfolding has_room_def word_le_nat_alt * by linarith
qed

lemma add_index_entry_cases:
  assumes ok: "store_ok L g0 n s"
    and "i \<noteq> 0" "get_disk_header s i = Inr (slot s i)" "hd_hash (slot s i) = h" and "h \<noteq> g0"
  shows "if has_room s
    then \<exists>s'. add_index_entry h i s = (Inr (), s') \<and> inserted s h i s' \<and> same_files s s'
      \<and> index_capacity (meta s') = index_capacity (meta s)
      \<and> unat (block_index_occupancy (meta s')) = card (used s')
    else add_index_entry h i s = (Inl FullIndex, s)"
proof (cases "has_room s")
  case False
  then show ?thesis using occupancy_step(2) [OF ok] by (simp add: add_index_entry_def Let_def)
next
  case True
  have t: "table_ok s" using ok by (simp add: store_ok_def)
  define s' where "s' = s\<lparr>index_map := (index_map s)[home s h := i],
     meta := (if key s (home s h) = h then meta s
              else (meta s)\<lparr>block_index_occupancy := block_index_occupancy (meta s) + 1\<rparr>)\<rparr>"
  have run: "add_index_entry h i s = (Inr (), s')"
    using True occupancy_step(2) [OF ok]
    by (simp add: add_index_entry_def Let_def set_index_for_hash_def find_pos_ok [OF t] s'_def)
  have same: "same_files s s'" "get_disk_header s' = get_disk_header s"
    by (simp add: same_files_def s'_def) (rule get_disk_header_cong; simp add: s'_def)
  have "Suc (card (used s)) < length (index_map s)"
    using True ok by (simp add: has_room_def store_ok_def table_length [OF t])
  from another_empty [OF this, of "home s h"] assms same(2) have ins: "inserted s h i s'"
    by (simp add: inserted_def s'_def)
  have "index_map s ! home s h = 0 \<longleftrightarrow> key s (home s h) \<noteq> h"
    using stops_home [OF t, of h] ok \<open>h \<noteq> g0\<close> by (auto simp: stops_def key_def store_ok_def)
  with card_used_inserted [OF t ins] have "unat (block_index_occupancy (meta s')) = card (used s')"
    using occupancy_step(1) [OF ok] ok by (simp add: s'_def store_ok_def)
  moreover have "index_capacity (meta s') = index_capacity (meta s)" by (simp add: s'_def)
  ultimately show ?thesis using True run ins same(1) by simp
qed

lemma inserted_store_ok:
  assumes ok: "store_ok L g0 n s" and ins: "inserted s h i s'" and "same_files s s'"
    and "index_capacity (meta s') = index_capacity (meta s)"
    and "unat (block_index_occupancy (meta s')) = card (used s')"
    and fork: "is_main_chain i \<or> unat (index_of i) < n"
  shows "store_ok L g0 n s'"
proof -
  have t: "table_ok s" using ok by (simp add: store_ok_def)
  have "is_main_chain (index_map s' ! p) \<or> unat (index_of (index_map s' ! p)) < n" if "p \<in> used s'" for p
  proof (cases "p = home s h")
    case True
    with inserted_bucket(1) [OF t ins] fork show ?thesis by simp
  next
    case False
    with that inserted_same [OF ins] have "p \<in> used s" "index_map s' ! p = index_map s ! p" by (auto simp: used_def)
    with ok show ?thesis by (simp add: store_ok_def)
  qed
  then show ?thesis
    using assms inserted_table_ok [OF t ins] inserted_same(2) [OF ins]
    by (simp add: store_ok_def same_files_def inserted_def)
qed

section \<open>Writing a record\<close>

text \<open>The store after the record at the tagged position \<open>i\<close> was replaced by one with the hash \<open>h\<close>.\<close>

definition overwritten :: "'c flat_chain_store \<Rightarrow> index \<Rightarrow> hashed_disk_header \<Rightarrow> 'c flat_chain_store \<Rightarrow> bool" where
  "overwritten s i r s' \<longleftrightarrow> get_disk_header s' = (get_disk_header s)(i := Inr r)
     \<and> index_map s' = index_map s \<and> index_size s' = index_size s"

lemma ucast_less_iff: "ucast (j :: u32) < (m :: usize) \<longleftrightarrow> unat j < unat m"
proof -
  have "unat (ucast j :: usize) = unat j"
    using unsigned_less [of j, where ?'a = nat] by (simp add: unsigned_ucast_eq take_bit_nat_eq_self)
  then show ?thesis by (simp add: word_less_nat_alt)
qed

lemma get_disk_header_mut_ok:
  assumes "get_disk_header_mut s i = Inr (old, write)" and "store_ok L g0 n s" and "hd_hash r \<noteq> all_zeros"
  shows "overwritten s i r (write r)"
proof -
  have len: "length (hdr_file s) = unat (headers_file_size (meta s))" "length (fork_file s) = unat (fork_file_size (meta s))"
    using assms(2) by (simp_all add: store_ok_def)
  have "get_disk_header (write r) j = ((get_disk_header s)(i := Inr r)) j" for j
  proof (cases "j = i")
    case True
    then show ?thesis using assms(1,3) len
      by (auto simp: get_disk_header_mut_def get_disk_header_def Let_def not_le ucast_less_iff split: if_splits)
  next
    case False
    then have "is_main_chain j = is_main_chain i \<Longrightarrow> unat (index_of i) \<noteq> unat (index_of j)"
      using index_eqI [of j i] by (metis word_unat_eq_iff)
    with False assms(1) len show ?thesis
      by (cases "is_main_chain i"; cases "is_main_chain j")
        (auto simp: get_disk_header_mut_def get_disk_header_def Let_def split: if_splits)
  qed
  moreover have "index_map (write r) = index_map s" "index_size (write r) = index_size s"
    using assms(1) by (auto simp: get_disk_header_mut_def Let_def split: if_splits)
  ultimately show ?thesis by (simp add: overwritten_def fun_eq_iff)
qed

lemma overwritten_same:
  assumes "overwritten s i r s'"
  shows "bucket s' g j = bucket s g j" and "slot s' x = (if x = i then r else slot s x)"
    and "key s' p = (if index_map s ! p = i then hd_hash r else key s p)"
    and "index_map s' = index_map s"
  using assms by (auto simp: overwritten_def bucket_def slot_def key_def)

lemma overwritten_table_ok: "table_ok s \<Longrightarrow> overwritten s i r s' \<Longrightarrow> table_ok s'"
  by (auto simp: table_ok_def overwritten_def slot_def)

text \<open>No other block lives at the position.\<close>

definition vacant :: "'c flat_chain_store \<Rightarrow> index \<Rightarrow> hash \<Rightarrow> bool" where
  "vacant s i h \<longleftrightarrow> (\<forall>g. g \<noteq> h \<longrightarrow> lookup s g \<noteq> None \<longrightarrow> live s g \<noteq> i)"

lemma overwritten_other:
  assumes ok: "table_ok s" and ow: "overwritten s i r s'" and vac: "vacant s i (hd_hash r)" and "i \<noteq> 0"
    and g: "g \<noteq> hd_hash r"
  shows "lookup s' g = lookup s g" and "live s' g = live s g"
proof -
  have stops: "stops s' g p = stops s g p" if "index_map s ! p \<noteq> i" for p
    using that by (simp add: stops_def overwritten_same [OF ow])
  from home_stops [OF ok] obtain j where j: "home s g = bucket s g j"
    "\<And>i. i < j \<Longrightarrow> \<not> stops s g (bucket s g i)" "stops s g (bucket s g j)"
    by metis
  have neq: "index_map s ! home s g \<noteq> i"
  proof
    assume i: "index_map s ! home s g = i"
    with stops_home [OF ok, of g] \<open>i \<noteq> 0\<close> have "key s (home s g) = g" by (simp add: stops_def)
    then have "lookup s g \<noteq> None" by (simp add: lookup_def)
    with vac g i show False by (auto simp: vacant_def live_def)
  qed
  have "home s' g = bucket s' g j"
  proof (rule homeI)
    show "stops s' g (bucket s' g j)" using j neq stops by (simp add: overwritten_same(1) [OF ow])
  next
    fix l assume "l < j"
    then have "\<not> stops s g (bucket s g l)" by (rule j(2))
    then show "\<not> stops s' g (bucket s' g l)"
      using stops [of "bucket s g l"] g \<open>i \<noteq> 0\<close>
      by (cases "index_map s ! bucket s g l = i") (auto simp: stops_def overwritten_same [OF ow])
  qed
  then have home: "home s' g = home s g" using j(1) by (simp add: overwritten_same(1) [OF ow])
  show "lookup s' g = lookup s g" "live s' g = live s g"
    using neq by (simp_all add: lookup_def live_def home overwritten_same [OF ow])
qed

lemma overwritten_settled:
  assumes ok: "table_ok s" and ow: "overwritten s i r s'" and vac: "vacant s i (hd_hash r)" and "i \<noteq> 0"
    and "complete g0 s"
  shows "settled g0 s' (hd_hash r)"
proof (unfold settled_def, intro allI impI)
  fix p assume p: "p < length (index_map s')" "index_map s' ! p \<noteq> 0" "key s' p \<noteq> hd_hash r"
  then have "key s' p = key s p" by (simp add: overwritten_same [OF ow] split: if_splits)
  moreover have "key s p \<noteq> g0 \<and> lookup s (key s p) \<noteq> None"
    using p \<open>complete g0 s\<close> by (simp add: complete_def overwritten_same(4) [OF ow])
  ultimately show "key s' p \<noteq> g0 \<and> lookup s' (key s' p) \<noteq> None"
    using overwritten_other(1) [OF ok ow vac \<open>i \<noteq> 0\<close>, of "key s p"] p(3) by simp
qed

lemma written_store_ok:
  assumes mut: "get_disk_header_mut s i = Inr (old, write)" and ok: "store_ok L g0 n s"
    and r: "record_ok L r" "hd_hash r \<noteq> all_zeros" and "i \<noteq> 0 \<or> hd_hash r = g0"
  shows "store_ok L g0 n (write r)"
proof -
  note ow = get_disk_header_mut_ok [OF mut ok r(2)]
  have "table_ok (write r)" using store_ok_table [OF ok] ow by (rule overwritten_table_ok)
  moreover have "meta (write r) = meta s" "used (write r) = used s"
    "length (hdr_file (write r)) = length (hdr_file s)" "length (fork_file (write r)) = length (fork_file s)"
    using mut by (auto simp: get_disk_header_mut_def Let_def used_def split: if_splits)
  moreover have "list_all (record_ok L) (hdr_file (write r)) \<and> list_all (record_ok L) (fork_file (write r))"
    using mut ok r(1) by (auto simp: get_disk_header_mut_def Let_def store_ok_def list_all_iff
        dest!: set_update_subset_insert [THEN subsetD] split: if_splits)
  moreover have "get_disk_header (write r) 0 = Inr (slot (write r) 0) \<and> hd_hash (slot (write r) 0) = g0"
    using ow ok assms(5) by (cases "i = 0") (auto simp: overwritten_def slot_def store_ok_def)
  ultimately show ?thesis using ok ow by (simp add: store_ok_def overwritten_def)
qed

text \<open>A header recorded under a position: the map of headers gains it and keeps the others, and the
  other blocks stay where they are.\<close>

definition recorded ::
  "'c flat_chain_store \<Rightarrow> disk_block_header \<Rightarrow> hash \<Rightarrow> index \<Rightarrow> 'c flat_chain_store \<Rightarrow> bool" where
  "recorded s d h i s' \<longleftrightarrow> lookup s' = (lookup s)(h \<mapsto> d) \<and> live s' h = i
     \<and> (\<forall>g. g \<noteq> h \<longrightarrow> lookup s g \<noteq> None \<longrightarrow> live s' g = live s g)"

lemma recordedD: "recorded s d h i s' \<Longrightarrow> lookup s' = (lookup s)(h \<mapsto> d)"
  unfolding recorded_def by (rule conjunct1)

definition entry_for :: "bitcoin_api \<Rightarrow> disk_block_header \<Rightarrow> hashed_disk_header" where
  "entry_for L d = \<lparr>hd_header = d, hd_hash = disk_block_hash L d, acc_pos = 0, acc_len = 0\<rparr>"

lemma entry_for_simps [simp]:
  "hd_header (entry_for L d) = d" "hd_hash (entry_for L d) = disk_block_hash L d" "record_ok L (entry_for L d)"
  by (simp_all add: entry_for_def record_ok_def)

definition storable :: "bitcoin_api \<Rightarrow> hash \<Rightarrow> disk_block_header \<Rightarrow> bool" where
  "storable L g0 d \<longleftrightarrow> disk_block_hash L d \<noteq> g0 \<and> disk_block_hash L d \<noteq> all_zeros"

lemma write_then_index:
  assumes mut: "get_disk_header_mut s i = Inr (old, write)" and ok: "store_ok L g0 n s" and compl: "complete g0 s"
    and d: "storable L g0 d" and i: "i \<noteq> 0" and fork: "is_main_chain i \<or> unat (index_of i) < n"
    and vac: "vacant s i (disk_block_hash L d)"
    and run: "add_index_entry (disk_block_hash L d) i (write (entry_for L d)) = (Inr (), s')"
  shows "store_ok L g0 n s'" and "complete g0 s'" and "recorded s d (disk_block_hash L d) i s'"
    and "same_files (write (entry_for L d)) s'"
proof -
  let ?h = "disk_block_hash L d" and ?s1 = "write (entry_for L d)"
  have t: "table_ok s" using ok by (rule store_ok_table)
  have ow: "overwritten s i (entry_for L d) ?s1"
    using d by (intro get_disk_header_mut_ok [OF mut ok]) (simp add: storable_def)
  have ok1: "store_ok L g0 n ?s1"
    using d i by (intro written_store_ok [OF mut ok]) (simp_all add: storable_def)
  have t1: "table_ok ?s1" using ok1 by (rule store_ok_table)
  have at: "get_disk_header ?s1 i = Inr (slot ?s1 i)" "slot ?s1 i = entry_for L d"
    using ow by (simp_all add: overwritten_def slot_def)
  have other: "lookup ?s1 g = lookup s g" "live ?s1 g = live s g" if "g \<noteq> ?h" for g
    using overwritten_other [OF t ow _ i, of g] vac that by simp_all
  have settled: "settled g0 ?s1 ?h" using overwritten_settled [OF t ow _ i compl] vac by simp
  have gen: "hd_hash (slot ?s1 0) = g0" using ok1 by (simp add: store_ok_def)
  have "has_room ?s1"
    using add_index_entry_cases [OF ok1 i at(1), of ?h] at d run by (auto simp: storable_def split: if_splits)
  with add_index_entry_cases [OF ok1 i at(1), of ?h] at d run
  have ins: "inserted ?s1 ?h i s'" and same: "same_files ?s1 s'"
    and "index_capacity (meta s') = index_capacity (meta ?s1)"
    and "unat (block_index_occupancy (meta s')) = card (used s')"
    by (auto simp: storable_def)
  then show "store_ok L g0 n s'" "same_files ?s1 s'" using inserted_store_ok [OF ok1 ins same _ _ fork] by simp_all
  show "complete g0 s'" using inserted_complete [OF t1 ins settled gen] d by (simp add: storable_def)
  have keep: "lookup s' g = lookup s g" "lookup s g \<noteq> None \<Longrightarrow> live s' g = live s g" if "g \<noteq> ?h" for g
    using inserted_other [OF t1 ins settled gen that] other [OF that] by auto
  then have "lookup s' g = ((lookup s)(?h \<mapsto> d)) g" for g
    using inserted_found(2) [OF t1 ins] at(2) by (cases "g = ?h") auto
  with keep inserted_found(3) [OF t1 ins] show "recorded s d ?h i s'" by (auto simp: recorded_def)
qed

text \<open>The view depends on the records and the table only.\<close>

lemma view_cong:
  assumes "get_disk_header s' = get_disk_header s" and "index_map s' = index_map s" and "index_size s' = index_size s"
  shows "slot s' = slot s" and "lookup s' = lookup s" and "live s' = live s" and "key s' = key s"
    and "table_ok s' = table_ok s" and "complete g0 s' = complete g0 s" and "used s' = used s"
proof -
  show slot: "slot s' = slot s" using assms by (simp add: slot_def fun_eq_iff)
  show key: "key s' = key s" using assms slot by (simp add: key_def fun_eq_iff)
  have "bucket s' = bucket s" using assms by (simp add: bucket_def fun_eq_iff)
  moreover have "stops s' = stops s" using assms key by (simp add: stops_def fun_eq_iff)
  ultimately have home: "home s' = home s" by (simp add: home_def fun_eq_iff)
  show lookup: "lookup s' = lookup s" using assms key slot home by (simp add: lookup_def fun_eq_iff)
  show "live s' = live s" using assms home by (simp add: live_def fun_eq_iff)
  show "table_ok s' = table_ok s" using assms slot by (simp add: table_ok_def)
  show "complete g0 s' = complete g0 s" using assms key lookup by (simp add: complete_def)
  show "used s' = used s" using assms by (simp add: used_def)
qed

section \<open>Headers outside the best chain\<close>

lemma store_ok_mono: "store_ok L g0 n s \<Longrightarrow> n \<le> n' \<Longrightarrow> store_ok L g0 n' s"
  by (fastforce simp: store_ok_def)

lemma fork_slot_vacant:
  assumes ok: "store_ok L g0 (unat f) s" and ix: "index_new_fork f = Inr i"
  shows "vacant s i h"
proof (unfold vacant_def, intro allI impI notI)
  fix g assume "live s g = i"
  moreover have "home s g < length (index_map s)" using home_less [OF store_ok_table [OF ok]] .
  ultimately have "home s g \<in> used s" "index_map s ! home s g = i"
    using index_fork(3) [OF ix] by (auto simp: used_def live_def)
  with ok index_fork(1,2) [OF ix] show False by (auto simp: store_ok_def)
qed

lemma save_fork_block_ok:
  assumes inv: "store_inv L g0 s" and d: "storable L g0 d" and run: "save_fork_block L d s = (Inr (), s')"
  shows "store_inv L g0 s'" and "\<exists>i. \<not> is_main_chain i \<and> recorded s d (disk_block_hash L d) i s'"
    and "hdr_file s' = hdr_file s" and "lru_cache s' = lru_cache s" and "poisoned s' = poisoned s"
proof -
  let ?f = "fork_count (meta s)" and ?h = "disk_block_hash L d"
  have ok: "store_ok L g0 (unat ?f) s" and compl: "complete g0 s" using inv by (simp_all add: store_inv_def)
  obtain i old wr where ix: "index_new_fork ?f = Inr i" and mut: "get_disk_header_mut s i = Inr (old, wr)"
    using run by (auto simp: save_fork_block_def Let_def bindE_def split: sum.splits)
  obtain s2 where add: "add_index_entry ?h i (wr (entry_for L d)) = (Inr (), s2)"
    and s': "s' = s2\<lparr>meta := (meta s2)\<lparr>fork_count := fork_count (meta s2) + 1\<rparr>\<rparr>"
    using run by (auto simp: save_fork_block_def Let_def ix mut entry_for_def split: prod.splits sum.splits)
  note fork = index_fork [OF ix]
  note done_ = write_then_index [OF mut store_ok_mono [OF ok, of "Suc (unat ?f)"] compl d fork(3) _
      fork_slot_vacant [OF ok ix] add]
  have ok2: "store_ok L g0 (Suc (unat ?f)) s2" and compl2: "complete g0 s2" and rec: "recorded s d ?h i s2"
    and same: "same_files (wr (entry_for L d)) s2"
    using done_ fork(2) by simp_all
  have w: "fork_count (meta (wr r)) = ?f" "hdr_file (wr r) = hdr_file s" "lru_cache (wr r) = lru_cache s"
    "poisoned (wr r) = poisoned s" for r
    using mut fork(1) by (auto simp: get_disk_header_mut_def Let_def split: if_splits)
  have "unat (?f + 1) = Suc (unat ?f)"
    using fork(4) unat_add_no_overflow [of ?f 1] by simp
  moreover have same2: "get_disk_header s' = get_disk_header s2" "index_map s' = index_map s2" "index_size s' = index_size s2"
    by (rule get_disk_header_cong) (simp_all add: s')
  moreover have "fork_count (meta s') = ?f + 1" using same w by (simp add: s' same_files_def)
  ultimately show "store_inv L g0 s'"
    using ok2 compl2 by (simp add: store_inv_def store_ok_def view_cong [OF same2]) (simp add: s')
  with view_cong(2,3) [OF same2] rec fork(1) show "\<exists>i. \<not> is_main_chain i \<and> recorded s d ?h i s'" by (auto simp: recorded_def)
  show "hdr_file s' = hdr_file s" "lru_cache s' = lru_cache s" "poisoned s' = poisoned s"
    using same w by (simp_all add: s' same_files_def)
qed

section \<open>Headers of the best chain\<close>

lemma save_main_ok:
  assumes inv: "store_inv L g0 s" and d: "storable L g0 d" and k: "disk_height d = Some k" "k \<noteq> 0"
    and vac: "vacant s k (disk_block_hash L d)"
    and save: "write_header_to_storage L d s = (Inr (), s1)"
    and index: "add_index_entry (disk_block_hash L d) k s1 = (Inr (), s2)"
  shows "store_inv L g0 s2" and "recorded s d (disk_block_hash L d) k s2"
    and "hdr_file s2 = (hdr_file s)[unat k := entry_for L d]" and "unat k < length (hdr_file s)"
    and "lru_cache s2 = lru_cache s" and "poisoned s2 = poisoned s"
proof -
  let ?f = "unat (fork_count (meta s))"
  have ok: "store_ok L g0 ?f s" and compl: "complete g0 s" using inv by (simp_all add: store_inv_def)
  obtain old wr where kb: "unat k < 2 ^ 31" and mut: "get_disk_header_mut s k = Inr (old, wr)"
    and s1: "s1 = wr (entry_for L d)"
    using save k(1) by (auto simp: write_header_to_storage_def bindE_def index_new_iff entry_for_def split: sum.splits)
  note main = index_main [OF kb]
  have w: "hdr_file (wr r) = (hdr_file s)[unat k := r]" "meta (wr r) = meta s" "lru_cache (wr r) = lru_cache s"
    "poisoned (wr r) = poisoned s" for r
    using mut main by (auto simp: get_disk_header_mut_def Let_def split: if_splits)
  have lt: "unat k < unat (headers_file_size (meta s))"
    using mut main by (auto simp: get_disk_header_mut_def Let_def not_le ucast_less_iff split: if_splits)
  note res = write_then_index [OF mut ok compl d k(2) _ vac index [unfolded s1]]
  have same: "same_files (wr (entry_for L d)) s2" using res(4) main(1) by simp
  show "recorded s d (disk_block_hash L d) k s2" using res(3) main(1) by simp
  show "store_inv L g0 s2" using res(1,2) main(1) same w by (simp add: store_inv_def same_files_def)
  show "hdr_file s2 = (hdr_file s)[unat k := entry_for L d]" "lru_cache s2 = lru_cache s" "poisoned s2 = poisoned s"
    using same w by (simp_all add: same_files_def)
  show "unat k < length (hdr_file s)" using lt ok by (simp add: store_ok_def)
qed

section \<open>The cache\<close>

text \<open>What the documentation of the LRU cache promises: a lookup returns what is held and evicts nothing,
  an insertion holds the new value and may evict others.\<close>

definition lru_laws :: "'c lru_api \<Rightarrow> bool" where
  "lru_laws X \<longleftrightarrow>
     (\<forall>c k. fst (lru_get X k c) = lru_peek X c k \<and> lru_peek X (snd (lru_get X k c)) = lru_peek X c)
   \<and> (\<forall>c k v. lru_peek X (lru_put X k v c) k = Some v
        \<and> (\<forall>j. j \<noteq> k \<longrightarrow> lru_peek X (lru_put X k v c) j = None \<or> lru_peek X (lru_put X k v c) j = lru_peek X c j))
   \<and> (\<forall>n. lru_peek X (lru_new X n) = Map.empty)"

definition coherent :: "'c lru_api \<Rightarrow> 'c flat_chain_store \<Rightarrow> bool" where
  "coherent X s \<longleftrightarrow> (\<forall>h d. lru_peek X (lru_cache s) h = Some d \<longrightarrow> lookup s h = Some d)"

definition flat_inv :: "bitcoin_api \<Rightarrow> 'c lru_api \<Rightarrow> hash \<Rightarrow> 'c flat_chain_store \<Rightarrow> bool" where
  "flat_inv L X g0 s \<longleftrightarrow> lru_laws X \<and> store_inv L g0 s \<and> coherent X s \<and> \<not> poisoned s"

lemma flat_inv_table: "flat_inv L X g0 s \<Longrightarrow> table_ok s"
  unfolding flat_inv_def store_inv_def using store_ok_table by blast

lemma store_inv_cache:
  "store_inv L g0 (s\<lparr>lru_cache := c\<rparr>) = store_inv L g0 s" "lookup (s\<lparr>lru_cache := c\<rparr>) = lookup s"
  "live (s\<lparr>lru_cache := c\<rparr>) = live s"
proof -
  have same: "get_disk_header (s\<lparr>lru_cache := c\<rparr>) = get_disk_header s" "index_map (s\<lparr>lru_cache := c\<rparr>) = index_map s"
    "index_size (s\<lparr>lru_cache := c\<rparr>) = index_size s"
    by (rule get_disk_header_cong) simp_all
  show "lookup (s\<lparr>lru_cache := c\<rparr>) = lookup s" "live (s\<lparr>lru_cache := c\<rparr>) = live s"
    using view_cong [OF same] by simp_all
  show "store_inv L g0 (s\<lparr>lru_cache := c\<rparr>) = store_inv L g0 s"
    by (simp add: store_inv_def store_ok_def view_cong [OF same] same)
qed

lemma store_inv_warning:
  "store_inv L g0 (s\<lparr>pending_warnings := w\<rparr>) = store_inv L g0 s" "lookup (s\<lparr>pending_warnings := w\<rparr>) = lookup s"
  "live (s\<lparr>pending_warnings := w\<rparr>) = live s"
proof -
  have same: "get_disk_header (s\<lparr>pending_warnings := w\<rparr>) = get_disk_header s"
    "index_map (s\<lparr>pending_warnings := w\<rparr>) = index_map s" "index_size (s\<lparr>pending_warnings := w\<rparr>) = index_size s"
    by (rule get_disk_header_cong) simp_all
  show "lookup (s\<lparr>pending_warnings := w\<rparr>) = lookup s" "live (s\<lparr>pending_warnings := w\<rparr>) = live s"
    using view_cong [OF same] by simp_all
  show "store_inv L g0 (s\<lparr>pending_warnings := w\<rparr>) = store_inv L g0 s"
    by (simp add: store_inv_def store_ok_def view_cong [OF same] same)
qed

lemma flat_get_header_ok:
  assumes "flat_inv L X g0 s"
  shows "\<exists>s'. flat_get_header X h s = (Inr (lookup s h), s') \<and> flat_inv L X g0 s' \<and> lookup s' = lookup s
    \<and> live s' = live s \<and> hdr_file s' = hdr_file s"
proof -
  obtain r c where get: "lru_get X h (lru_cache s) = (r, c)" by fastforce
  have laws: "lru_laws X" and inv: "store_inv L g0 s" and coh: "coherent X s" and "\<not> poisoned s"
    using assms by (simp_all add: flat_inv_def)
  have r: "r = lru_peek X (lru_cache s) h" and c: "lru_peek X c = lru_peek X (lru_cache s)"
    using laws get by (auto simp: lru_laws_def dest!: spec [of _ "lru_cache s"] spec [of _ h])
  have t: "table_ok (s\<lparr>lru_cache := c\<rparr>)"
    using inv store_inv_cache(1) [of L g0 c s] store_ok_table by (auto simp: store_inv_def)
  show ?thesis
  proof (cases r)
    case (Some d)
    then have "lookup s h = Some d" using coh r by (auto simp: coherent_def)
    with Some get c inv coh laws \<open>\<not> poisoned s\<close> show ?thesis
      by (auto simp: flat_get_header_def flat_inv_def store_inv_cache coherent_def)
  next
    case None
    show ?thesis
    proof (cases "lookup s h")
      case (Some d)
      let ?c = "lru_put X h d c"
      have "lookup s g = Some e" if "lru_peek X ?c g = Some e" for g e
        using that laws c coh Some by (cases "g = h") (auto simp: lru_laws_def coherent_def, metis option.distinct(1))
      then have "coherent X (s\<lparr>lru_cache := ?c\<rparr>)" by (simp add: coherent_def store_inv_cache)
      with None Some get inv laws \<open>\<not> poisoned s\<close> show ?thesis
        by (simp add: flat_get_header_def flat_inv_def get_header_by_hash_ok [OF t] store_inv_cache)
    next
      case none: None
      with None get c inv coh laws \<open>\<not> poisoned s\<close> show ?thesis
        by (simp add: flat_get_header_def flat_inv_def get_header_by_hash_ok [OF t] store_inv_cache coherent_def)
    qed
  qed
qed

section \<open>Saving through the interface\<close>

fun on_best_chain :: "disk_block_header \<Rightarrow> bool" where
  "on_best_chain (FullyValid _ _) = True"
| "on_best_chain (AssumedValid _ _) = True"
| "on_best_chain (HeadersOnly _ _) = True"
| "on_best_chain _ = False"

lemma coherent_put:
  assumes "lru_laws X" and "coherent X s" and "lookup s' = (lookup s)(h \<mapsto> d)"
    and "lru_cache s' = lru_put X h d (lru_cache s)"
  shows "coherent X s'"
proof -
  have "((lookup s)(h \<mapsto> d)) g = Some e" if "lru_peek X (lru_put X h d (lru_cache s)) g = Some e" for g e
  proof (cases "g = h")
    case True
    with that assms(1) show ?thesis by (auto simp: lru_laws_def)
  next
    case False
    with assms(1) that have "lru_peek X (lru_cache s) g = Some e"
      unfolding lru_laws_def by (metis option.distinct(1))
    with False assms(2) show ?thesis by (simp add: coherent_def)
  qed
  then show ?thesis using assms(3,4) by (simp add: coherent_def)
qed

lemma recorded_cache: "recorded (s\<lparr>lru_cache := c\<rparr>) d h i s' = recorded s d h i s'"
  by (simp add: recorded_def store_inv_cache)

lemma vacant_cache: "vacant (s\<lparr>lru_cache := c\<rparr>) i h = vacant s i h"
  by (simp add: vacant_def store_inv_cache)

lemma flat_save_fork_ok:
  assumes inv: "flat_inv L X g0 s" and d: "storable L g0 d" "\<not> on_best_chain d"
    and run: "flat_save_header L X d s = (Inr (), s')"
  shows "flat_inv L X g0 s'" and "\<exists>i. \<not> is_main_chain i \<and> recorded s d (disk_block_hash L d) i s'"
    and "hdr_file s' = hdr_file s"
proof -
  let ?s = "s\<lparr>lru_cache := lru_put X (disk_block_hash L d) d (lru_cache s)\<rparr>"
  have inv': "store_inv L g0 ?s" and np: "\<not> poisoned s" using inv by (simp_all add: flat_inv_def store_inv_cache)
  have "save_fork_block L d ?s = (Inr (), s')"
    using run np d(2) by (cases d) (auto simp: flat_save_header_def Let_def split: prod.splits if_splits)
  note res = save_fork_block_ok [OF inv' d(1) this]
  show rec: "\<exists>i. \<not> is_main_chain i \<and> recorded s d (disk_block_hash L d) i s'"
    using res(2) by (simp only: recorded_cache)
  show "hdr_file s' = hdr_file s" using res(3) by simp
  have "lookup s' = (lookup s)(disk_block_hash L d \<mapsto> d)" using rec by (elim exE conjE) (rule recordedD)
  moreover have "lru_laws X" "coherent X s" using inv by (simp_all add: flat_inv_def)
  ultimately have "coherent X s'" using res(4) coherent_put by fastforce
  then show "flat_inv L X g0 s'" using inv res by (simp add: flat_inv_def)
qed

lemma flat_connect_ok:
  assumes inv: "flat_inv L X g0 s" and d: "storable L g0 d" "on_best_chain d" "disk_height d = Some k" "k \<noteq> 0"
    and vac: "vacant s k (disk_block_hash L d)"
    and save: "flat_save_header L X d s = (Inr (), s1)"
    and index: "flat_update_block_index k (disk_block_hash L d) s1 = (Inr (), s2)"
  shows "flat_inv L X g0 s2" and "recorded s d (disk_block_hash L d) k s2"
    and "hdr_file s2 = (hdr_file s)[unat k := entry_for L d]" and "unat k < length (hdr_file s)"
proof -
  let ?s = "s\<lparr>lru_cache := lru_put X (disk_block_hash L d) d (lru_cache s)\<rparr>"
  have inv': "store_inv L g0 ?s" and np: "\<not> poisoned s" using inv by (simp_all add: flat_inv_def store_inv_cache)
  have w: "write_header_to_storage L d ?s = (Inr (), s1)"
    using save np d(2) by (cases d) (auto simp: flat_save_header_def Let_def split: prod.splits if_splits)
  have "add_index_entry (disk_block_hash L d) k s1 = (Inr (), s2)"
    using index by (auto simp: flat_update_block_index_def Let_def index_new_iff split: sum.splits prod.splits if_splits)
  note res = save_main_ok [OF inv' d(1,3,4) _ w this, unfolded vacant_cache, OF vac]
  show rec: "recorded s d (disk_block_hash L d) k s2" using res(2) by (simp only: recorded_cache)
  show "hdr_file s2 = (hdr_file s)[unat k := entry_for L d]" "unat k < length (hdr_file s)"
    using res(3,4) by simp_all
  have "lookup s2 = (lookup s)(disk_block_hash L d \<mapsto> d)" using rec by (rule recordedD)
  moreover have "lru_laws X" "coherent X s" using inv by (simp_all add: flat_inv_def)
  ultimately have "coherent X s2" using res(5) coherent_put by fastforce
  then show "flat_inv L X g0 s2" using inv res by (simp add: flat_inv_def)
qed

text \<open>With room in the file and in the table both steps succeed.\<close>

lemma flat_connect_succeeds:
  assumes inv: "flat_inv L X g0 s" and d: "storable L g0 d" "on_best_chain d" "disk_height d = Some k" "k \<noteq> 0"
    and room: "unat k < length (hdr_file s)" "unat k < 2 ^ 31" "has_room s"
  shows "\<exists>s1 s2. flat_save_header L X d s = (Inr (), s1) \<and> flat_update_block_index k (disk_block_hash L d) s1 = (Inr (), s2)"
proof -
  let ?s = "s\<lparr>lru_cache := lru_put X (disk_block_hash L d) d (lru_cache s)\<rparr>"
  let ?s1 = "?s\<lparr>hdr_file := (hdr_file s)[unat k := entry_for L d]\<rparr>"
  have inv': "store_inv L g0 ?s" and np: "\<not> poisoned s" using inv by (simp_all add: flat_inv_def store_inv_cache)
  then have ok: "store_ok L g0 (unat (fork_count (meta ?s))) ?s" by (simp add: store_inv_def)
  note main = index_main [OF room(2)]
  have len: "unat k < unat (headers_file_size (meta s))" using ok room(1) by (simp add: store_ok_def)
  then have mut: "get_disk_header_mut ?s k = Inr (hdr_file ?s ! unat k, \<lambda>r. ?s\<lparr>hdr_file := (hdr_file ?s)[unat k := r]\<rparr>)"
    by (simp add: get_disk_header_mut_def main Let_def not_le ucast_less_iff)
  have kb: "index_new k = Inr k" using room(2) by (simp add: index_new_iff)
  have w: "write_header_to_storage L d ?s = (Inr (), ?s1)"
    using d(3) mut kb by (simp add: write_header_to_storage_def entry_for_def)
  then have save: "flat_save_header L X d s = (Inr (), ?s1)"
    using np d(2) by (cases d) (simp_all add: flat_save_header_def Let_def)
  have ow: "overwritten ?s k (entry_for L d) ?s1"
    using get_disk_header_mut_ok [OF mut ok, of "entry_for L d"] d(1) by (simp add: storable_def)
  have ok1: "store_ok L g0 (unat (fork_count (meta ?s))) ?s1"
    using written_store_ok [OF mut ok, of "entry_for L d"] d by (simp add: storable_def)
  have at: "get_disk_header ?s1 k = Inr (slot ?s1 k)" "hd_hash (slot ?s1 k) = disk_block_hash L d"
    using ow by (simp_all add: overwritten_def slot_def)
  have "has_room ?s1" using room(3) by (simp add: has_room_def)
  with add_index_entry_cases [OF ok1 d(4) at] d(1) obtain s2 where
    "add_index_entry (disk_block_hash L d) k ?s1 = (Inr (), s2)"
    by (auto simp: storable_def)
  then have "flat_update_block_index k (disk_block_hash L d) ?s1 = (Inr (), s2)"
    by (simp add: flat_update_block_index_def kb)
  with save show ?thesis by blast
qed

lemma flat_connect_meta:
  assumes "flat_save_header L X d s = (Inr (), s1)" and "on_best_chain d"
    and "flat_update_block_index k h s1 = (Inr (), s2)"
  shows "meta s2 = meta s \<or> meta s2 = (meta s)\<lparr>block_index_occupancy := block_index_occupancy (meta s) + 1\<rparr>"
proof -
  have "write_header_to_storage L d (s\<lparr>lru_cache := c\<rparr>) = (Inr (), s1) \<Longrightarrow> meta s1 = meta s" for c
    by (auto simp: write_header_to_storage_def get_disk_header_mut_def bindE_def Let_def split: option.splits sum.splits if_splits)
  then have "meta s1 = meta s"
    using assms(1,2) by (cases d) (auto simp: flat_save_header_def Let_def split: prod.splits if_splits)
  moreover have "meta s2 = meta s1 \<or> meta s2 = (meta s1)\<lparr>block_index_occupancy := block_index_occupancy (meta s1) + 1\<rparr>"
    using assms(3) by (auto simp: flat_update_block_index_def add_index_entry_def Let_def split: sum.splits prod.splits if_splits)
  ultimately show ?thesis by simp
qed

section \<open>A new store\<close>

definition empty_disk :: disk where
  "empty_disk = \<lparr>d_headers = [], d_index = [], d_fork = [], d_accumulators = [], d_metadata = None\<rparr>"

text \<open>A store created in an empty directory after the genesis block was saved and indexed.\<close>

definition with_genesis :: "bitcoin_api \<Rightarrow> 'c lru_api \<Rightarrow> header \<Rightarrow> 'c flat_chain_store \<Rightarrow> 'c flat_chain_store" where
  "with_genesis L X genesis s = s\<lparr>
     lru_cache := lru_put X (block_hash L genesis) (FullyValid genesis 0) (lru_cache s),
     hdr_file := (hdr_file s)[0 := entry_for L (FullyValid genesis 0)]\<rparr>"

lemma genesis_slot:
  assumes "hdr_file s \<noteq> []" and "length (hdr_file s) = unat (headers_file_size (meta s))" and "block_hash L genesis \<noteq> all_zeros"
  shows "get_disk_header (with_genesis L X genesis s) 0 = Inr (entry_for L (FullyValid genesis 0))"
proof -
  have "0 < unat (headers_file_size (meta s))" using assms(1) by (simp flip: assms(2))
  then have "headers_file_size (meta s) \<noteq> 0" by auto
  moreover have "(hdr_file s)[0 := r] ! 0 = r" for r using assms(1) by (cases "hdr_file s") simp_all
  ultimately show ?thesis using assms
    by (simp add: get_disk_header_def with_genesis_def is_main_chain_def index_of_def disk_block_hash_def Let_def)
qed

lemma new_store_table:
  assumes "index_map s = replicate (unat (index_size s)) 0" and "index_size s = 2 ^ k" "k < 64"
    and "get_disk_header s 0 = Inr r"
  shows "table_ok s" and "lookup s h = (if h = hd_hash r then Some (hd_header r) else None)" and "used s = {}"
    and "complete g0 s"
proof -
  have n: "0 < unat (index_size s)" using assms(2,3) by (simp add: unat_power_of_two)
  have "get_disk_header s 0 = Inr (slot s 0)" "slot s 0 = r" using assms(4) by (simp_all add: slot_def)
  with assms n show t: "table_ok s" by (auto simp: table_ok_def intro: exI [of _ 0])
  have "index_map s ! home s h = 0" using assms(1) home_less [OF t, of h] by simp
  with \<open>slot s 0 = r\<close> show "lookup s h = (if h = hd_hash r then Some (hd_header r) else None)"
    by (auto simp: lookup_def key_def)
  show "used s = {}" "complete g0 s" using assms(1) by (auto simp: used_def complete_def)
qed

lemma new_store_inv:
  assumes X: "lru_laws X" and g: "block_hash L genesis \<noteq> all_zeros"
    and sizes: "index_size s = 2 ^ k" "k < 64" "hdr_file s \<noteq> []"
    and new: "index_map s = replicate (unat (index_size s)) 0" "index_capacity (meta s) = index_size s"
      "block_index_occupancy (meta s) = 0" "length (hdr_file s) = unat (headers_file_size (meta s))"
      "length (fork_file s) = unat (fork_file_size (meta s))"
      "list_all (record_ok L) (hdr_file s)" "list_all (record_ok L) (fork_file s)"
      "lru_peek X (lru_cache s) = Map.empty" "\<not> poisoned s"
  shows "flat_inv L X (block_hash L genesis) (with_genesis L X genesis s)"
    and "lookup (with_genesis L X genesis s) = [block_hash L genesis \<mapsto> FullyValid genesis 0]"
proof -
  let ?s = "with_genesis L X genesis s" and ?g = "block_hash L genesis"
  have at: "get_disk_header ?s 0 = Inr (entry_for L (FullyValid genesis 0))" by (rule genesis_slot [OF sizes(3) new(4) g])
  note t = new_store_table [OF _ _ sizes(2) at]
  have idx: "index_map ?s = replicate (unat (index_size ?s)) 0" "index_size ?s = 2 ^ k"
    using new sizes by (simp_all add: with_genesis_def)
  have hash: "disk_block_hash L (FullyValid genesis 0) = ?g" by (simp add: disk_block_hash_def)
  show lookup: "lookup ?s = [?g \<mapsto> FullyValid genesis 0]"
    using t(2) [OF idx] by (auto simp: fun_eq_iff hash)
  have "list_all (record_ok L) (hdr_file ?s)"
    using new(6) by (auto simp: with_genesis_def list_all_iff dest!: set_update_subset_insert [THEN subsetD])
  then have "store_ok L ?g n ?s" for n
    using t(1,3) [OF idx] new g at unfolding store_ok_def
    by (simp add: with_genesis_def slot_def hash)
  moreover have "coherent X ?s"
  proof (unfold coherent_def, intro allI impI)
    fix h d assume "lru_peek X (lru_cache ?s) h = Some d"
    then have peek: "lru_peek X (lru_put X ?g (FullyValid genesis 0) (lru_cache s)) h = Some d"
      by (simp add: with_genesis_def)
    show "lookup ?s h = Some d"
    proof (cases "h = ?g")
      case True
      with peek X lookup show ?thesis by (simp add: lru_laws_def)
    next
      case False
      with peek X new(8) show ?thesis unfolding lru_laws_def by (metis option.distinct(1))
    qed
  qed
  ultimately show "flat_inv L X ?g ?s"
    using X t(4) [OF idx] new(9) by (simp add: flat_inv_def store_inv_def) (simp add: with_genesis_def)
qed

definition config_ok :: "flat_chain_store_config \<Rightarrow> usize \<Rightarrow> usize \<Rightarrow> usize \<Rightarrow> bool" where
  "config_ok c ni nh nf \<longleftrightarrow> cfg_block_index_size c = Some ni \<and> cfg_headers_file_size c = Some nh
     \<and> cfg_fork_file_size c = Some nf \<and> 2 \<le> unat ni \<and> unat ni \<le> 2 ^ 32 \<and> nh \<noteq> 0 \<and> unat nh \<le> 2 ^ 32"

lemma record_ok_zero: "record_ok L zero_slot"
  by (simp add: record_ok_def zero_slot_def)

lemma created_store:
  assumes X: "lru_laws X" and g: "block_hash L genesis \<noteq> all_zeros" and c: "config_ok c ni nh nf"
  defines "s \<equiv> create_chain_store X c empty_disk"
  shows "flat_inv L X (block_hash L genesis) (with_genesis L X genesis s)"
    and "lookup (with_genesis L X genesis s) = [block_hash L genesis \<mapsto> FullyValid genesis 0]"
    and "has_room (with_genesis L X genesis s)"
    and "unat nh \<le> length (hdr_file s)" and "hdr_file s \<noteq> []"
    and "index_map s = replicate (unat (index_size s)) 0"
proof -
  have ni: "ni \<noteq> 0" "unat ni \<le> 2 ^ 32" and nh: "nh \<noteq> 0" "unat nh \<le> 2 ^ 32" "2 \<le> unat ni" using c by (auto simp: config_ok_def)
  from truncate_to_pow2_ok [OF ni] obtain k where k: "k \<le> 32" "unat (truncate_to_pow2 ni) = 2 ^ k" "unat ni \<le> 2 ^ k"
    by blast
  from truncate_to_pow2_ok [OF nh(1,2)] obtain m where m: "unat (truncate_to_pow2 nh) = 2 ^ m" "unat nh \<le> 2 ^ m" by blast
  have sz: "index_size s = truncate_to_pow2 ni" "length (hdr_file s) = 2 ^ m" "headers_file_size (meta s) = truncate_to_pow2 nh"
    using c m by (simp_all add: s_def create_chain_store_def Let_def config_ok_def set_len_def empty_disk_def)
  then have isz: "index_size s = 2 ^ k" using k by (simp add: word_unat_eq_iff unat_power_of_two)
  show map: "index_map s = replicate (unat (index_size s)) 0"
    by (simp add: s_def create_chain_store_def Let_def set_len_def empty_disk_def)
  show nonempty: "hdr_file s \<noteq> []" using sz(2) by auto
  show "unat nh \<le> length (hdr_file s)" using sz(2) m by simp
  have rest: "index_capacity (meta s) = index_size s" "block_index_occupancy (meta s) = 0"
    "length (hdr_file s) = unat (headers_file_size (meta s))" "length (fork_file s) = unat (fork_file_size (meta s))"
    "list_all (record_ok L) (hdr_file s)" "list_all (record_ok L) (fork_file s)"
    "lru_peek X (lru_cache s) = Map.empty" "\<not> poisoned s"
    using X record_ok_zero by (simp_all add: s_def create_chain_store_def Let_def set_len_def empty_disk_def lru_laws_def list_all_iff)
  from k have k64: "k < 64" by simp
  note new = new_store_inv [OF X g isz k64 nonempty map rest]
  show "flat_inv L X (block_hash L genesis) (with_genesis L X genesis s)"
    "lookup (with_genesis L X genesis s) = [block_hash L genesis \<mapsto> FullyValid genesis 0]"
    by (rule new)+
  show "has_room (with_genesis L X genesis s)"
    using k nh(3) sz rest by (simp add: has_room_def with_genesis_def)
qed

lemma genesis_saved:
  assumes "hdr_file s \<noteq> []" and "length (hdr_file s) = unat (headers_file_size (meta s))" and "\<not> poisoned s"
  shows "flat_save_header L X (FullyValid genesis 0) s = (Inr (), with_genesis L X genesis s)"
proof -
  have "0 < unat (headers_file_size (meta s))" using assms(1) by (simp flip: assms(2))
  then have "headers_file_size (meta s) \<noteq> 0" by auto
  then show ?thesis using assms(3)
    by (simp add: flat_save_header_def write_header_to_storage_def index_new_def FORK_BIT_def get_disk_header_mut_def
        is_main_chain_def index_of_def with_genesis_def entry_for_def disk_block_hash_def Let_def)
qed

lemma genesis_indexed:
  assumes inv: "flat_inv L X g0 s" and "has_room s"
  shows "flat_update_block_index 0 g0 s = (Inr (), s\<lparr>index_map := (index_map s)[home s g0 := 0]\<rparr>)
    \<and> index_map s ! home s g0 = 0"
proof -
  have ok: "store_ok L g0 (unat (fork_count (meta s))) s" and compl: "complete g0 s"
    using inv by (simp_all add: flat_inv_def store_inv_def)
  note t = store_ok_table [OF ok]
  have zero: "index_map s ! home s g0 = 0"
    using stops_home [OF t, of g0] compl home_less [OF t, of g0] by (auto simp: stops_def complete_def)
  then have "key s (home s g0) = g0" using ok by (simp add: key_def store_ok_def)
  then show ?thesis using zero assms(2) occupancy_step(2) [OF ok]
    by (simp add: flat_update_block_index_def index_new_def FORK_BIT_def add_index_entry_def Let_def
        set_index_for_hash_def find_pos_ok [OF t])
qed

lemma genesis_indexed_same:
  assumes "flat_inv L X g0 s" and "has_room s"
  shows "flat_update_block_index 0 g0 s = (Inr (), s)"
proof -
  have "(index_map s)[home s g0 := 0] = index_map s"
    using genesis_indexed [OF assms] list_update_id [of "index_map s" "home s g0"] by simp
  with genesis_indexed [OF assms] show ?thesis by simp
qed

section \<open>Accumulators\<close>

text \<open>The file of accumulators before the new one is appended.\<close>

definition kept_accumulators :: "'c flat_chain_store \<Rightarrow> u32 \<Rightarrow> u32 \<Rightarrow> bytes" where
  "kept_accumulators s validated k =
     (if k \<le> validated then set_len 0 (unat (acc_pos (slot s k))) (accumulator_file s) else accumulator_file s)"

definition validated_height :: "'c flat_chain_store \<Rightarrow> u32 option" where
  "validated_height s = (case lookup s (md_validation_index (meta s)) of
     None \<Rightarrow> Some 0 | Some d \<Rightarrow> disk_height d)"

lemma load_roots_iff:
  "flat_load_roots_for_block j s = Inr (Some rs) \<longleftrightarrow> unat j < 2 ^ 31 \<and> (\<exists>hdr. get_disk_header s j = Inr hdr
     \<and> acc_len hdr \<noteq> 0 \<and> unat (acc_pos hdr) + unat (acc_len hdr) \<le> length (accumulator_file s)
     \<and> rs = take (unat (acc_len hdr)) (drop (unat (acc_pos hdr)) (accumulator_file s)))"
proof (cases "unat j < 2 ^ 31")
  case True
  then show ?thesis
    by (cases "get_disk_header s j")
      (auto simp: flat_load_roots_for_block_def index_new_def FORK_BIT_def word_le_nat_alt Let_def not_less unat_eq_zero)
next
  case False
  then show ?thesis by (simp add: flat_load_roots_for_block_def index_new_def FORK_BIT_def word_le_nat_alt)
qed

lemma flat_get_header_files:
  assumes "flat_get_header X h s = (r, s')"
  shows "accumulator_file s' = accumulator_file s \<and> get_disk_header s' = get_disk_header s \<and> hdr_file s' = hdr_file s
    \<and> meta s' = meta s"
proof -
  have "\<exists>c. s' = s\<lparr>lru_cache := c\<rparr> \<or> s' = s"
    using assms by (auto simp: flat_get_header_def Let_def split: if_splits prod.splits option.splits sum.splits)
  then show ?thesis by (auto intro!: get_disk_header_cong)
qed

text \<open>Writing another position and length of the accumulator into a slot leaves the map of headers alone.\<close>

lemma relabel_inv:
  fixes a :: bytes
  assumes inv: "flat_inv L X g0 s" and k: "unat k < 2 ^ 31" and get: "get_disk_header s k = Inr r"
    and same: "hd_hash r' = hd_hash r" "hd_header r' = hd_header r"
  defines "s' \<equiv> s\<lparr>hdr_file := (hdr_file s)[unat k := r'], accumulator_file := a\<rparr>"
  shows "flat_inv L X g0 s' \<and> lookup s' = lookup s"
proof -
  have ok: "store_ok L g0 (unat (fork_count (meta s))) s" and compl: "complete g0 s" and rest: "lru_laws X" "coherent X s" "\<not> poisoned s"
    using inv by (simp_all add: flat_inv_def store_inv_def)
  have len: "length (hdr_file s) = unat (headers_file_size (meta s))" using ok by (simp add: store_ok_def)
  note main = index_main [OF k]
  have at: "unat k < length (hdr_file s)" "hdr_file s ! unat k = r" "hd_hash r \<noteq> all_zeros"
    using get main len by (auto simp: get_disk_header_def Let_def ucast_less_iff not_le split: if_splits)
  have mut: "get_disk_header_mut s k = Inr (r, \<lambda>r. s\<lparr>hdr_file := (hdr_file s)[unat k := r]\<rparr>)"
    using at main len by (simp add: get_disk_header_mut_def Let_def not_le ucast_less_iff)
  have "get_disk_header (s\<lparr>hdr_file := (hdr_file s)[unat k := r']\<rparr>) = (get_disk_header s)(k := Inr r')"
    using get_disk_header_mut_ok [OF mut ok, of r'] at(3) same by (simp add: overwritten_def)
  moreover have "get_disk_header s' = get_disk_header (s\<lparr>hdr_file := (hdr_file s)[unat k := r']\<rparr>)"
    by (rule get_disk_header_cong) (simp_all add: s'_def)
  ultimately have gets: "get_disk_header s' = (get_disk_header s)(k := Inr r')" by simp
  have slots: "hd_hash (slot s' i) = hd_hash (slot s i)" "hd_header (slot s' i) = hd_header (slot s i)" for i
    using same get by (simp_all add: slot_def gets)
  have idx: "index_map s' = index_map s" "index_size s' = index_size s" "meta s' = meta s" "lru_cache s' = lru_cache s"
    "fork_file s' = fork_file s" "poisoned s' = poisoned s" by (simp_all add: s'_def)
  have key: "key s' = key s" by (simp add: key_def fun_eq_iff slots idx)
  then have "stops s' = stops s" by (simp add: stops_def fun_eq_iff idx)
  moreover have "bucket s' = bucket s" by (simp add: bucket_def fun_eq_iff idx)
  ultimately have home: "home s' = home s" by (simp add: home_def fun_eq_iff)
  have look: "lookup s' = lookup s" by (simp add: lookup_def fun_eq_iff key home slots idx)
  have ro: "list_all (record_ok L) (hdr_file s')"
  proof -
    have "record_ok L r" using ok at(1,2) by (auto simp: store_ok_def list_all_length)
    then have "record_ok L r'" using same by (simp add: record_ok_def)
    moreover have "list_all (record_ok L) (hdr_file s)" using ok by (simp add: store_ok_def)
    ultimately show ?thesis by (auto simp: s'_def list_all_iff dest!: set_update_subset_insert [THEN subsetD])
  qed
  have got: "get_disk_header s' i = Inr (slot s' i)" if "get_disk_header s i = Inr (slot s i)" for i
    using that by (auto simp: slot_def gets)
  have "table_ok s'" using store_ok_table [OF ok] got unfolding table_ok_def idx by blast
  moreover have "used s' = used s" by (simp add: used_def idx)
  moreover have "length (hdr_file s') = length (hdr_file s)" by (simp add: s'_def)
  ultimately have "store_ok L g0 (unat (fork_count (meta s'))) s'"
    using ok ro got slots by (simp add: store_ok_def idx)
  moreover have "complete g0 s'" using compl by (simp add: complete_def idx key look)
  moreover have "coherent X s'" using rest(2) by (simp add: coherent_def idx look)
  ultimately show ?thesis using rest look by (simp add: flat_inv_def store_inv_def idx)
qed

lemma save_roots_ok:
  assumes inv: "flat_inv L X g0 s" and v: "validated_height s = Some validated"
    and k: "unat k < 2 ^ 31" "get_disk_header s k = Inr (slot s k)" and n: "length roots \<le> MAX_ACCUMULATOR_SIZE"
  shows "\<exists>s'. flat_save_roots_for_block X roots k s = (Inr (), s')
    \<and> accumulator_file s' = kept_accumulators s validated k @ roots
    \<and> get_disk_header s' = (get_disk_header s)(k := Inr ((slot s k)\<lparr>
        acc_pos := of_nat (length (kept_accumulators s validated k)), acc_len := of_nat (length roots)\<rparr>))
    \<and> flat_inv L X g0 s' \<and> lookup s' = lookup s"
proof -
  obtain s1 where s1: "flat_get_header X (md_validation_index (meta s)) s
      = (Inr (lookup s (md_validation_index (meta s))), s1)" and inv1: "flat_inv L X g0 s1" and look1: "lookup s1 = lookup s"
    using flat_get_header_ok [OF inv] by blast
  note same = flat_get_header_files [OF s1]
  define s2 where "s2 = s1\<lparr>accumulator_file := kept_accumulators s validated k\<rparr>"
  have get2: "get_disk_header s2 = get_disk_header s1" by (rule get_disk_header_cong) (simp_all add: s2_def)
  have "store_ok L g0 (unat (fork_count (meta s1))) s1" using inv1 by (simp add: flat_inv_def store_inv_def)
  then have ok2: "store_ok L g0 (unat (fork_count (meta s1))) s2"
    using view_cong [OF get2] get2 by (simp add: store_ok_def s2_def)
  have slot: "slot s2 k = slot s k" "get_disk_header s2 k = Inr (slot s k)" using same get2 k(2) by (simp_all add: slot_def)
  note main = index_main [OF k(1)]
  from slot(2) main have lt: "ucast k < headers_file_size (meta s2)" and at: "hdr_file s2 ! unat k = slot s k"
    and nz: "hd_hash (slot s k) \<noteq> all_zeros"
    by (auto simp: get_disk_header_def Let_def not_le split: if_splits)
  have mut: "get_disk_header_mut s2 k = Inr (slot s k, \<lambda>r. s2\<lparr>hdr_file := (hdr_file s2)[unat k := r]\<rparr>)"
    using lt at by (simp add: get_disk_header_mut_def main Let_def not_le)
  let ?r = "(slot s k)\<lparr>acc_pos := of_nat (length (kept_accumulators s validated k)), acc_len := of_nat (length roots)\<rparr>"
  have "overwritten s2 k ?r (s2\<lparr>hdr_file := (hdr_file s2)[unat k := ?r]\<rparr>)"
    using get_disk_header_mut_ok [OF mut ok2, of ?r] nz by simp
  then have over: "get_disk_header (s2\<lparr>hdr_file := (hdr_file s2)[unat k := ?r]\<rparr>) = (get_disk_header s)(k := Inr ?r)"
    using get2 same by (simp add: overwritten_def)
  let ?s' = "s2\<lparr>hdr_file := (hdr_file s2)[unat k := ?r], accumulator_file := kept_accumulators s validated k @ roots\<rparr>"
  have "flat_save_roots_for_block X roots k s = (Inr (), ?s')"
  proof -
    have kb: "index_new k = Inr k" using k(1) by (simp add: index_new_iff)
    have val: "(case lookup s (md_validation_index (meta s)) of None \<Rightarrow> Inr 0
        | Some h \<Rightarrow> map_err (\<lambda>_. InvalidValidationIndex) (try_height h)) = Inr validated"
      using v by (auto simp: validated_height_def try_height_def split: option.splits)
    have trunc: "(if k \<le> validated
        then bindE (get_disk_header s1 k) (\<lambda>hdr. Inr (s1\<lparr>accumulator_file := set_len 0 (unat (acc_pos hdr)) (accumulator_file s1)\<rparr>))
        else Inr s1) = Inr s2"
      using same k(2) by (auto simp: s2_def kept_accumulators_def)
    show ?thesis
      using n nz unfolding flat_save_roots_for_block_def kb s1 sum.case prod.case val trunc mut Let_def
      by (simp add: s2_def)
  qed
  moreover have "get_disk_header ?s' = get_disk_header (s2\<lparr>hdr_file := (hdr_file s2)[unat k := ?r]\<rparr>)"
    by (rule get_disk_header_cong) simp_all
  moreover have "flat_inv L X g0 ?s' \<and> lookup ?s' = lookup s1"
  proof -
    have "get_disk_header s1 k = Inr (slot s k)" using slot(2) get2 by simp
    from relabel_inv [OF inv1 k(1) this, of ?r "kept_accumulators s validated k @ roots"] show ?thesis by (simp add: s2_def)
  qed
  ultimately show ?thesis using over look1 by auto
qed

lemma length_set_len [simp]: "length (set_len z n xs) = n"
  by (simp add: set_len_def)

lemma save_height_inv:
  assumes "flat_inv L X g0 s"
  shows "flat_inv L X g0 (do_save_height bc s)" and "lookup (do_save_height bc s) = lookup s"
    and "live (do_save_height bc s) = live s"
proof -
  let ?s = "do_save_height bc s"
  have same: "get_disk_header ?s = get_disk_header s" "index_map ?s = index_map s" "index_size ?s = index_size s"
    by (rule get_disk_header_cong) (simp_all add: do_save_height_def)
  show "lookup ?s = lookup s" "live ?s = live s" by (rule view_cong [OF same])+
  then show "flat_inv L X g0 ?s"
    using assms
    by (simp add: flat_inv_def store_inv_def store_ok_def coherent_def view_cong [OF same] same) (simp add: do_save_height_def)
qed

lemma roots_saved:
  assumes inv: "flat_inv L X g0 s" and v: "validated_height s = Some validated"
    and k: "unat k < 2 ^ 31" "get_disk_header s k = Inr (slot s k)"
    and n: "roots \<noteq> []" "length roots \<le> MAX_ACCUMULATOR_SIZE" "length (accumulator_file s) < 2 ^ 32"
  shows "\<exists>s'. flat_save_roots_for_block X roots k s = (Inr (), s') \<and> flat_load_roots_for_block k s' = Inr (Some roots)
    \<and> accumulator_file s' = kept_accumulators s validated k @ roots
    \<and> (\<forall>j. j \<noteq> k \<longrightarrow> get_disk_header s' j = get_disk_header s j) \<and> flat_inv L X g0 s' \<and> lookup s' = lookup s"
proof -
  let ?file = "kept_accumulators s validated k"
  from save_roots_ok [OF inv v k n(2)] obtain s' where run: "flat_save_roots_for_block X roots k s = (Inr (), s')"
    and accs: "accumulator_file s' = ?file @ roots"
    and slots: "get_disk_header s' = (get_disk_header s)(k := Inr ((slot s k)\<lparr>
        acc_pos := of_nat (length ?file), acc_len := of_nat (length roots)\<rparr>))"
    and inv': "flat_inv L X g0 s'" "lookup s' = lookup s"
    by blast
  have "length ?file < 2 ^ 32"
    using n(3) unsigned_less [of "acc_pos (slot s k)", where ?'a = nat] by (simp add: kept_accumulators_def)
  then have pos: "unat (of_nat (length ?file) :: u32) = length ?file" by (simp add: unat_of_nat)
  have len: "unat (of_nat (length roots) :: u32) = length roots"
    using n(2) by (simp add: unat_of_nat MAX_ACCUMULATOR_SIZE_def)
  have kb: "index_new k = Inr k" using k(1) by (simp add: index_new_iff)
  have "flat_load_roots_for_block k s' = Inr (Some roots)"
    using n(1) by (simp add: flat_load_roots_for_block_def kb slots accs pos len Let_def)
  with run accs slots inv' show ?thesis by auto
qed

lemma flush_inv:
  assumes "flat_inv L X g0 s" and "do_flush X io s = (r, s')"
  shows "flat_inv L X g0 s'" and "lookup s' = lookup s" and "get_disk_header s' = get_disk_header s"
    and "accumulator_file s' = accumulator_file s"
proof -
  have form: "s' = s \<or> (\<exists>c. s' = s\<lparr>meta := (meta s)\<lparr>checksum := c\<rparr>\<rparr>)"
    using assms(2) by (auto simp: do_flush_def Let_def split: sum.splits)
  then have same: "get_disk_header s' = get_disk_header s" "index_map s' = index_map s" "index_size s' = index_size s"
    by (auto intro!: get_disk_header_cong)
  show "lookup s' = lookup s" by (rule view_cong [OF same])
  then show "flat_inv L X g0 s'"
    using assms(1) form by (auto simp: flat_inv_def store_inv_def store_ok_def coherent_def view_cong [OF same] same)
  show "get_disk_header s' = get_disk_header s" by (rule same)
  show "accumulator_file s' = accumulator_file s" using form by auto
qed

section \<open>Examples\<close>

definition store_api :: bitcoin_api where
  "store_api = demo_api\<lparr>block_hash := (\<lambda>h. replicate 31 0 @ [ucast (hdr_nonce h)]), compute_txid := (\<lambda>_. all_zeros)\<rparr>"

definition demo_lru :: "(hash \<rightharpoonup> disk_block_header) lru_api" where
  "demo_lru = \<lparr>lru_new = (\<lambda>_. Map.empty), lru_get = (\<lambda>k c. (c k, c)), lru_put = (\<lambda>k v c. c(k \<mapsto> v)),
     lru_peek = (\<lambda>c. c), xxh3_headers = (\<lambda>xs. of_nat (length xs)), xxh3_index = (\<lambda>xs. of_nat (length xs))\<rparr>"

definition demo_genesis :: header where
  "demo_genesis = store_header 1 all_zeros"

definition demo_block :: header where
  "demo_block = store_header 2 (block_hash store_api demo_genesis)"

definition demo_config :: flat_chain_store_config where
  "demo_config = \<lparr>cfg_block_index_size = Some 4, cfg_headers_file_size = Some 4, cfg_cache_size = None,
     cfg_fork_file_size = Some 4\<rparr>"

definition demo_store :: "(hash \<rightharpoonup> disk_block_header) flat_chain_store" where
  "demo_store = with_genesis store_api demo_lru demo_genesis (create_chain_store demo_lru demo_config empty_disk)"

lemma demo_lru_laws: "lru_laws demo_lru"
  by (simp add: lru_laws_def demo_lru_def)

lemma demo_hashes_distinct:
  "block_hash store_api demo_genesis \<noteq> all_zeros" "block_hash store_api demo_block \<noteq> all_zeros"
  "block_hash store_api demo_block \<noteq> block_hash store_api demo_genesis"
proof -
  have z: "all_zeros = replicate 31 0 @ [0]" by (simp add: all_zeros_def numeral_eq_Suc)
  show "block_hash store_api demo_genesis \<noteq> all_zeros" "block_hash store_api demo_block \<noteq> all_zeros"
    "block_hash store_api demo_block \<noteq> block_hash store_api demo_genesis"
    unfolding z by (simp_all add: store_api_def demo_genesis_def demo_block_def store_header_def)
qed

lemma demo_config_ok: "config_ok demo_config 4 4 4"
  by (simp add: config_ok_def demo_config_def)

lemma demo_store_inv:
  "flat_inv store_api demo_lru (block_hash store_api demo_genesis) demo_store"
  "lookup demo_store = [block_hash store_api demo_genesis \<mapsto> FullyValid demo_genesis 0]"
  "has_room demo_store" "4 \<le> length (hdr_file demo_store)"
  using created_store [OF demo_lru_laws demo_hashes_distinct(1) demo_config_ok]
  by (simp_all add: demo_store_def) (simp add: with_genesis_def)

lemma demo_storable: "header_of d = demo_block \<Longrightarrow> storable store_api (block_hash store_api demo_genesis) d"
  using demo_hashes_distinct by (simp add: storable_def disk_block_hash_def)

lemma demo_live: "live demo_store g = 0"
proof -
  have "index_map demo_store = replicate (unat (index_size demo_store)) 0"
    using created_store(6) [OF demo_lru_laws demo_hashes_distinct(1) demo_config_ok]
    by (simp add: demo_store_def with_genesis_def)
  moreover have "home demo_store g < length (index_map demo_store)"
    by (rule home_less [OF flat_inv_table [OF demo_store_inv(1)]])
  ultimately show ?thesis by (metis length_replicate live_def nth_replicate)
qed

lemma demo_vacant: "i \<noteq> 0 \<Longrightarrow> vacant demo_store i h"
  by (simp add: vacant_def demo_live)

section \<open>Correctness\<close>

text \<open>C33. The flat store implements a map from block hashes to headers. A lookup always ends with the entry of
  the map, whatever the cache holds. Saving a header of the best chain at a height where no other
  block lives and indexing it succeeds while the file and the table have room, and a header outside
  the best chain that is saved successfully is recorded; afterwards exactly that entry of the map
  has changed, also in the presence of stale table entries, and the header is found at its height.\<close>

theorem flat_store_refines_map:
  assumes inv: "flat_inv L X g0 s" and d: "storable L g0 d"
  shows "fst (flat_get_header X g s) = Inr (lookup s g)
    \<and> (\<not> on_best_chain d \<longrightarrow> flat_save_header L X d s = (Inr (), s') \<longrightarrow>
         flat_inv L X g0 s' \<and> lookup s' = (lookup s)(disk_block_hash L d \<mapsto> d))
    \<and> (on_best_chain d \<and> disk_height d = Some k \<and> k \<noteq> 0 \<and> unat k < 2 ^ 31 \<and> unat k < length (hdr_file s)
         \<and> has_room s \<and> vacant s k (disk_block_hash L d) \<longrightarrow>
         (\<exists>s1 s2. flat_save_header L X d s = (Inr (), s1)
            \<and> flat_update_block_index k (disk_block_hash L d) s1 = (Inr (), s2)
            \<and> flat_inv L X g0 s2 \<and> lookup s2 = (lookup s)(disk_block_hash L d \<mapsto> d)
            \<and> flat_get_header_by_height k s2 = Inr (Some d)))"
proof (intro conjI impI)
  show "fst (flat_get_header X g s) = Inr (lookup s g)" using flat_get_header_ok [OF inv, of g] by auto
next
  assume "\<not> on_best_chain d" and "flat_save_header L X d s = (Inr (), s')"
  note res = flat_save_fork_ok [OF inv d this]
  show "flat_inv L X g0 s'" by (rule res)
  show "lookup s' = (lookup s)(disk_block_hash L d \<mapsto> d)"
    using res(2) by (elim exE conjE) (rule recordedD)
next
  assume *: "on_best_chain d \<and> disk_height d = Some k \<and> k \<noteq> 0 \<and> unat k < 2 ^ 31 \<and> unat k < length (hdr_file s)
      \<and> has_room s \<and> vacant s k (disk_block_hash L d)"
  then obtain s1 s2 where run: "flat_save_header L X d s = (Inr (), s1)"
    "flat_update_block_index k (disk_block_hash L d) s1 = (Inr (), s2)"
    using flat_connect_succeeds [OF inv d] by blast
  note res = flat_connect_ok [OF inv d _ _ _ _ run]
  have inv2: "flat_inv L X g0 s2" and "recorded s d (disk_block_hash L d) k s2" using * res(1,2) by simp_all
  then have found: "lookup s2 = (lookup s)(disk_block_hash L d \<mapsto> d)" "live s2 (disk_block_hash L d) = k"
    unfolding recorded_def by simp_all
  then have "get_disk_header s2 k = Inr (slot s2 k) \<and> hd_header (slot s2 k) = d"
    using live_slot [OF flat_inv_table [OF inv2], of "disk_block_hash L d" d] by simp
  then have "flat_get_header_by_height k s2 = Inr (Some d)"
    using * by (simp add: flat_get_header_by_height_def index_new_def FORK_BIT_def word_le_nat_alt)
  with run inv2 found(1) show "\<exists>s1 s2. flat_save_header L X d s = (Inr (), s1)
      \<and> flat_update_block_index k (disk_block_hash L d) s1 = (Inr (), s2)
      \<and> flat_inv L X g0 s2 \<and> lookup s2 = (lookup s)(disk_block_hash L d \<mapsto> d)
      \<and> flat_get_header_by_height k s2 = Inr (Some d)"
    by blast
qed

theorem flat_store_refines_map_witness:
  "\<exists>s1 s2. flat_save_header store_api demo_lru (HeadersOnly demo_block 1) demo_store = (Inr (), s1)
    \<and> flat_update_block_index 1 (block_hash store_api demo_block) s1 = (Inr (), s2)
    \<and> flat_inv store_api demo_lru (block_hash store_api demo_genesis) s2
    \<and> lookup s2 = (lookup demo_store)(block_hash store_api demo_block \<mapsto> HeadersOnly demo_block 1)
    \<and> flat_get_header_by_height 1 s2 = Inr (Some (HeadersOnly demo_block 1))"
  using flat_store_refines_map [OF demo_store_inv(1) demo_storable [of "HeadersOnly demo_block 1"], of undefined undefined 1]
    demo_store_inv(3,4) demo_vacant [of 1]
  by (simp add: disk_block_hash_def)

text \<open>C34. An accumulator saved for a block of the best chain is loaded back, and saving the one of a block
  above the validated height leaves those saved for other heights readable.\<close>

theorem roots_roundtrip:
  assumes inv: "flat_inv L X g0 s" and v: "validated_height s = Some validated"
    and k: "unat k < 2 ^ 31" "get_disk_header s k = Inr (slot s k)"
    and n: "roots \<noteq> []" "length roots \<le> MAX_ACCUMULATOR_SIZE" "length (accumulator_file s) < 2 ^ 32"
  shows "\<exists>s'. flat_save_roots_for_block X roots k s = (Inr (), s')
    \<and> flat_load_roots_for_block k s' = Inr (Some roots)
    \<and> (validated < k \<longrightarrow> (\<forall>j rs. j \<noteq> k \<longrightarrow> flat_load_roots_for_block j s = Inr (Some rs) \<longrightarrow>
          flat_load_roots_for_block j s' = Inr (Some rs)))"
proof -
  from roots_saved [OF assms] obtain s' where run: "flat_save_roots_for_block X roots k s = (Inr (), s')"
    "flat_load_roots_for_block k s' = Inr (Some roots)"
    and accs: "accumulator_file s' = kept_accumulators s validated k @ roots"
    and slots: "\<forall>j. j \<noteq> k \<longrightarrow> get_disk_header s' j = get_disk_header s j"
    by blast
  have "flat_load_roots_for_block j s' = Inr (Some rs)"
    if "validated < k" "j \<noteq> k" "flat_load_roots_for_block j s = Inr (Some rs)" for j rs
  proof -
    have same: "kept_accumulators s validated k = accumulator_file s" using that(1) by (auto simp: kept_accumulators_def)
    from that(3) obtain hdr where "unat j < 2 ^ 31" "get_disk_header s j = Inr hdr" "acc_len hdr \<noteq> 0"
      "unat (acc_pos hdr) + unat (acc_len hdr) \<le> length (accumulator_file s)"
      "rs = take (unat (acc_len hdr)) (drop (unat (acc_pos hdr)) (accumulator_file s))"
      by (auto simp: load_roots_iff)
    then show ?thesis using that(2) slots by (simp add: load_roots_iff accs same)
  qed
  with run show ?thesis by blast
qed

theorem roots_roundtrip_witness:
  "\<exists>s'. flat_save_roots_for_block demo_lru [3, 4] 0 demo_store = (Inr (), s')
    \<and> flat_load_roots_for_block 0 s' = Inr (Some [3, 4])
    \<and> ((0 :: u32) < 0 \<longrightarrow> (\<forall>j rs. j \<noteq> 0 \<longrightarrow> flat_load_roots_for_block j demo_store = Inr (Some rs) \<longrightarrow>
          flat_load_roots_for_block j s' = Inr (Some rs)))"
proof (rule roots_roundtrip [OF demo_store_inv(1)])
  have "md_validation_index (meta demo_store) = all_zeros"
    by (simp add: demo_store_def with_genesis_def create_chain_store_def Let_def)
  then show "validated_height demo_store = Some 0"
    using demo_hashes_distinct(1) by (simp add: validated_height_def demo_store_inv(2))
  show "get_disk_header demo_store 0 = Inr (slot demo_store 0)"
    using demo_store_inv(1) by (simp add: flat_inv_def store_inv_def store_ok_def)
  show "length (accumulator_file demo_store) < 2 ^ 32"
    by (simp add: demo_store_def with_genesis_def create_chain_store_def Let_def empty_disk_def)
qed (simp_all add: MAX_ACCUMULATOR_SIZE_def)

text \<open>C35. When a block at or below the persisted validated height is recorded as valid, which is what happens
  after a reorganisation, saving its header has reset the position of the accumulator in its slot,
  and saving the accumulator cuts the file there: every accumulator saved before is lost, not only
  those from that height on.\<close>

theorem revalidation_discards_accumulators:
  assumes inv: "flat_inv L X g0 s" and d: "storable L g0 (FullyValid hdr k)" "k \<noteq> 0"
    and vac: "vacant s k (block_hash L hdr)"
    and save: "flat_save_header L X (FullyValid hdr k) s = (Inr (), s1)"
    and index: "flat_update_block_index k (block_hash L hdr) s1 = (Inr (), s2)"
    and v: "validated_height s2 = Some validated" "k \<le> validated" and n: "length roots \<le> MAX_ACCUMULATOR_SIZE"
  shows "\<exists>s3. flat_save_roots_for_block X roots k s2 = (Inr (), s3) \<and> accumulator_file s3 = roots"
proof -
  let ?d = "FullyValid hdr k"
  have "disk_block_hash L ?d = block_hash L hdr" by (simp add: disk_block_hash_def)
  note res = flat_connect_ok [OF inv d(1) _ _ d(2) _ save, unfolded this, OF _ _ vac index, simplified]
  have kb: "unat k < 2 ^ 31" using index by (auto simp: flat_update_block_index_def index_new_iff split: sum.splits)
  have "live s2 (block_hash L hdr) = k" "lookup s2 (block_hash L hdr) = Some ?d"
    using res(2) unfolding recorded_def by simp_all
  with live_slot [OF flat_inv_table [OF res(1)]] have get: "get_disk_header s2 k = Inr (slot s2 k)" by auto
  moreover have "hdr_file s2 ! unat k = entry_for L ?d" using res(3,4) by simp
  ultimately have "slot s2 k = entry_for L ?d"
    using index_main [OF kb] by (auto simp: get_disk_header_def Let_def split: if_splits)
  then have "kept_accumulators s2 validated k = []" using v(2) by (simp add: kept_accumulators_def entry_for_def set_len_def)
  with save_roots_ok [OF res(1) v(1) kb get n] show ?thesis by auto
qed

theorem revalidation_discards_accumulators_witness:
  "\<exists>s s1 s2 s3. flat_inv store_api demo_lru (block_hash store_api demo_genesis) s
    \<and> flat_save_header store_api demo_lru (FullyValid demo_block 1) s = (Inr (), s1)
    \<and> flat_update_block_index 1 (block_hash store_api demo_block) s1 = (Inr (), s2)
    \<and> flat_save_roots_for_block demo_lru [7] 1 s2 = (Inr (), s3) \<and> accumulator_file s3 = [7]"
proof -
  let ?g = "block_hash store_api demo_genesis" and ?b = "block_hash store_api demo_block"
  note sto = demo_storable [of "FullyValid demo_block 1", simplified]
  have hash: "disk_block_hash store_api (FullyValid demo_block 1) = ?b" by (simp add: disk_block_hash_def)
  from flat_connect_succeeds [OF demo_store_inv(1) sto, of 1] demo_store_inv(3,4) obtain t1 t2 where
    t: "flat_save_header store_api demo_lru (FullyValid demo_block 1) demo_store = (Inr (), t1)"
    "flat_update_block_index 1 ?b t1 = (Inr (), t2)"
    by (auto simp: hash)
  note con = flat_connect_ok [OF demo_store_inv(1) sto _ _ _ demo_vacant t(1), unfolded hash, OF _ _ _ _ t(2), simplified]
  define s where "s = do_save_height \<lparr>best_block = ?b, depth = 1, validation_index = ?b, alternative_tips = []\<rparr> t2"
  have inv: "flat_inv store_api demo_lru ?g s" and look: "lookup s = (lookup demo_store)(?b \<mapsto> FullyValid demo_block 1)"
    using save_height_inv [OF con(1)] recordedD [OF con(2)] by (simp_all add: s_def)
  have meta: "block_index_occupancy (meta demo_store) = 0" "index_capacity (meta demo_store) = 4"
    by (simp_all add: demo_store_def with_genesis_def create_chain_store_def Let_def demo_config_def truncate_to_pow2_def)
  then have room: "has_room s"
    using flat_connect_meta [OF t(1) _ t(2)] by (auto simp: has_room_def s_def do_save_height_def)
  have live: "live s ?g = 0" using con(2) demo_hashes_distinct(3) demo_store_inv(2) save_height_inv(3) [OF con(1)]
    unfolding recorded_def by (simp add: s_def demo_live)
  have vac: "vacant s 1 ?b" using look live demo_store_inv(2) by (auto simp: vacant_def split: if_splits)
  have len: "length (hdr_file s) = length (hdr_file demo_store)" using con(3) by (simp add: s_def do_save_height_def)
  from flat_connect_succeeds [OF inv sto, of 1] room len demo_store_inv(4) obtain s1 s2 where
    run: "flat_save_header store_api demo_lru (FullyValid demo_block 1) s = (Inr (), s1)"
    "flat_update_block_index 1 ?b s1 = (Inr (), s2)"
    by (auto simp: hash)
  note con2 = flat_connect_ok [OF inv sto _ _ _ _ run(1), unfolded hash, OF _ _ _ vac run(2), simplified]
  have "md_validation_index (meta s2) = ?b"
    using flat_connect_meta [OF run(1) _ run(2)] by (auto simp: s_def do_save_height_def)
  then have "validated_height s2 = Some 1" using recordedD [OF con2(2)] by (simp add: validated_height_def)
  with revalidation_discards_accumulators [OF inv sto _ vac run, of 1 "[7]"] inv run show ?thesis
    by (auto simp: MAX_ACCUMULATOR_SIZE_def)
qed

end
