(* ===== verification/Stateful.thy ===== *)
theory Stateful
  imports Extensions
begin

text \<open>
  Fallible code that reads and writes a state: a function from the state to a result and the state
  after it. A state change made before an error is kept, as it is in the source, where \<^verbatim>\<open>?\<close> returns
  and nothing is rolled back. The second part is a Hoare logic for such code, with one
  postcondition for a normal return and one for an error.
\<close>

section \<open>Definitions\<close>

type_synonym ('s, 'e, 'a) stm = "'s \<Rightarrow> ('e + 'a) \<times> 's"

definition ret :: "'a \<Rightarrow> ('s, 'e, 'a) stm" where
  "ret a = (\<lambda>s. (Inr a, s))"

definition fail :: "'e \<Rightarrow> ('s, 'e, 'a) stm" where
  "fail e = (\<lambda>s. (Inl e, s))"

definition bindS :: "('s, 'e, 'a) stm \<Rightarrow> ('a \<Rightarrow> ('s, 'e, 'b) stm) \<Rightarrow> ('s, 'e, 'b) stm" where
  "bindS m f = (\<lambda>s. case m s of (Inl e, s') \<Rightarrow> (Inl e, s') | (Inr a, s') \<Rightarrow> f a s')"

definition lift :: "'e + 'a \<Rightarrow> ('s, 'e, 'a) stm" where
  "lift r = (\<lambda>s. (r, s))"

definition gets :: "('s \<Rightarrow> 'a) \<Rightarrow> ('s, 'e, 'a) stm" where
  "gets f = (\<lambda>s. (Inr (f s), s))"

definition update :: "('s \<Rightarrow> 's) \<Rightarrow> ('s, 'e, unit) stm" where
  "update f = (\<lambda>s. (Inr (), f s))"

text \<open>The result as a value, for code that matches on it instead of applying \<^verbatim>\<open>?\<close>.\<close>

definition attempt :: "('s, 'e, 'a) stm \<Rightarrow> ('s, 'f, 'e + 'a) stm" where
  "attempt m = (\<lambda>s. case m s of (r, s') \<Rightarrow> (Inr r, s'))"

fun for_each :: "'x list \<Rightarrow> ('x \<Rightarrow> ('s, 'e, unit) stm) \<Rightarrow> ('s, 'e, unit) stm" where
  "for_each [] body = ret ()"
| "for_each (x # xs) body = bindS (body x) (\<lambda>_. for_each xs body)"

text \<open>\<^verbatim>\<open>median_time_past_with\<close> for a closure that has effects.\<close>

fun collect_timestampsS ::
  "nat \<Rightarrow> (header \<Rightarrow> ('s, 'e, header) stm) \<Rightarrow> header \<Rightarrow> u32 list \<Rightarrow> ('s, 'e, u32 list) stm" where
  "collect_timestampsS 0 previous_header current block_timestamps = ret block_timestamps"
| "collect_timestampsS (Suc n) previous_header current block_timestamps =
     (let block_timestamps = block_timestamps @ [hdr_time current]
      in if length block_timestamps = MEDIAN_TIME_PAST_BLOCK_COUNT
            \<or> prev_blockhash current = all_zeros
         then ret block_timestamps
         else bindS (previous_header current) (\<lambda>current.
                collect_timestampsS n previous_header current block_timestamps))"

definition median_time_past_withS :: "(header \<Rightarrow> ('s, 'e, header) stm) \<Rightarrow> header \<Rightarrow> ('s, 'e, u32) stm" where
  "median_time_past_withS previous_header h =
     bindS (collect_timestampsS MEDIAN_TIME_PAST_BLOCK_COUNT previous_header h []) (\<lambda>ts.
     ret (sort ts ! (length ts div 2)))"

section \<open>Evaluation\<close>

named_theorems stm_simps

lemma ret_run [stm_simps]: "ret a s = (Inr a, s)"
  by (simp add: ret_def)

lemma fail_run [stm_simps]: "fail e s = (Inl e, s)"
  by (simp add: fail_def)

lemma lift_run [stm_simps]: "lift r s = (r, s)"
  by (simp add: lift_def)

lemma gets_run [stm_simps]: "gets f s = (Inr (f s), s)"
  by (simp add: gets_def)

lemma update_run [stm_simps]: "update f s = (Inr (), f s)"
  by (simp add: update_def)

lemma attempt_run [stm_simps]: "attempt m s = (Inr (fst (m s)), snd (m s))"
  by (simp add: attempt_def split_beta)

lemma bindS_ok [stm_simps]: "m s = (Inr a, s') \<Longrightarrow> bindS m f s = f a s'"
  by (simp add: bindS_def)

lemma bindS_err [stm_simps]: "m s = (Inl e, s') \<Longrightarrow> bindS m f s = (Inl e, s')"
  by (simp add: bindS_def)

lemma bindS_Inr_iff: "bindS m f s = (Inr b, t) \<longleftrightarrow> (\<exists>a u. m s = (Inr a, u) \<and> f a u = (Inr b, t))"
  by (auto simp: bindS_def split: prod.splits sum.splits)

lemma bindS_Inl_iff:
  "bindS m f s = (Inl e, t) \<longleftrightarrow> m s = (Inl e, t) \<or> (\<exists>a u. m s = (Inr a, u) \<and> f a u = (Inl e, t))"
  by (auto simp: bindS_def split: prod.splits sum.splits)

lemma bindS_gets: "bindS (gets f) g s = g (f s) s"
  by (simp add: bindS_def gets_def)

lemma bindS_cong: "(\<And>a t. m s = (Inr a, t) \<Longrightarrow> f a t = g a t) \<Longrightarrow> bindS m f s = bindS m g s"
  by (auto simp: bindS_def split: prod.splits sum.splits)

lemma bindS_assoc: "bindS (bindS m f) g = bindS m (\<lambda>a. bindS (f a) g)"
  by (auto simp: bindS_def fun_eq_iff split: prod.splits sum.splits)

lemma bindS_ret [simp]: "bindS (ret a) f = f a" "bindS m ret = m"
  by (auto simp: bindS_def ret_def fun_eq_iff split: prod.splits sum.splits)

section \<open>A Hoare logic\<close>

definition hoare ::
  "('s \<Rightarrow> bool) \<Rightarrow> ('s, 'e, 'a) stm \<Rightarrow> ('a \<Rightarrow> 's \<Rightarrow> bool) \<Rightarrow> ('e \<Rightarrow> 's \<Rightarrow> bool) \<Rightarrow> bool" where
  "hoare P m Q R \<longleftrightarrow> (\<forall>s. P s \<longrightarrow> (case m s of (Inr a, s') \<Rightarrow> Q a s' | (Inl e, s') \<Rightarrow> R e s'))"

named_theorems hoare_rules

lemma hoareI:
  assumes "\<And>s a t. P s \<Longrightarrow> m s = (Inr a, t) \<Longrightarrow> Q a t" and "\<And>s e t. P s \<Longrightarrow> m s = (Inl e, t) \<Longrightarrow> R e t"
  shows "hoare P m Q R"
  using assms by (auto simp: hoare_def split: prod.splits sum.splits)

lemma hoareD:
  assumes "hoare P m Q R" and "P s"
  shows "m s = (Inr a, t) \<Longrightarrow> Q a t" and "m s = (Inl e, t) \<Longrightarrow> R e t"
  using assms by (auto simp: hoare_def split: prod.splits sum.splits)

lemma hoare_bind [hoare_rules]:
  assumes "hoare P m M R" and "\<And>a. hoare (M a) (f a) Q R"
  shows "hoare P (bindS m f) Q R"
proof (rule hoareI)
  fix s b t assume P: "P s" and "bindS m f s = (Inr b, t)"
  then obtain a u where "m s = (Inr a, u)" "f a u = (Inr b, t)" by (auto simp: bindS_Inr_iff)
  with hoareD(1) [OF assms(1) P] hoareD(1) [OF assms(2)] show "Q b t" by blast
next
  fix s e t assume P: "P s" and "bindS m f s = (Inl e, t)"
  then consider "m s = (Inl e, t)" | a u where "m s = (Inr a, u)" "f a u = (Inl e, t)"
    by (auto simp: bindS_Inl_iff)
  then show "R e t"
    using hoareD [OF assms(1) P] hoareD(2) [OF assms(2)] by cases blast+
qed

lemma hoare_weaken:
  assumes "hoare P' m Q' R'" and "\<And>s. P s \<Longrightarrow> P' s" and "\<And>a s. Q' a s \<Longrightarrow> Q a s" and "\<And>e s. R' e s \<Longrightarrow> R e s"
  shows "hoare P m Q R"
proof (rule hoareI)
  show "Q a t" if "P s" "m s = (Inr a, t)" for s a t
    using hoareD(1) [OF assms(1) assms(2) [OF that(1)] that(2)] by (rule assms(3))
  show "R e t" if "P s" "m s = (Inl e, t)" for s e t
    using hoareD(2) [OF assms(1) assms(2) [OF that(1)] that(2)] by (rule assms(4))
qed

lemma hoare_ret: "hoare (Q a) (ret a) Q R"
  by (simp add: hoare_def ret_def)

lemma hoare_ret' [hoare_rules]: "(\<And>s. P s \<Longrightarrow> Q a s) \<Longrightarrow> hoare P (ret a) Q R"
  by (simp add: hoare_def ret_def)

lemma hoare_fail [hoare_rules]: "(\<And>s. P s \<Longrightarrow> R e s) \<Longrightarrow> hoare P (fail e) Q R"
  by (simp add: hoare_def fail_def)

lemma hoare_lift [hoare_rules]:
  "(\<And>s a. P s \<Longrightarrow> r = Inr a \<Longrightarrow> Q a s) \<Longrightarrow> (\<And>s e. P s \<Longrightarrow> r = Inl e \<Longrightarrow> R e s) \<Longrightarrow> hoare P (lift r) Q R"
  by (simp add: hoare_def lift_def split: sum.splits)

lemma hoare_gets [hoare_rules]: "(\<And>s. P s \<Longrightarrow> Q (f s) s) \<Longrightarrow> hoare P (gets f) Q R"
  by (simp add: hoare_def gets_def)

lemma hoare_update [hoare_rules]: "(\<And>s. P s \<Longrightarrow> Q () (f s)) \<Longrightarrow> hoare P (update f) Q R"
  by (simp add: hoare_def update_def)

lemma hoare_attempt [hoare_rules]:
  assumes "hoare P m (\<lambda>a. Q (Inr a)) (\<lambda>e. Q (Inl e))"
  shows "hoare P (attempt m) Q R"
proof (rule hoareI)
  fix s r t assume "P s" and run: "attempt m s = (Inr r, t)"
  then have "m s = (r, t)" by (simp add: attempt_run prod_eq_iff)
  with hoareD [OF assms \<open>P s\<close>] show "Q r t" by (cases r) simp_all
qed (simp add: attempt_run)

lemma hoare_if [hoare_rules]:
  "(c \<Longrightarrow> hoare P m Q R) \<Longrightarrow> (\<not> c \<Longrightarrow> hoare P m' Q R) \<Longrightarrow> hoare P (if c then m else m') Q R"
  by simp

lemma hoare_for_each:
  assumes "\<And>x. x \<in> set xs \<Longrightarrow> hoare I (body x) (\<lambda>_. I) R"
  shows "hoare I (for_each xs body) (\<lambda>_. I) R"
  using assms
proof (induction xs)
  case Nil
  show ?case by (auto intro: hoare_rules)
next
  case (Cons x xs)
  have "hoare I (body x) (\<lambda>_. I) R" by (rule Cons.prems) simp
  moreover have "hoare I (for_each xs body) (\<lambda>_. I) R" by (rule Cons.IH) (simp add: Cons.prems)
  ultimately show ?case by (simp add: hoare_bind [where M = "\<lambda>_. I"])
qed

section \<open>Read-only code\<close>

text \<open>Code that keeps a predicate of the state and returns a function of what the predicate fixes.
  The median time past computed through such a reader is the pure one.\<close>

definition reads :: "('s \<Rightarrow> bool) \<Rightarrow> ('s, 'e, 'a) stm \<Rightarrow> 'e + 'a \<Rightarrow> bool" where
  "reads I m r \<longleftrightarrow> (\<forall>s. I s \<longrightarrow> (\<exists>t. m s = (r, t) \<and> I t))"

lemma readsE:
  assumes "reads I m r" and "I s"
  obtains t where "m s = (r, t)" and "I t"
  using assms by (auto simp: reads_def)

lemma reads_ret: "reads I (ret a) (Inr a)"
  by (simp add: reads_def ret_def)

lemma reads_fail: "reads I (fail e) (Inl e)"
  by (simp add: reads_def fail_def)

lemma reads_lift: "reads I (lift r) r"
  by (simp add: reads_def lift_def)

lemma reads_bind:
  assumes "reads I m r" and "\<And>a. reads I (f a) (g a)"
  shows "reads I (bindS m f) (bindE r g)"
  unfolding reads_def
proof (intro allI impI)
  fix s assume "I s"
  with assms(1) obtain t where t: "m s = (r, t)" "I t" by (rule readsE)
  show "\<exists>u. bindS m f s = (bindE r g, u) \<and> I u"
  proof (cases r)
    case (Inl e)
    with t show ?thesis by (simp add: bindS_err bindE_def)
  next
    case (Inr a)
    obtain u where "f a t = (g a, u)" "I u" using assms(2) [of a] t(2) by (rule readsE)
    with t Inr show ?thesis by (simp add: bindS_ok bindE_def)
  qed
qed

lemma collect_timestampsS_pure:
  assumes "\<And>h. reads I (prev h) (pure_prev h)"
  shows "reads I (collect_timestampsS n prev h ts) (collect_timestamps n pure_prev h ts)"
  by (induction n arbitrary: h ts) (auto simp: Let_def intro: reads_ret reads_bind assms)

lemma median_time_past_withS_pure:
  assumes "\<And>h. reads I (prev h) (pure_prev h)"
  shows "reads I (median_time_past_withS prev h) (median_time_past_with pure_prev h)"
  unfolding median_time_past_withS_def median_time_past_with_def
  by (intro reads_bind reads_ret collect_timestampsS_pure assms)

end
