(* ===== verification/Chain_Env.thy ===== *)
theory Chain_Env
  imports Swift_Sync Stateful
begin

text \<open>
  What the two chain backends have in common: the code outside the repository they call, gathered in
  one value \<open>E\<close>, the phases of the initial block download (\<^verbatim>\<open>mod.rs\<close>) and the consumers of blocks.
  rustreexo's \<^verbatim>\<open>Stump\<close> is a type parameter with the operations of \<open>stump_api\<close>.
\<close>

section \<open>Definitions\<close>

record ('acc, 'prf) stump_api =
  stump_new :: 'acc
  stump_serialize :: "'acc \<Rightarrow> bytes"
  stump_deserialize :: "bytes \<Rightarrow> string + 'acc"
  stump_verify :: "'acc \<Rightarrow> 'prf \<Rightarrow> node_hash list \<Rightarrow> string + bool"
  stump_modify :: "('acc, 'prf) stump_modify"
  stump_roots :: "'acc \<Rightarrow> node_hash list"

text \<open>\<open>e_scripts\<close> and \<open>e_kernel\<close> are \<open>None\<close> without the \<^verbatim>\<open>bitcoinkernel\<close> feature. \<open>e_show_hash\<close> is the
  \<^verbatim>\<open>Display\<close> of a hash. \<open>e_fuel\<close> bounds the iterations of a loop over ancestors.\<close>

record ('acc, 'prf) chain_env =
  e_lib :: bitcoin_api
  e_net :: network_api
  e_pow :: pow_api
  e_udata :: udata_api
  e_stump :: "('acc, 'prf) stump_api"
  e_scripts :: script_verifier
  e_kernel :: "kernel_flags option"
  e_show_hash :: "hash \<Rightarrow> string"
  e_fuel :: nat

datatype ibd_state =
    HeadersSync
  | SwiftSync u32 u32
  | ProofSync
  | Done

definition block_flags :: "('acc, 'prf, 'x) chain_env_scheme \<Rightarrow> chain_params \<Rightarrow> u32 \<Rightarrow> block \<Rightarrow> u32" where
  "block_flags E cp height b =
     (let bhash = block_hash (e_lib E) (blk_header b) in
      case e_kernel E of
        Some K \<Rightarrow> get_validation_flags K cp height bhash
      | None \<Rightarrow> get_sigop_flags cp bhash)"

text \<open>A consumer of blocks and the calls it has received.\<close>

record block_consumer =
  wants_spent_utxos :: bool
  on_block_calls :: "(block \<times> u32 \<times> utxo_map option) list"

definition on_block :: "block \<Rightarrow> u32 \<Rightarrow> utxo_map option \<Rightarrow> block_consumer \<Rightarrow> block_consumer" where
  "on_block b height spent_utxos c = c\<lparr>on_block_calls := on_block_calls c @ [(b, height, spent_utxos)]\<rparr>"

end
