(* ===== verification/Partial_Chain.thy ===== *)
theory Partial_Chain
  imports Chain_Env
begin

text \<open>
  \<^verbatim>\<open>partial_chain.rs\<close>: the chain state of one interval of the initial block download, kept in memory.
  The methods of the traits that panic with \<^verbatim>\<open>unimplemented!\<close> have no definition.
\<close>

section \<open>Definitions\<close>

record 'acc partial_chain_state =
  current_acc :: 'acc
  pc_blocks :: "header list"
  current_height :: u32
  final_height :: u32
  pc_error :: "block_validation_errors option"
  pc_consensus :: chain_params
  pc_assume_valid :: bool

definition is_sync :: "'acc partial_chain_state \<Rightarrow> bool" where
  "is_sync pc \<longleftrightarrow> current_height pc = final_height pc"

definition pc_get_block :: "'acc partial_chain_state \<Rightarrow> u32 \<Rightarrow> header option" where
  "pc_get_block pc height =
     (if of_nat (length (pc_blocks pc)) \<le> height then None
      else if unat height < length (pc_blocks pc) then Some (pc_blocks pc ! unat height) else None)"

definition update_state :: "u32 \<Rightarrow> 'acc \<Rightarrow> 'acc partial_chain_state \<Rightarrow> 'acc partial_chain_state" where
  "update_state height acc pc = pc\<lparr>current_height := height, current_acc := acc\<rparr>"

definition pc_get_ancestor :: "'acc partial_chain_state \<Rightarrow> u32 \<Rightarrow> blockchain_error + header" where
  "pc_get_ancestor pc height = ok_or BlockNotPresent (pc_get_block pc (height - 1))"

text \<open>The state of the closure is the height it has walked back to.\<close>

definition pc_median_time_past :: "'acc partial_chain_state \<Rightarrow> u32 \<Rightarrow> blockchain_error + u32" where
  "pc_median_time_past pc height =
     bindE (ok_or BlockNotPresent (pc_get_block pc height)) (\<lambda>hdr.
     fst (median_time_past_withS
       (\<lambda>_ height. if height = 0
          then (Inl (Panicked ''height 0 must be genesis and short-circuit MTP computation''), height)
          else (ok_or BlockNotPresent (pc_get_block pc (height - 1)), height - 1))
       hdr height))"

definition pc_previous_median_time_past :: "'acc partial_chain_state \<Rightarrow> u32 \<Rightarrow> blockchain_error + u32" where
  "pc_previous_median_time_past pc height = pc_median_time_past pc (saturating_sub height 1)"

definition pc_validate_block ::
  "('acc, 'prf, 'x) chain_env_scheme \<Rightarrow> 'acc partial_chain_state \<Rightarrow> block \<Rightarrow> u32 \<Rightarrow> utxo_map
   \<Rightarrow> blockchain_error + unit" where
  "pc_validate_block E pc b height inputs =
     (let L = e_lib E; cp = pc_consensus pc in
     bindE (check_block L cp b height) (\<lambda>_.
     bindE (pc_get_ancestor pc height) (\<lambda>prev_block.
     bindE (reject_if (prev_blockhash (blk_header b) \<noteq> block_hash L prev_block)
       (BlockValidation BlockExtendsAnOrphanChain)) (\<lambda>_.
     let subsidy = get_subsidy L (e_net E) cp height in
     bindE (block_lock_time_cutoff cp height (blk_header b) (\<lambda>_. pc_previous_median_time_past pc height))
       (\<lambda>lock_time_cutoff.
     let verify_script = pc_assume_valid pc; flags = block_flags E cp height b in
     bindE (verify_block_transactions L (e_scripts E) height lock_time_cutoff inputs (txdata b) subsidy
       verify_script flags) (\<lambda>_.
     Inr ()))))))"

definition process_block ::
  "('acc, 'prf, 'x) chain_env_scheme \<Rightarrow> block \<Rightarrow> 'prf \<Rightarrow> utxo_map \<Rightarrow> hash list
   \<Rightarrow> ('acc partial_chain_state, blockchain_error, u32) stm" where
  "process_block E b prf inputs del_hashes pc =
     (let height = current_height pc + 1 in
      case pc_validate_block E pc b height inputs of
        Inl (BlockValidation e) \<Rightarrow>
          (Inl (BlockValidation e),
           if e \<noteq> BadMerkleRoot \<and> e \<noteq> BadWitnessCommitment then pc\<lparr>pc_error := Some e\<rparr> else pc)
      | _ \<Rightarrow>
         (case update_acc (e_lib E) (e_udata E) (stump_modify (e_stump E)) (current_acc pc) b height prf
                 del_hashes of
            Inl _ \<Rightarrow> (Inl InvalidUtreexoProof, pc\<lparr>pc_error := Some BadUtreexoProof\<rparr>)
          | Inr acc \<Rightarrow> (Inr height, update_state height acc pc)))"

definition list_valid_blocks :: "'acc partial_chain_state \<Rightarrow> header list" where
  "list_valid_blocks pc = take (unat (current_height pc)) (pc_blocks pc)"

definition has_invalid_blocks :: "'acc partial_chain_state \<Rightarrow> bool" where
  "has_invalid_blocks pc \<longleftrightarrow> pc_error pc \<noteq> None"

definition pc_get_root_hashes :: "('acc, 'prf, 'x) chain_env_scheme \<Rightarrow> 'acc partial_chain_state \<Rightarrow> node_hash list" where
  "pc_get_root_hashes E pc = stump_roots (e_stump E) (current_acc pc)"

definition pc_get_block_hash ::
  "('acc, 'prf, 'x) chain_env_scheme \<Rightarrow> 'acc partial_chain_state \<Rightarrow> u32 \<Rightarrow> blockchain_error + hash" where
  "pc_get_block_hash E pc height =
     (if unat height < length (pc_blocks pc) then Inr (block_hash (e_lib E) (pc_blocks pc ! unat height))
      else Inl BlockNotPresent)"

definition pc_get_best_block ::
  "('acc, 'prf, 'x) chain_env_scheme \<Rightarrow> 'acc partial_chain_state \<Rightarrow> blockchain_error + u32 \<times> hash" where
  "pc_get_best_block E pc =
     bindE (pc_get_block_hash E pc (final_height pc)) (\<lambda>h. Inr (final_height pc, h))"

definition pc_is_coinbase_mature :: "'acc partial_chain_state \<Rightarrow> u32 \<Rightarrow> bool" where
  "pc_is_coinbase_mature pc height \<longleftrightarrow>
     height + coinbase_maturity (pc_consensus pc) > current_height pc"

definition pc_is_in_ibd :: "'acc partial_chain_state \<Rightarrow> bool" where
  "pc_is_in_ibd pc \<longleftrightarrow> \<not> is_sync pc"

fun pc_locator_loop ::
  "nat \<Rightarrow> ('acc, 'prf, 'x) chain_env_scheme \<Rightarrow> 'acc partial_chain_state \<Rightarrow> u32 \<Rightarrow> u32 \<Rightarrow> hash list
   \<Rightarrow> blockchain_error + hash list" where
  "pc_locator_loop 0 E pc step height hs = Inl OutOfFuel"
| "pc_locator_loop (Suc n) E pc step height hs =
     (if height = 0 then Inr hs
      else bindE (pc_get_block_hash E pc height) (\<lambda>h.
        let hs = hs @ [h];
            step = (if length hs > 10 then step * 2 else step)
        in pc_locator_loop n E pc step (saturating_sub height step) hs))"

text \<open>At most 10 steps of one block and 32 that double.\<close>

definition pc_get_block_locator ::
  "('acc, 'prf, 'x) chain_env_scheme \<Rightarrow> 'acc partial_chain_state \<Rightarrow> blockchain_error + hash list" where
  "pc_get_block_locator E pc = pc_locator_loop 43 E pc 1 (current_height pc) []"

end
