(* ===== verification/Chain_State.thy ===== *)
theory Chain_State
  imports Partial_Chain Flat_Store
begin

text \<open>
  \<^verbatim>\<open>chain_state.rs\<close> and \<^verbatim>\<open>chain_state_builder.rs\<close>: the chain of headers, the validation of blocks against
  the accumulator, reorganisations, the queries of \<^verbatim>\<open>BlockchainInterface\<close> and the updates of
  \<^verbatim>\<open>UpdatableChainstate\<close>. The state behind the lock is a record that every operation passes on; the store
  is a type parameter with the operations of the \<^verbatim>\<open>ChainStore\<close> trait, since a lookup also moves entries
  of the store's cache. Loops over ancestors have \<open>e_fuel\<close> iterations and return \<open>OutOfFuel\<close> after that.
  The fee estimates (three floating-point constants) and the log messages are left out.
\<close>

section \<open>State\<close>

text \<open>The \<^verbatim>\<open>ChainStore\<close> trait.\<close>

record 's chain_store_ops =
  st_save_roots :: "bytes \<Rightarrow> u32 \<Rightarrow> ('s, flat_chainstore_error, unit) stm"
  st_load_roots :: "u32 \<Rightarrow> ('s, flat_chainstore_error, bytes option) stm"
  st_load_height :: "('s, flat_chainstore_error, best_chain option) stm"
  st_save_height :: "best_chain \<Rightarrow> ('s, flat_chainstore_error, unit) stm"
  st_get_header :: "hash \<Rightarrow> ('s, flat_chainstore_error, disk_block_header option) stm"
  st_get_header_by_height :: "u32 \<Rightarrow> ('s, flat_chainstore_error, disk_block_header option) stm"
  st_save_header :: "disk_block_header \<Rightarrow> ('s, flat_chainstore_error, unit) stm"
  st_get_block_hash :: "u32 \<Rightarrow> ('s, flat_chainstore_error, hash option) stm"
  st_flush :: "('s, flat_chainstore_error, unit) stm"
  st_update_block_index :: "u32 \<Rightarrow> hash \<Rightarrow> ('s, flat_chainstore_error, unit) stm"
  st_check_integrity :: "('s, flat_chainstore_error, unit) stm"
  st_get_warnings :: "('s, flat_chainstore_error, chain_store_warning list) stm"
  st_size_on_disk :: "('s, flat_chainstore_error, u64) stm"

record ('s, 'acc, 'prf) state_env = "('acc, 'prf) chain_env" +
  e_store :: "'s chain_store_ops"

record ('s, 'acc) chain_state =
  cs_acc :: 'acc
  chainstore :: 's
  best_chain :: best_chain
  subscribers :: "block_consumer list"
  ibd :: ibd_state
  consensus :: chain_params
  assume_valid :: "hash option"

type_synonym ('s, 'acc, 'a) chain_op = "(('s, 'acc) chain_state, blockchain_error, 'a) stm"

text \<open>A call of the store, whose error \<^verbatim>\<open>?\<close> converts.\<close>

definition on_store :: "('s, flat_chainstore_error, 'a) stm \<Rightarrow> ('s, 'acc, 'a) chain_op" where
  "on_store m cs = (case m (chainstore cs) of (r, s) \<Rightarrow> (map_err Database r, cs\<lparr>chainstore := s\<rparr>))"

section \<open>Queries\<close>

definition get_best_block :: "('s, 'acc, u32 \<times> hash) chain_op" where
  "get_best_block = gets (\<lambda>cs. (depth (best_chain cs), best_block (best_chain cs)))"

definition get_disk_block_header ::
  "('s, 'acc, 'prf) state_env \<Rightarrow> hash \<Rightarrow> ('s, 'acc, disk_block_header) chain_op" where
  "get_disk_block_header E h =
     bindS (on_store (st_get_header (e_store E) h)) (\<lambda>r. lift (ok_or BlockNotPresent r))"

definition get_block_header :: "('s, 'acc, 'prf) state_env \<Rightarrow> hash \<Rightarrow> ('s, 'acc, header) chain_op" where
  "get_block_header E h =
     bindS (on_store (st_get_header (e_store E) h)) (\<lambda>r.
     case r of Some d \<Rightarrow> ret (header_of d) | None \<Rightarrow> fail BlockNotPresent)"

definition get_block_height :: "('s, 'acc, 'prf) state_env \<Rightarrow> hash \<Rightarrow> ('s, 'acc, u32 option) chain_op" where
  "get_block_height E h = bindS (get_disk_block_header E h) (\<lambda>d. ret (disk_height d))"

definition get_block_hash :: "('s, 'acc, 'prf) state_env \<Rightarrow> u32 \<Rightarrow> ('s, 'acc, hash) chain_op" where
  "get_block_hash E height =
     bindS (on_store (st_get_block_hash (e_store E) height)) (\<lambda>r. lift (ok_or BlockNotPresent r))"

definition get_header_by_height ::
  "('s, 'acc, 'prf) state_env \<Rightarrow> u32 \<Rightarrow> ('s, 'acc, disk_block_header) chain_op" where
  "get_header_by_height E height =
     bindS (on_store (st_get_header_by_height (e_store E) height)) (\<lambda>r. lift (ok_or BlockNotPresent r))"

definition is_genesis :: "('s, 'acc, 'prf) state_env \<Rightarrow> header \<Rightarrow> ('s, 'acc, bool) chain_op" where
  "is_genesis E hdr =
     gets (\<lambda>cs. block_hash (e_lib E) hdr = block_hash (e_lib E) (blk_header (genesis (consensus cs))))"

definition get_ancestor ::
  "('s, 'acc, 'prf) state_env \<Rightarrow> header \<Rightarrow> ('s, 'acc, disk_block_header) chain_op" where
  "get_ancestor E hdr = get_disk_block_header E (prev_blockhash hdr)"

definition get_validation_index :: "('s, 'acc, 'prf) state_env \<Rightarrow> ('s, 'acc, u32) chain_op" where
  "get_validation_index E =
     bindS (gets (\<lambda>cs. validation_index (best_chain cs))) (\<lambda>validation.
     bindS (get_disk_block_header E validation) (\<lambda>d.
     case d of FullyValid _ height \<Rightarrow> ret height | _ \<Rightarrow> fail BadValidationIndex))"

definition median_time_past :: "('s, 'acc, 'prf) state_env \<Rightarrow> header \<Rightarrow> ('s, 'acc, u32) chain_op" where
  "median_time_past E hdr =
     median_time_past_withS (\<lambda>current_header.
       bindS (get_disk_block_header E (prev_blockhash current_header)) (\<lambda>d. ret (header_of d))) hdr"

definition previous_median_time_past ::
  "('s, 'acc, 'prf) state_env \<Rightarrow> header \<Rightarrow> ('s, 'acc, u32) chain_op" where
  "previous_median_time_past E hdr =
     bindS (get_disk_block_header E (prev_blockhash hdr)) (\<lambda>d. median_time_past E (header_of d))"

definition get_mtp_by_height :: "('s, 'acc, 'prf) state_env \<Rightarrow> u32 \<Rightarrow> ('s, 'acc, u32) chain_op" where
  "get_mtp_by_height E height = bindS (get_header_by_height E height) (\<lambda>d. median_time_past E (header_of d))"

definition get_chain_tips :: "('s, 'acc, hash list) chain_op" where
  "get_chain_tips = gets (\<lambda>cs. best_block (best_chain cs) # alternative_tips (best_chain cs))"

definition is_in_ibd :: "('s, 'acc, bool) chain_op" where
  "is_in_ibd = gets (\<lambda>cs. ibd cs \<noteq> Done)"

definition get_height :: "('s, 'acc, u32) chain_op" where
  "get_height = gets (\<lambda>cs. depth (best_chain cs))"

definition subscribe :: "block_consumer \<Rightarrow> ('s, 'acc, unit) chain_op" where
  "subscribe tx = update (\<lambda>cs. cs\<lparr>subscribers := subscribers cs @ [tx]\<rparr>)"

definition size_on_disk :: "('s, 'acc, 'prf) state_env \<Rightarrow> ('s, 'acc, u64) chain_op" where
  "size_on_disk E = on_store (st_size_on_disk (e_store E))"

definition get_warnings :: "('s, 'acc, 'prf) state_env \<Rightarrow> ('s, 'acc, chain_store_warning list) chain_op" where
  "get_warnings E = on_store (st_get_warnings (e_store E))"

definition is_coinbase_mature ::
  "('s, 'acc, 'prf) state_env \<Rightarrow> u32 \<Rightarrow> hash \<Rightarrow> ('s, 'acc, bool) chain_op" where
  "is_coinbase_mature E height blk =
     bindS (gets (\<lambda>cs. coinbase_maturity (consensus cs))) (\<lambda>maturity.
     bindS (get_disk_block_header E blk) (\<lambda>d.
     bindS (lift (try_height d)) (\<lambda>current_height.
     ret (height + maturity \<le> current_height))))"

definition get_assume_valid_height :: "('s, 'acc, 'prf) state_env \<Rightarrow> ('s, 'acc, u32 option) chain_op" where
  "get_assume_valid_height E =
     bindS (gets assume_valid) (\<lambda>av.
     case av of
       None \<Rightarrow> ret None
     | Some h \<Rightarrow>
         bindS (on_store (st_get_header (e_store E) h)) (\<lambda>r.
         let on_chain = (\<lambda>height.
           bindS (gets (\<lambda>cs. depth (best_chain cs))) (\<lambda>best_depth.
           if height > best_depth then ret None
           else bindS (on_store (st_get_block_hash (e_store E) height)) (\<lambda>at_height.
             ret (if at_height \<noteq> Some h then None else Some height))))
         in case r of
              Some (HeadersOnly _ height) \<Rightarrow> on_chain height
            | Some (FullyValid _ height) \<Rightarrow> on_chain height
            | Some (AssumedValid _ height) \<Rightarrow> on_chain height
            | _ \<Rightarrow> ret None))"

section \<open>Writing headers\<close>

definition update_header ::
  "('s, 'acc, 'prf) state_env \<Rightarrow> disk_block_header \<Rightarrow> ('s, 'acc, unit) chain_op" where
  "update_header E d = on_store (st_save_header (e_store E) d)"

definition update_header_and_index ::
  "('s, 'acc, 'prf) state_env \<Rightarrow> disk_block_header \<Rightarrow> hash \<Rightarrow> u32 \<Rightarrow> ('s, 'acc, unit) chain_op" where
  "update_header_and_index E d h height =
     bindS (on_store (st_save_header (e_store E) d)) (\<lambda>_.
     on_store (st_update_block_index (e_store E) height h))"

definition push_headers ::
  "('s, 'acc, 'prf) state_env \<Rightarrow> header list \<Rightarrow> u32 \<Rightarrow> ('s, 'acc, unit) chain_op" where
  "push_headers E headers height =
     for_each (List.enumerate 0 headers) (\<lambda>(offset, hdr).
       let height = height + of_nat offset; d = FullyValid hdr height
       in update_header_and_index E d (disk_block_hash (e_lib E) d) height)"

section \<open>Work\<close>

fun branch_work_loop ::
  "('s, 'acc, 'prf) state_env \<Rightarrow> u32 \<Rightarrow> u32 list \<Rightarrow> work \<Rightarrow> ('s, 'acc, work) chain_op" where
  "branch_work_loop E block_height [] total_chainwork = ret total_chainwork"
| "branch_work_loop E block_height (epoch_start_height # epochs) total_chainwork =
     (let epoch_end_height = min (epoch_start_height + 2015) block_height;
          blocks_in_epoch = epoch_end_height - epoch_start_height + 1
      in bindS (get_block_hash E epoch_start_height) (\<lambda>epoch_block_hash.
         bindS (get_block_header E epoch_block_hash) (\<lambda>epoch_block_header.
         bindS (lift (map_err (\<lambda>_. OperationOverflow)
           (multiply_work_by_u32 (e_lib E) (header_work (e_pow E) epoch_block_header) blocks_in_epoch)))
           (\<lambda>epoch_chainwork.
         branch_work_loop E block_height epochs (total_chainwork + epoch_chainwork)))))"

text \<open>The epochs start at the multiples of 2016 up to the height.\<close>

definition get_branch_work :: "('s, 'acc, 'prf) state_env \<Rightarrow> header \<Rightarrow> ('s, 'acc, work) chain_op" where
  "get_branch_work E hdr =
     bindS (get_block_height E (block_hash (e_lib E) hdr)) (\<lambda>r.
     bindS (lift (ok_or BlockNotPresent r)) (\<lambda>block_height.
     branch_work_loop E block_height (map (\<lambda>i. of_nat (2016 * i)) [0 ..< Suc (unat block_height div 2016)]) 0))"

definition get_work :: "('s, 'acc, 'prf) state_env \<Rightarrow> hash \<Rightarrow> ('s, 'acc, work) chain_op" where
  "get_work E tip = bindS (get_block_header E tip) (get_branch_work E)"

fun fork_work_loop ::
  "nat \<Rightarrow> ('s, 'acc, 'prf) state_env \<Rightarrow> hash \<Rightarrow> header \<Rightarrow> work \<Rightarrow> ('s, 'acc, work) chain_op" where
  "fork_work_loop 0 E fork_point hdr total_work = fail OutOfFuel"
| "fork_work_loop (Suc n) E fork_point hdr total_work =
     (if block_hash (e_lib E) hdr \<noteq> fork_point then
        let total_work = total_work + header_work (e_pow E) hdr
        in bindS (get_ancestor E hdr) (\<lambda>d. fork_work_loop n E fork_point (header_of d) total_work)
      else ret total_work)"

definition get_fork_work ::
  "('s, 'acc, 'prf) state_env \<Rightarrow> header \<Rightarrow> hash \<Rightarrow> ('s, 'acc, work) chain_op" where
  "get_fork_work E new_tip fork_point =
     bindS (get_work E fork_point) (fork_work_loop (e_fuel E) E fork_point new_tip)"

section \<open>Branches\<close>

definition orphan_message :: "('s, 'acc, 'prf) state_env \<Rightarrow> header \<Rightarrow> blockchain_error" where
  "orphan_message E hdr = InvalidTip (''Block '' @ e_show_hash E (block_hash (e_lib E) hdr)
     @ '' doesn't have a known ancestor (i.e an orphan block)'')"

fun check_branch_loop :: "nat \<Rightarrow> ('s, 'acc, 'prf) state_env \<Rightarrow> header \<Rightarrow> ('s, 'acc, unit) chain_op" where
  "check_branch_loop 0 E hdr = fail OutOfFuel"
| "check_branch_loop (Suc n) E hdr =
     bindS (is_genesis E hdr) (\<lambda>g.
     if g then ret ()
     else bindS (get_ancestor E hdr) (\<lambda>d.
       case d of
         Orphan blk \<Rightarrow> fail (orphan_message E blk)
       | _ \<Rightarrow> check_branch_loop n E (header_of d)))"

definition check_branch :: "('s, 'acc, 'prf) state_env \<Rightarrow> header \<Rightarrow> ('s, 'acc, unit) chain_op" where
  "check_branch E branch_tip = check_branch_loop (e_fuel E) E branch_tip"

fun chain_depth_loop :: "nat \<Rightarrow> ('s, 'acc, 'prf) state_env \<Rightarrow> header \<Rightarrow> u32 \<Rightarrow> ('s, 'acc, u32) chain_op" where
  "chain_depth_loop 0 E hdr counter = fail OutOfFuel"
| "chain_depth_loop (Suc n) E hdr counter =
     bindS (is_genesis E hdr) (\<lambda>g.
     if g then ret counter
     else bindS (get_ancestor E hdr) (\<lambda>d. chain_depth_loop n E (header_of d) (counter + 1)))"

definition get_chain_depth :: "('s, 'acc, 'prf) state_env \<Rightarrow> header \<Rightarrow> ('s, 'acc, u32) chain_op" where
  "get_chain_depth E branch_tip = chain_depth_loop (e_fuel E) E branch_tip 0"

fun mark_active_loop ::
  "nat \<Rightarrow> ('s, 'acc, 'prf) state_env \<Rightarrow> hash \<Rightarrow> disk_block_header \<Rightarrow> u32 \<Rightarrow> ('s, 'acc, unit) chain_op" where
  "mark_active_loop 0 E fork_point d height = fail OutOfFuel"
| "mark_active_loop (Suc n) E fork_point d height =
     bindS (is_genesis E (header_of d)) (\<lambda>g.
     if \<not> g \<and> disk_block_hash (e_lib E) d \<noteq> fork_point then
       let disk_header = HeadersOnly (header_of d) height;
           h = disk_block_hash (e_lib E) disk_header
       in bindS (update_header_and_index E disk_header h height) (\<lambda>_.
          bindS (get_ancestor E (header_of d)) (\<lambda>d.
          mark_active_loop n E fork_point d (height - 1)))
     else ret ())"

definition mark_chain_as_active ::
  "('s, 'acc, 'prf) state_env \<Rightarrow> header \<Rightarrow> hash \<Rightarrow> ('s, 'acc, unit) chain_op" where
  "mark_chain_as_active E new_tip fork_point =
     bindS (get_chain_depth E new_tip) (\<lambda>height.
     mark_active_loop (e_fuel E) E fork_point (HeadersOnly new_tip height) height)"

fun mark_inactive_loop ::
  "nat \<Rightarrow> ('s, 'acc, 'prf) state_env \<Rightarrow> hash \<Rightarrow> header \<Rightarrow> u32 \<Rightarrow> ('s, 'acc, unit) chain_op" where
  "mark_inactive_loop 0 E fork_point hdr height = fail OutOfFuel"
| "mark_inactive_loop (Suc n) E fork_point hdr height =
     bindS (is_genesis E hdr) (\<lambda>g.
     if \<not> g \<and> block_hash (e_lib E) hdr \<noteq> fork_point then
       bindS (update_header E (InFork hdr height)) (\<lambda>_.
       bindS (get_ancestor E hdr) (\<lambda>d.
       mark_inactive_loop n E fork_point (header_of d) (height - 1)))
     else ret ())"

definition mark_chain_as_inactive ::
  "('s, 'acc, 'prf) state_env \<Rightarrow> header \<Rightarrow> hash \<Rightarrow> ('s, 'acc, unit) chain_op" where
  "mark_chain_as_inactive E old_tip fork_point =
     bindS (get_chain_depth E old_tip) (mark_inactive_loop (e_fuel E) E fork_point old_tip)"

fun fork_point_loop :: "nat \<Rightarrow> ('s, 'acc, 'prf) state_env \<Rightarrow> header \<Rightarrow> ('s, 'acc, header) chain_op" where
  "fork_point_loop 0 E hdr = fail OutOfFuel"
| "fork_point_loop (Suc n) E hdr =
     bindS (is_genesis E hdr) (\<lambda>g.
     if g then fail (InvalidTip ''Couldn't find a fork point'')
     else bindS (on_store (st_get_header (e_store E) (block_hash (e_lib E) hdr))) (\<lambda>r.
       case r of
         Some (HeadersOnly blk _) \<Rightarrow> ret blk
       | Some (FullyValid blk _) \<Rightarrow> ret blk
       | Some (InFork blk _) \<Rightarrow> bindS (get_ancestor E blk) (\<lambda>d. fork_point_loop n E (header_of d))
       | Some (AssumedValid blk _) \<Rightarrow> ret blk
       | Some (Orphan blk) \<Rightarrow> fail (orphan_message E blk)
       | Some (InvalidChain blk) \<Rightarrow>
           fail (InvalidTip (''Block '' @ e_show_hash E (block_hash (e_lib E) blk) @ '' is invalid''))
       | None \<Rightarrow>
           fail (InvalidTip (''Block '' @ e_show_hash E (block_hash (e_lib E) hdr) @ '' isn't in our storage''))))"

definition find_fork_point :: "('s, 'acc, 'prf) state_env \<Rightarrow> header \<Rightarrow> ('s, 'acc, header) chain_op" where
  "find_fork_point E hdr = bindS (get_ancestor E hdr) (\<lambda>d. fork_point_loop (e_fuel E) E (header_of d))"

definition get_fork_point :: "('s, 'acc, 'prf) state_env \<Rightarrow> hash \<Rightarrow> ('s, 'acc, hash) chain_op" where
  "get_fork_point E blk =
     bindS (get_block_header E blk) (\<lambda>hdr.
     bindS (find_fork_point E hdr) (\<lambda>fork_point. ret (block_hash (e_lib E) fork_point)))"

fun last_valid_loop :: "nat \<Rightarrow> ('s, 'acc, 'prf) state_env \<Rightarrow> header \<Rightarrow> ('s, 'acc, hash) chain_op" where
  "last_valid_loop 0 E hdr = fail OutOfFuel"
| "last_valid_loop (Suc n) E hdr =
     bindS (is_genesis E hdr) (\<lambda>g.
     if g then ret (block_hash (e_lib E) hdr)
     else bindS (get_ancestor E hdr) (\<lambda>d.
       case d of
         FullyValid _ _ \<Rightarrow> ret (disk_block_hash (e_lib E) d)
       | AssumedValid _ _ \<Rightarrow> ret (disk_block_hash (e_lib E) d)
       | Orphan blk \<Rightarrow> fail (orphan_message E blk)
       | HeadersOnly _ _ \<Rightarrow> last_valid_loop n E (header_of d)
       | InFork _ _ \<Rightarrow> last_valid_loop n E (header_of d)
       | InvalidChain blk \<Rightarrow> fail (InvalidTip (''Block '' @ e_show_hash E (block_hash (e_lib E) blk)
           @ '' is in an invalid chain''))))"

definition get_last_valid_block :: "('s, 'acc, 'prf) state_env \<Rightarrow> header \<Rightarrow> ('s, 'acc, hash) chain_op" where
  "get_last_valid_block E hdr = last_valid_loop (e_fuel E) E hdr"

section \<open>Accumulators and the best chain on disk\<close>

definition get_roots_for_block :: "('s, 'acc, 'prf) state_env \<Rightarrow> u32 \<Rightarrow> ('s, 'acc, 'acc option) chain_op" where
  "get_roots_for_block E height =
     bindS (on_store (st_load_roots (e_store E) height)) (\<lambda>acc.
     case acc of
       None \<Rightarrow> ret None
     | Some bs \<Rightarrow> bindS (lift (map_err AccumulatorError (stump_deserialize (e_stump E) bs))) (\<lambda>acc. ret (Some acc)))"

text \<open>\<^verbatim>\<open>find_best_chain\<close>: the loop over the indexed heights. The errors it reads are ends of the loop.\<close>

fun best_chain_loop ::
  "nat \<Rightarrow> ('s, 'acc, 'prf) state_env \<Rightarrow> hash \<Rightarrow> u32 \<Rightarrow> hash \<Rightarrow> ('s, 'acc, hash \<times> u32 \<times> hash) chain_op" where
  "best_chain_loop 0 E best dep validation = fail OutOfFuel"
| "best_chain_loop (Suc n) E best dep validation =
     (let next_height = dep + 1; stop = ret (best, dep, validation) in
      bindS (attempt (on_store (st_get_block_hash (e_store E) next_height))) (\<lambda>r.
      case r of
        Inr (Some h) \<Rightarrow>
          bindS (attempt (get_disk_block_header E h)) (\<lambda>d.
          case d of
            Inr (FullyValid _ height) \<Rightarrow>
              if height \<noteq> next_height then fail (Panicked ''assert_eq'')
              else best_chain_loop n E h next_height h
          | Inr (HeadersOnly _ height) \<Rightarrow>
              if height \<noteq> next_height then fail (Panicked ''assert_eq'')
              else best_chain_loop n E h next_height validation
          | Inr (AssumedValid _ height) \<Rightarrow>
              if height \<noteq> next_height then fail (Panicked ''assert_eq'')
              else best_chain_loop n E h next_height validation
          | _ \<Rightarrow> stop)
      | _ \<Rightarrow> stop))"

definition find_best_chain :: "('s, 'acc, 'prf) state_env \<Rightarrow> ('s, 'acc, best_chain) chain_op" where
  "find_best_chain E =
     bindS (attempt (on_store (st_get_block_hash (e_store E) 0))) (\<lambda>r.
     case r of
       Inr (Some gen) \<Rightarrow>
         bindS (best_chain_loop (e_fuel E) E gen 0 gen) (\<lambda>(best, dep, validation).
         ret \<lparr>best_block = best, depth = dep, validation_index = validation, alternative_tips = []\<rparr>)
     | Inr None \<Rightarrow> fail (Panicked ''expected genesis block, found None'')
     | Inl _ \<Rightarrow> fail (Panicked ''TODO handle chainstore error''))"

text \<open>The search for the last accumulator, from the given height down to 1.\<close>

fun last_accumulator :: "nat \<Rightarrow> ('s, 'acc, 'prf) state_env \<Rightarrow> ('s, 'acc, (u32 \<times> 'acc) option) chain_op" where
  "last_accumulator 0 E = ret None"
| "last_accumulator (Suc n) E =
     bindS (get_roots_for_block E (of_nat (Suc n))) (\<lambda>r.
     case r of
       Some acc \<Rightarrow> ret (Some (of_nat (Suc n), acc))
     | None \<Rightarrow> last_accumulator n E)"

definition reindex_chain :: "('s, 'acc, 'prf) state_env \<Rightarrow> ('s, 'acc, unit) chain_op" where
  "reindex_chain E =
     bindS (find_best_chain E) (\<lambda>best.
     bindS (get_block_height E (validation_index best)) (\<lambda>r.
     let validation_index_height = (case r of Some h \<Rightarrow> h | None \<Rightarrow> 0) in
     bindS (last_accumulator (unat validation_index_height) E) (\<lambda>found.
     case found of
       Some (last_acc_height, acc) \<Rightarrow>
         bindS (for_each (map of_nat [Suc (unat last_acc_height) ..< Suc (unat validation_index_height)]) (\<lambda>height.
           bindS (get_header_by_height E height) (\<lambda>d. update_header E (HeadersOnly (header_of d) height)))) (\<lambda>_.
         bindS (get_header_by_height E last_acc_height) (\<lambda>last_acc_header.
         update (\<lambda>cs. cs\<lparr>cs_acc := acc,
           best_chain := best\<lparr>validation_index := disk_block_hash (e_lib E) last_acc_header\<rparr>\<rparr>)))
     | None \<Rightarrow> update (\<lambda>cs. cs\<lparr>best_chain := best\<rparr>))))"

definition maybe_reindex :: "('s, 'acc, 'prf) state_env \<Rightarrow> disk_block_header \<Rightarrow> ('s, 'acc, unit) chain_op" where
  "maybe_reindex E potential_tip =
     (case potential_tip of
        HeadersOnly _ height \<Rightarrow>
          bindS get_best_block (\<lambda>(best_height, _).
          if height > best_height then reindex_chain E else ret ())
      | _ \<Rightarrow> ret ())"

section \<open>Reorganisations\<close>

definition reorg_acc :: "('s, 'acc, 'prf) state_env \<Rightarrow> hash \<Rightarrow> ('s, 'acc, 'acc) chain_op" where
  "reorg_acc E validation =
     bindS (get_block_height E validation) (\<lambda>r.
     bindS (lift (ok_or BlockNotPresent r)) (\<lambda>height.
     if height = 0 then ret (stump_new (e_stump E))
     else bindS (get_roots_for_block E height) (\<lambda>r. lift (ok_or BadValidationIndex r))))"

definition change_active_chain ::
  "('s, 'acc, 'prf) state_env \<Rightarrow> header \<Rightarrow> hash \<Rightarrow> u32 \<Rightarrow> 'acc \<Rightarrow> ('s, 'acc, unit) chain_op" where
  "change_active_chain E new_tip last_valid dep acc =
     update (\<lambda>cs. cs\<lparr>best_chain := (best_chain cs)\<lparr>best_block := block_hash (e_lib E) new_tip,
       validation_index := last_valid, depth := dep\<rparr>, cs_acc := acc\<rparr>)"

definition reorg :: "('s, 'acc, 'prf) state_env \<Rightarrow> header \<Rightarrow> ('s, 'acc, unit) chain_op" where
  "reorg E new_tip =
     bindS get_best_block (\<lambda>(_, best).
     bindS (get_block_header E best) (\<lambda>current_best_block.
     bindS (find_fork_point E new_tip) (\<lambda>fork_point.
     bindS (get_last_valid_block E new_tip) (\<lambda>validation.
     bindS (get_chain_depth E new_tip) (\<lambda>dep.
     bindS (reorg_acc E validation) (\<lambda>acc.
     bindS (mark_chain_as_inactive E current_best_block (block_hash (e_lib E) fork_point)) (\<lambda>_.
     bindS (mark_chain_as_active E new_tip (block_hash (e_lib E) fork_point)) (\<lambda>_.
     change_active_chain E new_tip validation dep acc))))))))"

text \<open>The first tip equal to the parent is removed, and the new one pushed at the end.\<close>

definition push_alt_tip :: "('s, 'acc, 'prf) state_env \<Rightarrow> header \<Rightarrow> ('s, 'acc, unit) chain_op" where
  "push_alt_tip E branch_tip =
     bindS (attempt (get_ancestor E branch_tip)) (\<lambda>r.
     let push = (\<lambda>removed. update (\<lambda>cs. cs\<lparr>best_chain := (best_chain cs)\<lparr>alternative_tips :=
           (case removed of None \<Rightarrow> alternative_tips (best_chain cs)
                          | Some h \<Rightarrow> remove1 h (alternative_tips (best_chain cs)))
           @ [block_hash (e_lib E) branch_tip]\<rparr>\<rparr>))
     in case r of
          Inr d \<Rightarrow> push (Some (disk_block_hash (e_lib E) d))
        | Inl BlockNotPresent \<Rightarrow> push None
        | Inl e \<Rightarrow> fail e)"

definition maybe_reorg :: "('s, 'acc, 'prf) state_env \<Rightarrow> header \<Rightarrow> ('s, 'acc, unit) chain_op" where
  "maybe_reorg E branch_tip =
     bindS get_best_block (\<lambda>(_, best).
     bindS (get_block_header E best) (\<lambda>current_tip.
     bindS (check_branch E branch_tip) (\<lambda>_.
     bindS (find_fork_point E branch_tip) (\<lambda>fork_point.
     bindS (get_branch_work E current_tip) (\<lambda>current_work.
     bindS (get_fork_work E branch_tip (block_hash (e_lib E) fork_point)) (\<lambda>new_work.
     if new_work > current_work then reorg E branch_tip
     else bindS (push_alt_tip E branch_tip) (\<lambda>_.
       bindS (get_ancestor E branch_tip) (\<lambda>d.
       bindS (lift (try_height d)) (\<lambda>parent_height.
       update_header E (InFork branch_tip (parent_height + 1)))))))))))"

definition switch_chain :: "('s, 'acc, 'prf) state_env \<Rightarrow> hash \<Rightarrow> ('s, 'acc, unit) chain_op" where
  "switch_chain E new_tip = bindS (get_block_header E new_tip) (reorg E)"

section \<open>Header validation\<close>

fun ancestor_loop :: "nat \<Rightarrow> ('s, 'acc, 'prf) state_env \<Rightarrow> header \<Rightarrow> ('s, 'acc, header) chain_op" where
  "ancestor_loop 0 E ancestor = ret ancestor"
| "ancestor_loop (Suc n) E ancestor =
     bindS (get_disk_block_header E (prev_blockhash ancestor)) (\<lambda>d. ancestor_loop n E (header_of d))"

text \<open>\<^verbatim>\<open>target_height..header_height\<close> has no elements when the bounds are the other way round, and so has
  the natural-number difference.\<close>

definition get_ancestor_at_height ::
  "('s, 'acc, 'prf) state_env \<Rightarrow> header \<Rightarrow> u32 \<Rightarrow> u32 \<Rightarrow> ('s, 'acc, header) chain_op" where
  "get_ancestor_at_height E hdr header_height target_height =
     bindS (attempt (get_block_hash E header_height)) (\<lambda>r.
     if r = Inr (block_hash (e_lib E) hdr)
     then bindS (get_header_by_height E target_height) (\<lambda>d. ret (header_of d))
     else ancestor_loop (unat header_height - unat target_height) E hdr)"

text \<open>The walk back over minimum-difficulty blocks takes at most 2015 steps: it stops at a height that is a
  multiple of 2016.\<close>

fun min_difficulty_loop ::
  "nat \<Rightarrow> ('s, 'acc, 'prf) state_env \<Rightarrow> u32 \<Rightarrow> header \<Rightarrow> u32 \<Rightarrow> ('s, 'acc, header) chain_op" where
  "min_difficulty_loop 0 E min_difficulty_bits hdr height = fail OutOfFuel"
| "min_difficulty_loop (Suc n) E min_difficulty_bits hdr height =
     (if height mod 2016 \<noteq> 0 \<and> hdr_bits hdr = min_difficulty_bits then
        bindS (get_disk_block_header E (prev_blockhash hdr)) (\<lambda>d.
        min_difficulty_loop n E min_difficulty_bits (header_of d) (height - 1))
      else ret hdr)"

definition get_next_required_work ::
  "('s, 'acc, 'prf) state_env \<Rightarrow> header \<Rightarrow> u32 \<Rightarrow> header \<Rightarrow> ('s, 'acc, target) chain_op" where
  "get_next_required_work E last_block next_height next_header =
     bindS (gets consensus) (\<lambda>cp.
     let ps = cp_params cp; P = e_pow E in
     if next_height mod 2016 \<noteq> 0 then
       if \<not> allow_min_difficulty_blocks ps then ret (header_target P last_block)
       else if ucast (hdr_time last_block) + pow_target_spacing ps * 2 < (ucast (hdr_time next_header) :: u64)
       then ret (max_attainable_target ps)
       else
         bindS (min_difficulty_loop 2016 E (target_to_compact_lossy P (max_attainable_target ps)) last_block
           (next_height - 1)) (\<lambda>hdr.
         ret (header_target P hdr))
     else if \<not> no_pow_retargeting ps then
       bindS (get_ancestor_at_height E last_block (next_height - 1) (next_height - 2016)) (\<lambda>first_block.
       let t = calc_next_work_required P last_block first_block cp
       in ret (if t < max_attainable_target ps then t else max_attainable_target ps))
     else ret (header_target P last_block))"

definition check_bip94_block ::
  "('s, 'acc, 'prf) state_env \<Rightarrow> header \<Rightarrow> u32 \<Rightarrow> ('s, 'acc, unit) chain_op" where
  "check_bip94_block E hdr height =
     bindS (gets consensus) (\<lambda>cp.
     if \<not> enforce_bip94 cp \<or> height mod miner_confirmation_window (cp_params cp) \<noteq> 0 then ret ()
     else bindS (get_disk_block_header E (prev_blockhash hdr)) (\<lambda>prev_header.
       lift (map_err BlockValidation (check_bip94_time hdr (header_of prev_header)))))"

text \<open>\<^verbatim>\<open>Version::to_consensus\<close> is the signed 32-bit value.\<close>

definition validate_header :: "('s, 'acc, 'prf) state_env \<Rightarrow> header \<Rightarrow> ('s, 'acc, hash) chain_op" where
  "validate_header E hdr =
     bindS (lift (map_err (\<lambda>_. BlockValidation NotEnoughPow)
       (validate_pow (e_pow E) hdr (header_target (e_pow E) hdr)))) (\<lambda>bhash.
     bindS (get_disk_block_header E (prev_blockhash hdr)) (\<lambda>prev_block.
     bindS (lift (ok_or (BlockValidation BlockExtendsAnOrphanChain) (disk_height prev_block))) (\<lambda>prev_height.
     let height = prev_height + 1 in
     bindS (get_next_required_work E (header_of prev_block) height hdr) (\<lambda>expected_target.
     bindS (lift (reject_if (hdr_bits hdr \<noteq> target_to_compact_lossy (e_pow E) expected_target)
       (BlockValidation BadDiffBits))) (\<lambda>_.
     bindS (check_bip94_block E hdr height) (\<lambda>_.
     bindS (gets (\<lambda>cs. min_header_version (cp_params (consensus cs)) height)) (\<lambda>min_version.
     bindS (lift (reject_if (sint (hdr_version hdr) < min_version) (BlockValidation BadVersion))) (\<lambda>_.
     ret bhash))))))))"

definition accept_header :: "('s, 'acc, 'prf) state_env \<Rightarrow> header \<Rightarrow> ('s, 'acc, unit) chain_op" where
  "accept_header E hdr =
     bindS (attempt (get_disk_block_header E (block_hash (e_lib E) hdr))) (\<lambda>r.
     case r of
       Inl (Database e) \<Rightarrow> fail (Database e)
     | Inr found \<Rightarrow> maybe_reindex E found
     | _ \<Rightarrow>
         bindS get_best_block (\<lambda>(best_height, best_hash).
         bindS (validate_header E hdr) (\<lambda>bhash.
         if prev_blockhash hdr = best_hash then
           let height = best_height + 1 in
           bindS (update (\<lambda>cs. cs\<lparr>best_chain := new_block bhash height (best_chain cs)\<rparr>)) (\<lambda>_.
           update_header_and_index E (HeadersOnly hdr height) bhash height)
         else maybe_reorg E hdr)))"

section \<open>Block validation\<close>

definition verify_script :: "('s, 'acc, 'prf) state_env \<Rightarrow> u32 \<Rightarrow> ('s, 'acc, bool) chain_op" where
  "verify_script E height =
     bindS (gets assume_valid) (\<lambda>av.
     case av of
       Some h \<Rightarrow>
         bindS (on_store (st_get_header (e_store E) h)) (\<lambda>r.
         case r of
           Some (HeadersOnly _ assume_h) \<Rightarrow> ret (height > assume_h)
         | Some (FullyValid _ assume_h) \<Rightarrow> ret (height > assume_h)
         | _ \<Rightarrow> ret True)
     | None \<Rightarrow> ret True)"

text \<open>The closure of \<^verbatim>\<open>block_lock_time_cutoff\<close> runs only when BIP68 is active at the height.\<close>

definition validate_block_no_acc ::
  "('s, 'acc, 'prf) state_env \<Rightarrow> block \<Rightarrow> u32 \<Rightarrow> utxo_map \<Rightarrow> ('s, 'acc, unit) chain_op" where
  "validate_block_no_acc E b height inputs =
     bindS (gets consensus) (\<lambda>cp.
     bindS (lift (check_block (e_lib E) cp b height)) (\<lambda>_.
     let subsidy = get_subsidy (e_lib E) (e_net E) cp height in
     bindS (attempt (if csv_activation_height cp \<le> height
         then previous_median_time_past E (blk_header b) else ret 0)) (\<lambda>mtp.
     bindS (lift (block_lock_time_cutoff cp height (blk_header b) (\<lambda>_. mtp))) (\<lambda>lock_time_cutoff.
     let flags = block_flags E cp height b in
     bindS (verify_script E height) (\<lambda>verify.
     bindS (lift (verify_block_transactions (e_lib E) (e_scripts E) height lock_time_cutoff inputs (txdata b)
       subsidy verify flags)) (\<lambda>_.
     ret ()))))))"

definition validate_block ::
  "('s, 'acc, 'prf) state_env \<Rightarrow> block \<Rightarrow> 'prf \<Rightarrow> utxo_map \<Rightarrow> hash list \<Rightarrow> 'acc \<Rightarrow> ('s, 'acc, unit) chain_op" where
  "validate_block E b prf inputs del_hashes acc =
     bindS (lift (map_err AccumulatorError (stump_verify (e_stump E) acc prf (map NodeSome del_hashes)))) (\<lambda>valid.
     bindS (lift (reject_if (\<not> valid) (BlockValidation BadUtreexoProof))) (\<lambda>_.
     bindS (get_disk_block_header E (block_hash (e_lib E) (blk_header b))) (\<lambda>d.
     bindS (lift (try_height d)) (\<lambda>height.
     validate_block_no_acc E b height inputs))))"

definition update_view ::
  "('s, 'acc, 'prf) state_env \<Rightarrow> u32 \<Rightarrow> header \<Rightarrow> 'acc \<Rightarrow> ('s, 'acc, unit) chain_op" where
  "update_view E height hdr acc =
     bindS (on_store (st_save_header (e_store E) (FullyValid hdr height))) (\<lambda>_.
     bindS (on_store (st_update_block_index (e_store E) height (block_hash (e_lib E) hdr))) (\<lambda>_.
     bindS (on_store (st_save_roots (e_store E) (stump_serialize (e_stump E) acc) height)) (\<lambda>_.
     update (\<lambda>cs. cs\<lparr>cs_acc := acc, best_chain := valid_block (block_hash (e_lib E) hdr) (best_chain cs)\<rparr>))))"

definition update_tip :: "hash \<Rightarrow> u32 \<Rightarrow> ('s, 'acc, unit) chain_op" where
  "update_tip best height =
     update (\<lambda>cs. cs\<lparr>best_chain := (best_chain cs)\<lparr>best_block := best, depth := height\<rparr>\<rparr>)"

definition notify :: "block \<Rightarrow> u32 \<Rightarrow> utxo_map option \<Rightarrow> ('s, 'acc, unit) chain_op" where
  "notify b height inputs =
     update (\<lambda>cs. cs\<lparr>subscribers := map (\<lambda>client.
       if wants_spent_utxos client then on_block b height inputs client
       else on_block b height None client) (subscribers cs)\<rparr>)"

definition flush :: "('s, 'acc, 'prf) state_env \<Rightarrow> ('s, 'acc, unit) chain_op" where
  "flush E =
     bindS (gets best_chain) (\<lambda>best.
     bindS (on_store (st_save_height (e_store E) best)) (\<lambda>_.
     on_store (st_flush (e_store E))))"

text \<open>The height at which \<^verbatim>\<open>connect_block\<close> validates a block, from the state its header is stored in.\<close>

definition connect_height :: "('s, 'acc, 'prf) state_env \<Rightarrow> disk_block_header \<Rightarrow> ('s, 'acc, u32) chain_op" where
  "connect_height E d =
     (case d of
        FullyValid _ height \<Rightarrow>
          bindS (get_validation_index E) (\<lambda>validation.
          if height \<noteq> validation then fail (BlockValidation BlockDoesntExtendTip) else ret height)
      | HeadersOnly _ height \<Rightarrow>
          bindS (get_validation_index E) (\<lambda>validation.
          if height \<noteq> validation + 1 then fail (BlockValidation BlockDoesntExtendTip) else ret height)
      | _ \<Rightarrow> fail (BlockValidation BlockExtendsAnOrphanChain))"

definition connect_block ::
  "('s, 'acc, 'prf) state_env \<Rightarrow> block \<Rightarrow> 'prf \<Rightarrow> utxo_map \<Rightarrow> hash list \<Rightarrow> ('s, 'acc, u32) chain_op" where
  "connect_block E b prf inputs del_hashes =
     bindS (get_disk_block_header E (block_hash (e_lib E) (blk_header b))) (\<lambda>d.
     bindS (connect_height E d) (\<lambda>height.
     bindS (gets (\<lambda>cs. if list_ex wants_spent_utxos (subscribers cs) then Some inputs else None))
       (\<lambda>inputs_for_notifications.
     bindS (gets cs_acc) (\<lambda>acc.
     bindS (lift (update_acc (e_lib E) (e_udata E) (stump_modify (e_stump E)) acc b height prf del_hashes)) (\<lambda>acc.
     bindS (validate_block_no_acc E b height inputs) (\<lambda>_.
     bindS (update_view E height (blk_header b) acc) (\<lambda>_.
     bindS is_in_ibd (\<lambda>in_ibd.
     bindS (if \<not> in_ibd \<or> height mod 100000 = 0 then flush E else ret ()) (\<lambda>_.
     bindS (notify b height inputs_for_notifications) (\<lambda>_.
     ret height))))))))))"

section \<open>Other updates\<close>

definition mark_block_as_valid :: "('s, 'acc, 'prf) state_env \<Rightarrow> hash \<Rightarrow> ('s, 'acc, unit) chain_op" where
  "mark_block_as_valid E blk =
     bindS (get_disk_block_header E blk) (\<lambda>d.
     bindS (lift (try_height d)) (\<lambda>height.
     update_header E (FullyValid (header_of d) height)))"

fun mark_assumed_loop ::
  "nat \<Rightarrow> ('s, 'acc, 'prf) state_env \<Rightarrow> disk_block_header \<Rightarrow> hash \<Rightarrow> ('s, 'acc, unit) chain_op" where
  "mark_assumed_loop 0 E d h = fail OutOfFuel"
| "mark_assumed_loop (Suc n) E d h =
     bindS (is_genesis E (header_of d)) (\<lambda>g.
     if g then ret ()
     else bindS (lift (try_height d)) (\<lambda>height.
       bindS (update_header_and_index E (FullyValid (header_of d) height) h height) (\<lambda>_.
       bindS (get_ancestor E (header_of d)) (\<lambda>d.
       mark_assumed_loop n E d (disk_block_hash (e_lib E) d)))))"

definition mark_chain_as_assumed ::
  "('s, 'acc, 'prf) state_env \<Rightarrow> 'acc \<Rightarrow> hash \<Rightarrow> ('s, 'acc, bool) chain_op" where
  "mark_chain_as_assumed E acc assumed_hash =
     bindS (get_disk_block_header E assumed_hash) (\<lambda>assumed_header.
     bindS (mark_assumed_loop (e_fuel E) E assumed_header assumed_hash) (\<lambda>_.
     bindS (lift (try_height assumed_header)) (\<lambda>height.
     bindS (update_view E height (header_of assumed_header) acc) (\<lambda>_.
     bindS (flush E) (\<lambda>_.
     ret True)))))"

definition invalidate_block :: "('s, 'acc, 'prf) state_env \<Rightarrow> hash \<Rightarrow> ('s, 'acc, unit) chain_op" where
  "invalidate_block E blk =
     bindS (get_disk_block_header E blk) (\<lambda>d.
     bindS (lift (try_height d)) (\<lambda>height.
     bindS get_height (\<lambda>current_height.
     bindS (for_each (map of_nat [unat height ..< Suc (unat current_height)]) (\<lambda>k.
       bindS (get_block_hash E k) (\<lambda>h.
       bindS (get_block_header E h) (\<lambda>hdr.
       update_header E (InvalidChain hdr))))) (\<lambda>_.
     bindS (get_block_header E blk) (\<lambda>hdr.
     bindS (get_ancestor E hdr) (\<lambda>parent.
     update_tip (disk_block_hash (e_lib E) parent) (height - 1)))))))"

definition update_ibd :: "ibd_state \<Rightarrow> ('s, 'acc, unit) chain_op" where
  "update_ibd phase = update (\<lambda>cs. cs\<lparr>ibd := phase\<rparr>)"

definition get_root_hashes :: "('s, 'acc, 'prf) state_env \<Rightarrow> ('s, 'acc, node_hash list) chain_op" where
  "get_root_hashes E = gets (\<lambda>cs. stump_roots (e_stump E) (cs_acc cs))"

text \<open>\<^verbatim>\<open>expect\<close> on the two lookups.\<close>

fun partial_chain_headers :: "('s, 'acc, 'prf) state_env \<Rightarrow> u32 list \<Rightarrow> header list \<Rightarrow> ('s, 'acc, header list) chain_op" where
  "partial_chain_headers E [] blks = ret blks"
| "partial_chain_headers E (height # heights) blks =
     bindS (attempt (bindS (get_block_hash E height) (get_disk_block_header E))) (\<lambda>r.
     case r of
       Inr d \<Rightarrow> partial_chain_headers E heights (blks @ [header_of d])
     | Inl _ \<Rightarrow> fail (Panicked ''Block should be present''))"

definition get_partial_chain ::
  "('s, 'acc, 'prf) state_env \<Rightarrow> u32 \<Rightarrow> u32 \<Rightarrow> 'acc \<Rightarrow> ('s, 'acc, 'acc partial_chain_state) chain_op" where
  "get_partial_chain E initial_height fin_height acc =
     bindS (partial_chain_headers E (map of_nat [0 ..< Suc (unat fin_height)]) []) (\<lambda>blks.
     bindS (gets consensus) (\<lambda>cp.
     ret \<lparr>current_acc = acc, pc_blocks = blks, current_height = initial_height, final_height = fin_height,
          pc_error = None, pc_consensus = cp, pc_assume_valid = False\<rparr>))"

section \<open>Block locators\<close>

fun ancestor_disk_loop ::
  "nat \<Rightarrow> ('s, 'acc, 'prf) state_env \<Rightarrow> disk_block_header \<Rightarrow> ('s, 'acc, disk_block_header) chain_op" where
  "ancestor_disk_loop 0 E d = ret d"
| "ancestor_disk_loop (Suc n) E d = bindS (get_ancestor E (header_of d)) (ancestor_disk_loop n E)"

fun locator_for_tip_loop ::
  "nat \<Rightarrow> ('s, 'acc, 'prf) state_env \<Rightarrow> u32 \<Rightarrow> u32 \<Rightarrow> disk_block_header \<Rightarrow> u32 \<Rightarrow> hash list
   \<Rightarrow> ('s, 'acc, hash list) chain_op" where
  "locator_for_tip_loop 0 E i height d step hs = fail OutOfFuel"
| "locator_for_tip_loop (Suc n) E i height d step hs =
     (if i > 0 then
        bindS (ancestor_disk_loop (unat height - unat i) E d) (\<lambda>d.
        let height = min height i;
            step = (if length hs \<ge> 10 then step * 2 else step);
            hs = hs @ [disk_block_hash (e_lib E) d]
        in if i > step then locator_for_tip_loop n E (i - step) height d step hs else ret hs)
      else ret hs)"

definition get_block_locator_for_tip ::
  "('s, 'acc, 'prf) state_env \<Rightarrow> hash \<Rightarrow> ('s, 'acc, hash list) chain_op" where
  "get_block_locator_for_tip E tip =
     bindS (get_disk_block_header E tip) (\<lambda>d.
     bindS (lift (try_height d)) (\<lambda>height.
     bindS (get_disk_block_header E tip) (\<lambda>d.
     bindS (locator_for_tip_loop 43 E height height d 1 []) (\<lambda>hs.
     bindS (get_block_hash E 0) (\<lambda>gen.
     ret (hs @ [gen]))))))"

fun locator_indexes :: "nat \<Rightarrow> u32 \<Rightarrow> u32 \<Rightarrow> u32 list \<Rightarrow> u32 list option" where
  "locator_indexes 0 i step indexes = None"
| "locator_indexes (Suc n) i step indexes =
     (if i > 0 then
        let step = (if length indexes \<ge> 10 then step * 2 else step);
            indexes = indexes @ [i]
        in if i > step then locator_indexes n (i - step) step indexes else Some indexes
      else Some indexes)"

fun collect_hashes :: "('s, 'acc, 'prf) state_env \<Rightarrow> u32 list \<Rightarrow> hash list \<Rightarrow> ('s, 'acc, hash list) chain_op" where
  "collect_hashes E [] hs = ret hs"
| "collect_hashes E (i # indexes) hs =
     bindS (attempt (get_block_hash E i)) (\<lambda>r.
     collect_hashes E indexes (case r of Inr h \<Rightarrow> hs @ [h] | Inl _ \<Rightarrow> hs))"

definition get_block_locator :: "('s, 'acc, 'prf) state_env \<Rightarrow> ('s, 'acc, hash list) chain_op" where
  "get_block_locator E =
     bindS get_height (\<lambda>top_height.
     bindS (lift (ok_or OutOfFuel (locator_indexes 43 top_height 1 []))) (\<lambda>indexes.
     collect_hashes E (indexes @ [0]) []))"

section \<open>Opening a chain state\<close>

definition check_db_integrity :: "('s, 'acc, 'prf) state_env \<Rightarrow> ('s, 'acc, unit) chain_op" where
  "check_db_integrity E =
     bindS (attempt (on_store (st_check_integrity (e_store E)))) (\<lambda>res.
     case res of Inl _ \<Rightarrow> reindex_chain E | Inr _ \<Rightarrow> ret ())"

definition check_chain_integrity :: "('s, 'acc, 'prf) state_env \<Rightarrow> ('s, 'acc, unit) chain_op" where
  "check_chain_integrity E =
     bindS (check_db_integrity E) (\<lambda>_.
     bindS get_best_block (\<lambda>(best_height, best_hash).
     bindS (get_disk_block_header E best_hash) (\<lambda>d.
     bindS (lift (try_height d)) (\<lambda>best_disk_height.
     if best_height \<noteq> best_disk_height then reindex_chain E
     else
       bindS (attempt (get_validation_index E)) (\<lambda>r.
       case r of
         Inl _ \<Rightarrow> reindex_chain E
       | Inr validation \<Rightarrow>
           bindS (get_block_hash E validation) (\<lambda>last_valid_block.
           bindS (get_disk_block_header E last_valid_block) (\<lambda>last_valid_header.
           case last_valid_header of
             FullyValid _ _ \<Rightarrow>
               let next_height = validation + 1 in
               if next_height > best_height then ret ()
               else
                 bindS (get_block_hash E next_height) (\<lambda>next_block_hash.
                 bindS (get_disk_block_header E next_block_hash) (\<lambda>next_header.
                 case next_header of FullyValid _ _ \<Rightarrow> reindex_chain E | _ \<Rightarrow> ret ()))
           | _ \<Rightarrow> reindex_chain E)))))))"

definition deserialize_accumulator ::
  "('s, 'acc, 'prf) state_env \<Rightarrow> bytes option \<Rightarrow> blockchain_error + 'acc" where
  "deserialize_accumulator E acc =
     (case acc of
        None \<Rightarrow> Inr (stump_new (e_stump E))
      | Some bs \<Rightarrow> map_err AccumulatorError (stump_deserialize (e_stump E) bs))"

text \<open>The constructors run on the store; the chain state is the result, and the store after a failure is
  what the files hold.\<close>

definition load_chain_state ::
  "('s, 'acc, 'prf) state_env \<Rightarrow> network \<Rightarrow> assume_valid_arg \<Rightarrow> ('s, blockchain_error, ('s, 'acc) chain_state) stm" where
  "load_chain_state E network arg =
     bindS (\<lambda>s. case st_load_height (e_store E) s of (r, s) \<Rightarrow> (map_err Database r, s)) (\<lambda>r.
     bindS (lift (ok_or ChainNotInitialized r)) (\<lambda>best.
     bindS (\<lambda>s. case st_get_header (e_store E) (validation_index best) s of (r, s) \<Rightarrow> (map_err Database r, s)) (\<lambda>r.
     bindS (lift (ok_or BlockNotPresent r)) (\<lambda>d.
     bindS (lift (try_height d)) (\<lambda>validation_index_height.
     bindS (\<lambda>s. case st_load_roots (e_store E) validation_index_height s of (r, s) \<Rightarrow> (map_err Database r, s)) (\<lambda>loaded_acc.
     bindS (lift (deserialize_accumulator E loaded_acc)) (\<lambda>acc.
     \<lambda>s. let inner = \<lparr>cs_acc = acc, chainstore = s, best_chain = best, subscribers = [], ibd = HeadersSync,
                 consensus = chain_params_from (e_lib E) (e_net E) network,
                 assume_valid = get_assume_valid (e_lib E) network arg\<rparr>
         in case check_chain_integrity E inner of
              (Inl e, cs) \<Rightarrow> (Inl e, chainstore cs)
            | (Inr _, cs) \<Rightarrow> (Inr cs, chainstore cs))))))))"

definition chain_state_new ::
  "('s, 'acc, 'prf) state_env \<Rightarrow> network \<Rightarrow> assume_valid_arg \<Rightarrow> ('s, blockchain_error, ('s, 'acc) chain_state) stm" where
  "chain_state_new E network arg s =
     (let cp = chain_params_from (e_lib E) (e_net E) network;
          gen = genesis_block (e_net E) network;
          gen_hash = block_hash (e_lib E) (blk_header gen)
      in case st_save_header (e_store E) (FullyValid (blk_header gen) 0) s of
           (Inl _, s) \<Rightarrow> (Inl (Panicked ''Error while saving genesis''), s)
         | (Inr _, s) \<Rightarrow>
            (case st_update_block_index (e_store E) 0 gen_hash s of
               (Inl _, s) \<Rightarrow> (Inl (Panicked ''Error updating index''), s)
             | (Inr _, s) \<Rightarrow>
                 (Inr \<lparr>cs_acc = stump_new (e_stump E), chainstore = s,
                    best_chain = \<lparr>best_block = gen_hash, depth = 0, validation_index = gen_hash, alternative_tips = []\<rparr>,
                    subscribers = [], ibd = HeadersSync, consensus = cp,
                    assume_valid = get_assume_valid (e_lib E) network arg\<rparr>, s)))"

definition chain_state_open ::
  "('s, 'acc, 'prf) state_env \<Rightarrow> network \<Rightarrow> assume_valid_arg \<Rightarrow> ('s, blockchain_error, ('s, 'acc) chain_state) stm" where
  "chain_state_open E network arg =
     bindS (\<lambda>s. case st_load_height (e_store E) s of (r, s) \<Rightarrow> (map_err Database r, s)) (\<lambda>r.
     if r \<noteq> None then load_chain_state E network arg else chain_state_new E network arg)"

subsection \<open>The builder\<close>

datatype blockchain_builder_error =
    MissingChainstore
  | MissingChainParams
  | IncompleteTip
  | BuilderDatabase flat_chainstore_error

record ('s, 'acc) chain_state_builder =
  b_acc :: "'acc option"
  b_chainstore :: "'s option"
  b_ibd :: ibd_state
  b_chain_params :: "chain_params option"
  b_assume_valid :: "hash option"
  b_tip :: "(hash \<times> u32) option"
  b_tip_header :: "header option"

definition builder_new :: "('s, 'acc) chain_state_builder" where
  "builder_new = \<lparr>b_acc = None, b_chainstore = None, b_ibd = HeadersSync, b_chain_params = None,
     b_assume_valid = None, b_tip = None, b_tip_header = None\<rparr>"

definition with_chainstore :: "'s \<Rightarrow> ('s, 'acc) chain_state_builder \<Rightarrow> ('s, 'acc) chain_state_builder" where
  "with_chainstore s b = b\<lparr>b_chainstore := Some s\<rparr>"

definition select_ibd :: "ibd_state \<Rightarrow> ('s, 'acc) chain_state_builder \<Rightarrow> ('s, 'acc) chain_state_builder" where
  "select_ibd phase b = b\<lparr>b_ibd := phase\<rparr>"

definition with_chain_params :: "chain_params \<Rightarrow> ('s, 'acc) chain_state_builder \<Rightarrow> ('s, 'acc) chain_state_builder" where
  "with_chain_params cp b = b\<lparr>b_chain_params := Some cp\<rparr>"

definition with_assume_valid ::
  "bitcoin_api \<Rightarrow> assume_valid_arg \<Rightarrow> network \<Rightarrow> ('s, 'acc) chain_state_builder \<Rightarrow> ('s, 'acc) chain_state_builder" where
  "with_assume_valid L arg network b = b\<lparr>b_assume_valid := get_assume_valid L network arg\<rparr>"

definition assume_utreexo :: "'acc \<Rightarrow> ('s, 'acc) chain_state_builder \<Rightarrow> ('s, 'acc) chain_state_builder" where
  "assume_utreexo acc b = b\<lparr>b_acc := Some acc\<rparr>"

definition with_tip ::
  "hash \<times> u32 \<Rightarrow> header \<Rightarrow> ('s, 'acc) chain_state_builder \<Rightarrow> ('s, 'acc) chain_state_builder" where
  "with_tip tip hdr b = b\<lparr>b_tip := Some tip, b_tip_header := Some hdr\<rparr>"

definition builder_best_block ::
  "bitcoin_api \<Rightarrow> ('s, 'acc) chain_state_builder \<Rightarrow> blockchain_builder_error + best_chain" where
  "builder_best_block L b =
     bindE (ok_or MissingChainParams (b_chain_params b)) (\<lambda>cp.
     let genesis_hash = block_hash L (blk_header (genesis cp));
         (best, dep) = (case b_tip b of Some v \<Rightarrow> v | None \<Rightarrow> (genesis_hash, 0))
     in Inr \<lparr>best_block = best, depth = dep, validation_index = genesis_hash, alternative_tips = []\<rparr>)"

definition chain_state_try_from ::
  "('s, 'acc, 'prf) state_env \<Rightarrow> ('s, 'acc) chain_state_builder \<Rightarrow> blockchain_builder_error + ('s, 'acc) chain_state" where
  "chain_state_try_from E b =
     bindE (ok_or MissingChainstore (b_chainstore b)) (\<lambda>s.
     bindE (builder_best_block (e_lib E) b) (\<lambda>best.
     bindE (ok_or MissingChainParams (b_chain_params b)) (\<lambda>cp.
     Inr \<lparr>cs_acc = (case b_acc b of Some acc \<Rightarrow> acc | None \<Rightarrow> stump_new (e_stump E)), chainstore = s,
          best_chain = best, subscribers = [], ibd = b_ibd b, consensus = cp, assume_valid = b_assume_valid b\<rparr>)))"

definition builder_build ::
  "('s, 'acc, 'prf) state_env \<Rightarrow> ('s, 'acc) chain_state_builder \<Rightarrow> blockchain_builder_error + ('s, 'acc) chain_state" where
  "builder_build E b =
     bindE (ok_or MissingChainstore (b_chainstore b)) (\<lambda>s.
     case (b_tip_header b, b_tip b) of
       (Some first_header, Some (bhash, height)) \<Rightarrow>
         (case bindS (st_save_header (e_store E) (FullyValid first_header height))
                 (\<lambda>_. st_update_block_index (e_store E) height bhash) s of
            (Inl e, _) \<Rightarrow> Inl (BuilderDatabase e)
          | (Inr _, s) \<Rightarrow> chain_state_try_from E (b\<lparr>b_chainstore := Some s\<rparr>))
     | (None, None) \<Rightarrow> chain_state_try_from E b
     | _ \<Rightarrow> Inl IncompleteTip)"

section \<open>The flat store behind the trait\<close>

text \<open>\<^verbatim>\<open>impl ChainStore for FlatChainStore\<close>. The order in which a hash set is visited, the outcome of the
  calls that write the files to disk and their lengths come from outside.\<close>

definition flat_ops ::
  "bitcoin_api \<Rightarrow> 'c lru_api \<Rightarrow> (hash list \<Rightarrow> hash list) \<Rightarrow> sync_io \<Rightarrow> u64 \<Rightarrow> u64 option list \<Rightarrow>
   'c flat_chain_store chain_store_ops" where
  "flat_ops L X visit io header_size lens = \<lparr>
     st_save_roots = flat_save_roots_for_block X,
     st_load_roots = (\<lambda>k s. (flat_load_roots_for_block k s, s)),
     st_load_height = (\<lambda>s. (flat_load_height visit s, s)),
     st_save_height = (\<lambda>bc s. (Inr (), do_save_height bc s)),
     st_get_header = flat_get_header X,
     st_get_header_by_height = (\<lambda>k s. (flat_get_header_by_height k s, s)),
     st_save_header = flat_save_header L X,
     st_get_block_hash = (\<lambda>k s. (flat_get_block_hash k s, s)),
     st_flush = do_flush X io,
     st_update_block_index = flat_update_block_index,
     st_check_integrity = (\<lambda>s. (check_integrity X s, s)),
     st_get_warnings = (\<lambda>s. (Inr (pending_warnings s), s)),
     st_size_on_disk = (\<lambda>s. (Inr (flat_size_on_disk header_size lens s), s))\<rparr>"

end
