(* ===== verification/Chain_Frames.thy ===== *)
theory Chain_Frames
  imports Chain_State
begin

text \<open>
  What the operations of the chain state change outside the store, whatever the store is. Most of them
  touch the store only; the exceptions set the tip, the validation index, the accumulator and the
  alternative tips, and the frame lemmas say which.
\<close>

section \<open>Operations that touch the store only\<close>

definition same_control :: "('s, 'acc) chain_state \<Rightarrow> ('s, 'acc) chain_state \<Rightarrow> bool" where
  "same_control cs0 cs \<longleftrightarrow> cs\<lparr>chainstore := chainstore cs0\<rparr> = cs0"

definition store_only :: "('s, 'acc, 'a) chain_op \<Rightarrow> bool" where
  "store_only m \<longleftrightarrow> (\<forall>cs0. hoare (same_control cs0) m (\<lambda>_. same_control cs0) (\<lambda>_. same_control cs0))"

lemma same_control_refl [simp]: "same_control cs cs"
  by (simp add: same_control_def)

lemma same_controlE:
  assumes "same_control cs0 cs"
  obtains s where "cs = cs0\<lparr>chainstore := s\<rparr>"
proof
  show "cs = cs0\<lparr>chainstore := chainstore cs\<rparr>"
    using assms by (metis (no_types, lifting) chain_state.surjective chain_state.update_convs(2) same_control_def)
qed

lemma same_control_store [simp]: "same_control cs0 (cs0\<lparr>chainstore := s\<rparr>)"
  by (simp add: same_control_def)

lemma same_control_simps:
  assumes "same_control cs0 cs"
  shows "cs_acc cs = cs_acc cs0" "best_chain cs = best_chain cs0" "subscribers cs = subscribers cs0"
    "ibd cs = ibd cs0" "consensus cs = consensus cs0" "assume_valid cs = assume_valid cs0"
  using assms by (auto elim: same_controlE)

named_theorems frames

lemma store_onlyD:
  assumes "store_only m" and "m cs = (r, cs')"
  shows "same_control cs cs'"
proof -
  have "hoare (same_control cs) m (\<lambda>_. same_control cs) (\<lambda>_. same_control cs)"
    using assms(1) by (simp add: store_only_def)
  from hoareD [OF this same_control_refl] assms(2) show ?thesis by (cases r) auto
qed

lemma store_only_on_store [frames]: "store_only (on_store m)"
  unfolding store_only_def
proof (intro allI hoareI)
  fix cs0 cs :: "('a, 'b) chain_state" and r t
  show "same_control cs0 t" if "same_control cs0 cs" "on_store m cs = (Inr r, t)"
    using that by (auto simp: on_store_def same_control_def split: prod.splits)
next
  fix cs0 cs :: "('a, 'b) chain_state" and e t
  show "same_control cs0 t" if "same_control cs0 cs" "on_store m cs = (Inl e, t)"
    using that by (auto simp: on_store_def same_control_def split: prod.splits)
qed

lemma store_only_bind [frames]: "store_only m \<Longrightarrow> (\<And>a. store_only (f a)) \<Longrightarrow> store_only (bindS m f)"
  unfolding store_only_def by (blast intro: hoare_bind)

lemma store_only_basic [frames]:
  "store_only (ret a)" "store_only (fail e)" "store_only (lift r)" "store_only (gets g)"
  unfolding store_only_def by (auto intro!: hoare_rules)

lemma store_only_attempt [frames]:
  fixes m :: "('s, 'acc, 'a) chain_op"
  shows "store_only m \<Longrightarrow> store_only (attempt m :: ('s, 'acc, blockchain_error + 'a) chain_op)"
  unfolding store_only_def by (auto intro!: hoare_attempt)

lemma store_only_for_each [frames]: "(\<And>x. store_only (body x)) \<Longrightarrow> store_only (for_each xs body)"
  unfolding store_only_def by (blast intro: hoare_for_each)

lemma store_only_queries [frames]:
  "store_only get_best_block" "store_only (get_disk_block_header E h)" "store_only (get_block_header E h)"
  "store_only (get_block_height E h)" "store_only (get_block_hash E k)" "store_only (get_header_by_height E k)"
  "store_only (is_genesis E hdr)" "store_only (get_ancestor E hdr)" "store_only get_height"
  "store_only (update_header E d)" "store_only (update_header_and_index E d h k)" "store_only is_in_ibd"
  unfolding get_best_block_def get_disk_block_header_def get_block_header_def get_block_height_def get_block_hash_def
    get_header_by_height_def is_genesis_def get_ancestor_def update_header_def update_header_and_index_def get_height_def
    is_in_ibd_def
  by (auto intro!: frames split: option.splits)

lemma store_only_validation_index [frames]: "store_only (get_validation_index E)"
  unfolding get_validation_index_def by (auto intro!: frames split: disk_block_header.splits)

lemma store_only_collect [frames]:
  "(\<And>h. store_only (prev h)) \<Longrightarrow> store_only (collect_timestampsS n prev h ts)"
  by (induction n arbitrary: h ts) (auto simp: Let_def intro!: frames)

lemma store_only_mtp [frames]:
  "store_only (median_time_past E hdr)" "store_only (previous_median_time_past E hdr)"
  unfolding median_time_past_def previous_median_time_past_def median_time_past_withS_def
  by (auto intro!: frames)

lemma store_only_branch_work [frames]: "store_only (get_branch_work E hdr)"
proof -
  have "store_only (branch_work_loop E k ks acc)" for k ks acc
    by (induction ks arbitrary: acc) (auto simp: Let_def intro!: frames)
  then show ?thesis unfolding get_branch_work_def by (intro frames)
qed

lemma store_only_work [frames]: "store_only (get_work E h)" "store_only (get_fork_work E hdr h)"
proof -
  show w: "store_only (get_work E h)" unfolding get_work_def by (intro frames)
  have "store_only (fork_work_loop n E fp hd acc)" for n fp hd acc
    by (induction n arbitrary: hd acc) (auto simp: Let_def intro!: frames)
  then show "store_only (get_fork_work E hdr h)" using w
    unfolding get_fork_work_def get_work_def by (intro frames)
qed

lemma store_only_branches [frames]:
  "store_only (check_branch E hdr)" "store_only (get_chain_depth E hdr)" "store_only (find_fork_point E hdr)"
  "store_only (get_last_valid_block E hdr)"
proof -
  have "store_only (check_branch_loop n E h)" for n h
    by (induction n arbitrary: h) (auto intro!: frames split: disk_block_header.splits)
  then show "store_only (check_branch E hdr)" by (simp add: check_branch_def)
  have "store_only (chain_depth_loop n E h c)" for n h c
    by (induction n arbitrary: h c) (auto intro!: frames)
  then show "store_only (get_chain_depth E hdr)" by (simp add: get_chain_depth_def)
  have "store_only (fork_point_loop n E h)" for n h
    by (induction n arbitrary: h) (auto intro!: frames split: disk_block_header.splits option.splits)
  then show "store_only (find_fork_point E hdr)" unfolding find_fork_point_def by (intro frames)
  have "store_only (last_valid_loop n E h)" for n h
    by (induction n arbitrary: h) (auto intro!: frames split: disk_block_header.splits)
  then show "store_only (get_last_valid_block E hdr)" by (simp add: get_last_valid_block_def)
qed

lemma store_only_marks [frames]:
  "store_only (mark_chain_as_active E hdr h)" "store_only (mark_chain_as_inactive E hdr h)"
proof -
  have "store_only (mark_active_loop n E fp d k)" for n fp d k
    by (induction n arbitrary: d k) (auto simp: Let_def intro!: frames)
  then show "store_only (mark_chain_as_active E hdr h)" unfolding mark_chain_as_active_def by (intro frames)
  have "store_only (mark_inactive_loop n E fp d k)" for n fp d k
    by (induction n arbitrary: d k) (auto simp: Let_def intro!: frames)
  then show "store_only (mark_chain_as_inactive E hdr h)" unfolding mark_chain_as_inactive_def by (intro frames)
qed

lemma store_only_roots [frames]:
  "store_only (get_roots_for_block E k)" "store_only (reorg_acc E h)" "store_only (flush E)"
proof -
  show r: "store_only (get_roots_for_block E k)" for k
    unfolding get_roots_for_block_def by (auto intro!: frames split: option.splits)
  show "store_only (reorg_acc E h)" unfolding reorg_acc_def by (auto intro!: frames r)
  show "store_only (flush E)" unfolding flush_def by (intro frames)
qed

lemma store_only_validate_header [frames]: "store_only (validate_header E hdr)"
proof -
  have anc: "store_only (ancestor_loop n E h)" for n h
    by (induction n arbitrary: h) (auto intro!: frames)
  have min: "store_only (min_difficulty_loop n E b h k)" for n b h k
    by (induction n arbitrary: h k) (auto intro!: frames)
  have "store_only (get_next_required_work E a k b)" for a k b
    unfolding get_next_required_work_def get_ancestor_at_height_def Let_def by (auto intro!: frames anc min)
  moreover have "store_only (check_bip94_block E a k)" for a k
    unfolding check_bip94_block_def by (auto intro!: frames)
  ultimately show ?thesis unfolding validate_header_def Let_def by (intro frames)
qed

lemma store_only_validate_block [frames]:
  "store_only (verify_script E k)" "store_only (validate_block_no_acc E b k inputs)" "store_only (connect_height E d)"
proof -
  show v: "store_only (verify_script E k)" for k
    unfolding verify_script_def by (auto intro!: frames split: option.splits disk_block_header.splits)
  show "store_only (validate_block_no_acc E b k inputs)"
    unfolding validate_block_no_acc_def Let_def by (auto intro!: frames v)
  show "store_only (connect_height E d)"
    unfolding connect_height_def by (auto intro!: frames split: disk_block_header.splits)
qed

end
