(* ===== verification/Chain_Effects.thy ===== *)
theory Chain_Effects
  imports Chain_Frames
begin

text \<open>
  What the operations of the chain state that do not only write to the store change outside it: the rules to
  reason about such code, whatever the store does, and the effect of keeping a branch that is not the
  best one.
\<close>

section \<open>Sequencing\<close>

lemma hoare_store_only:
  assumes m: "store_only m"
    and f: "\<And>a. hoare (same_control cs0) (f a) Q R"
    and R: "\<And>e cs. same_control cs0 cs \<Longrightarrow> R e cs"
  shows "hoare (same_control cs0) (bindS m f) Q R"
proof (rule hoare_bind)
  show "hoare (same_control cs0) m (\<lambda>_. same_control cs0) R"
    using m R unfolding store_only_def by (blast intro: hoare_weaken)
qed (rule f)

lemma same_control_iff:
  "same_control cs0 cs \<longleftrightarrow> cs_acc cs = cs_acc cs0 \<and> best_chain cs = best_chain cs0 \<and> subscribers cs = subscribers cs0
     \<and> ibd cs = ibd cs0 \<and> consensus cs = consensus cs0 \<and> assume_valid cs = assume_valid cs0"
  by (cases cs; cases cs0) (auto simp: same_control_def)

section \<open>Alternative tips\<close>

definition alt_tip_pushed :: "('s, 'acc) chain_state \<Rightarrow> ('s, 'acc) chain_state \<Rightarrow> bool" where
  "alt_tip_pushed cs0 cs \<longleftrightarrow>
     best_chain cs = (best_chain cs0)\<lparr>alternative_tips := alternative_tips (best_chain cs)\<rparr>
   \<and> cs_acc cs = cs_acc cs0 \<and> subscribers cs = subscribers cs0 \<and> ibd cs = ibd cs0 \<and> consensus cs = consensus cs0
   \<and> assume_valid cs = assume_valid cs0"

lemma same_control_alt_tip: "same_control cs0 cs \<Longrightarrow> alt_tip_pushed cs0 cs"
  by (auto simp: alt_tip_pushed_def same_control_iff)

lemma hoare_alt_tip:
  assumes "store_only m"
  shows "hoare (alt_tip_pushed cs0) m (\<lambda>_. alt_tip_pushed cs0) (\<lambda>_. alt_tip_pushed cs0)"
proof -
  have "alt_tip_pushed cs0 cs'" if "alt_tip_pushed cs0 cs" "m cs = (r, cs')" for cs cs' r
    using store_onlyD [OF assms that(2)] that(1) by (simp add: alt_tip_pushed_def same_control_iff)
  then show ?thesis by (blast intro: hoareI)
qed

lemma push_alt_tip_effect:
  "hoare (same_control cs0) (push_alt_tip E hdr) (\<lambda>_. alt_tip_pushed cs0) (\<lambda>_. alt_tip_pushed cs0)"
proof -
  have push: "hoare (same_control cs0) (update (\<lambda>cs. cs\<lparr>best_chain := (best_chain cs)\<lparr>alternative_tips := f cs\<rparr>\<rparr>))
      (\<lambda>_. alt_tip_pushed cs0) (\<lambda>_. alt_tip_pushed cs0)" for f
    by (rule hoare_update) (auto simp: alt_tip_pushed_def same_control_iff)
  have err: "hoare (same_control cs0) (fail e) (\<lambda>_. alt_tip_pushed cs0) (\<lambda>_. alt_tip_pushed cs0)" for e
    by (rule hoare_fail) (rule same_control_alt_tip)
  show ?thesis
    unfolding push_alt_tip_def Let_def
    by (rule hoare_store_only)
      (auto intro!: frames push err same_control_alt_tip split: sum.split blockchain_error.split)
qed

text \<open>Storing a branch that is not better.\<close>

lemma keep_branch_effect:
  "hoare (same_control cs0)
     (bindS (push_alt_tip E hdr) (\<lambda>_. bindS (get_ancestor E hdr) (\<lambda>d. bindS (lift (try_height d)) (\<lambda>k.
        update_header E (InFork hdr (k + 1))))))
     (\<lambda>_. alt_tip_pushed cs0) (\<lambda>_. alt_tip_pushed cs0)"
  by (rule hoare_bind [OF push_alt_tip_effect]) (intro hoare_alt_tip frames)

end
