(* ===== verification/Chain_Queries.thy ===== *)
theory Chain_Queries
  imports Chain_Effects
begin

text \<open>
  The chain state as its store's client. A store is seen through four views, the map from block hashes to
  headers, the two height indexes and the accumulators, and the laws of the locale say that reading returns them and leaves
  them alone. Under these laws every read-only operation of the chain state is a function of the views,
  given here as the specification of each query. The flat store satisfies the laws.
\<close>

section \<open>Specification\<close>

text \<open>\<open>yields I m x\<close>: from any state of \<open>I\<close> the operation returns \<open>a\<close> when \<open>x\<close> is \<open>Some a\<close> and an error when it is
  \<open>None\<close>, and ends in a state of \<open>I\<close>.\<close>

definition yields :: "('s \<Rightarrow> bool) \<Rightarrow> ('s, 'e, 'a) stm \<Rightarrow> 'a option \<Rightarrow> bool" where
  "yields I m x \<longleftrightarrow> (\<forall>s. I s \<longrightarrow> (\<exists>t. I t \<and> (case x of Some a \<Rightarrow> m s = (Inr a, t) | None \<Rightarrow> \<exists>e. m s = (Inl e, t))))"

definition ok :: "'e + 'a \<Rightarrow> 'a option" where
  "ok r = (case r of Inr a \<Rightarrow> Some a | Inl _ \<Rightarrow> None)"

record store_view =
  v_headers :: "hash \<rightharpoonup> disk_block_header"
  v_hash_at :: "u32 \<rightharpoonup> hash"
  v_header_at :: "u32 \<rightharpoonup> disk_block_header"
  v_roots :: "u32 \<rightharpoonup> bytes option"

definition parent_of :: "store_view \<Rightarrow> header \<Rightarrow> header option" where
  "parent_of v hdr = map_option header_of (v_headers v (prev_blockhash hdr))"

fun walk_back :: "store_view \<Rightarrow> nat \<Rightarrow> header \<Rightarrow> header option" where
  "walk_back v 0 hdr = Some hdr"
| "walk_back v (Suc n) hdr = Option.bind (parent_of v hdr) (walk_back v n)"

text \<open>The first ancestor that was not mined at minimum difficulty, or the one at a retarget height.\<close>

fun skip_min_difficulty :: "nat \<Rightarrow> store_view \<Rightarrow> u32 \<Rightarrow> header \<Rightarrow> u32 \<Rightarrow> header option" where
  "skip_min_difficulty 0 v bits hdr height = None"
| "skip_min_difficulty (Suc n) v bits hdr height =
     (if height mod 2016 \<noteq> 0 \<and> hdr_bits hdr = bits
      then Option.bind (parent_of v hdr) (\<lambda>p. skip_min_difficulty n v bits p (height - 1))
      else Some hdr)"

definition epoch_start :: "bitcoin_api \<Rightarrow> store_view \<Rightarrow> header \<Rightarrow> u32 \<Rightarrow> header option" where
  "epoch_start L v prev next_height =
     (if v_hash_at v (next_height - 1) = Some (block_hash L prev)
      then map_option header_of (v_header_at v (next_height - 2016))
      else walk_back v (unat (next_height - 1) - unat (next_height - 2016)) prev)"

definition required_target :: "bitcoin_api \<Rightarrow> pow_api \<Rightarrow> chain_params \<Rightarrow> store_view \<Rightarrow> header \<Rightarrow> u32 \<Rightarrow> u32 \<Rightarrow> target option" where
  "required_target L P cp v prev next_height time =
     (let ps = cp_params cp in
      if next_height mod 2016 = 0 then
        if no_pow_retargeting ps then Some (header_target P prev)
        else map_option (\<lambda>first. min (calc_next_work_required P prev first cp) (max_attainable_target ps))
               (epoch_start L v prev next_height)
      else if \<not> allow_min_difficulty_blocks ps then Some (header_target P prev)
      else if ucast (hdr_time prev) + pow_target_spacing ps * 2 < (ucast time :: u64) then Some (max_attainable_target ps)
      else map_option (header_target P)
             (skip_min_difficulty 2016 v (target_to_compact_lossy P (max_attainable_target ps)) prev (next_height - 1)))"

definition bip94_due :: "chain_params \<Rightarrow> u32 \<Rightarrow> bool" where
  "bip94_due cp k \<longleftrightarrow> enforce_bip94 cp \<and> k mod miner_confirmation_window (cp_params cp) = 0"

text \<open>A header that the node takes: known parent with a height, proof of work, the required target in its
  compact form, the BIP94 rule where it is enforced, and a version the activated BIPs allow.\<close>

definition header_valid :: "bitcoin_api \<Rightarrow> pow_api \<Rightarrow> chain_params \<Rightarrow> store_view \<Rightarrow> header \<Rightarrow> bool" where
  "header_valid L P cp v hdr \<longleftrightarrow>
     ok (validate_pow P hdr (header_target P hdr)) \<noteq> None
   \<and> (case v_headers v (prev_blockhash hdr) of
        None \<Rightarrow> False
      | Some prev \<Rightarrow>
         (case disk_height prev of
            None \<Rightarrow> False
          | Some k \<Rightarrow>
              map_option (target_to_compact_lossy P) (required_target L P cp v (header_of prev) (k + 1) (hdr_time hdr))
                = Some (hdr_bits hdr)
            \<and> (bip94_due cp (k + 1) \<longrightarrow> check_bip94_time hdr (header_of prev) = Inr ())
            \<and> min_header_version (cp_params cp) (k + 1) \<le> sint (hdr_version hdr)))"

text \<open>The lock-time cutoff of a block: the median time of its parent where BIP68 is active.\<close>

definition block_cutoff :: "chain_params \<Rightarrow> store_view \<Rightarrow> block \<Rightarrow> u32 \<Rightarrow> lock_time_cutoff option" where
  "block_cutoff cp v b height =
     (if csv_activation_height cp \<le> height
      then map_option Mtp (Option.bind (parent_of v (blk_header b)) (\<lambda>p.
        ok (median_time_past_with (\<lambda>h. ok_or BlockNotPresent (parent_of v h)) p)))
      else Some (HeaderTime (hdr_time (blk_header b))))"

text \<open>Scripts are skipped only up to the assume-valid block, and only while it is on the best chain.\<close>

definition scripts_verified :: "store_view \<Rightarrow> hash option \<Rightarrow> u32 \<Rightarrow> bool" where
  "scripts_verified v av height =
     (case av of
        None \<Rightarrow> True
      | Some h \<Rightarrow> (case v_headers v h of
          Some (HeadersOnly _ a) \<Rightarrow> a < height | Some (FullyValid _ a) \<Rightarrow> a < height | _ \<Rightarrow> True))"

definition block_valid ::
  "('s, 'acc, 'prf) state_env \<Rightarrow> chain_params \<Rightarrow> store_view \<Rightarrow> hash option \<Rightarrow> block \<Rightarrow> u32 \<Rightarrow> utxo_map \<Rightarrow> bool" where
  "block_valid E cp v av b height inputs \<longleftrightarrow>
     ok (check_block (e_lib E) cp b height) \<noteq> None
   \<and> (case block_cutoff cp v b height of
        None \<Rightarrow> False
      | Some cutoff \<Rightarrow>
          ok (verify_block_transactions (e_lib E) (e_scripts E) height cutoff inputs (txdata b)
            (get_subsidy (e_lib E) (e_net E) cp height) (scripts_verified v av height) (block_flags E cp height b)) \<noteq> None)"

section \<open>Reading rules\<close>

lemma map_as_bind: "map_option f x = Option.bind x (\<lambda>a. Some (f a))"
  by (cases x) simp_all

lemma bind_parent: "Option.bind (parent_of v hdr) f = Option.bind (v_headers v (prev_blockhash hdr)) (\<lambda>d. f (header_of d))"
  by (cases "v_headers v (prev_blockhash hdr)") (simp_all add: parent_of_def)

named_theorems yield_rules

lemma ok_simps [simp]: "ok (Inr a) = Some a" "ok (Inl e) = None" "ok (ok_or e x) = x" "ok (map_err f r) = ok r"
  by (simp_all add: ok_def ok_or_def map_err_def split: option.splits sum.splits)

lemma ok_bind: "ok (bindE r f) = Option.bind (ok r) (\<lambda>a. ok (f a))"
  by (cases r) simp_all

lemma yields_ret [yield_rules]: "yields I (ret a) (Some a)"
  by (simp add: yields_def ret_def)

lemma yields_fail [yield_rules]: "yields I (fail e) None"
  by (simp add: yields_def fail_def)

lemma yields_lift [yield_rules]: "yields I (lift r) (ok r)"
  by (cases r) (simp_all add: yields_def lift_def)

lemma yields_lifts:
  "yields I (lift (map_err f r)) (ok r)" "yields I (lift (ok_or e x)) x"
  "yields I (lift (reject_if c e)) (if c then None else Some ())"
  using yields_lift [of I "map_err f r"] yields_lift [of I "ok_or e x"] yields_lift [of I "reject_if c e"]
  by (simp_all add: reject_if_def split: if_splits)

lemma yields_gets: "(\<And>s. I s \<Longrightarrow> f s = c) \<Longrightarrow> yields I (gets f) (Some c)"
  by (simp add: yields_def gets_def)

lemma yieldsE:
  assumes "yields I m x" and "I s"
  obtains t where "I t" and "case x of Some a \<Rightarrow> m s = (Inr a, t) | None \<Rightarrow> \<exists>e. m s = (Inl e, t)"
  using assms by (auto simp: yields_def)

lemma yields_SomeD: "yields I m (Some a) \<Longrightarrow> I s \<Longrightarrow> \<exists>t. m s = (Inr a, t) \<and> I t"
  by (auto simp: yields_def)

lemma yields_NoneD: "yields I m None \<Longrightarrow> I s \<Longrightarrow> \<exists>e t. m s = (Inl e, t) \<and> I t"
  by (fastforce simp: yields_def)

lemma yields_InrD: "yields I m x \<Longrightarrow> I s \<Longrightarrow> m s = (Inr a, t) \<Longrightarrow> x = Some a \<and> I t"
  by (fastforce simp: yields_def split: option.splits)

lemma yields_InlD: "yields I m x \<Longrightarrow> I s \<Longrightarrow> m s = (Inl e, t) \<Longrightarrow> x = None \<and> I t"
  by (fastforce simp: yields_def split: option.splits)

lemma yields_bind [yield_rules]:
  assumes m: "yields I m x" and f: "\<And>a. x = Some a \<Longrightarrow> yields I (f a) (g a)"
  shows "yields I (bindS m f) (Option.bind x g)"
  unfolding yields_def
proof (intro allI impI)
  fix s assume "I s"
  show "\<exists>t. I t \<and> (case Option.bind x g of Some a \<Rightarrow> bindS m f s = (Inr a, t) | None \<Rightarrow> \<exists>e. bindS m f s = (Inl e, t))"
  proof (cases x)
    case None
    then obtain e t where "m s = (Inl e, t)" "I t" using m \<open>I s\<close> by (auto dest: yields_NoneD)
    with None show ?thesis by (auto simp: bindS_err)
  next
    case (Some a)
    then obtain t where t: "m s = (Inr a, t)" "I t" using m \<open>I s\<close> by (auto dest: yields_SomeD)
    from f [OF Some] this(2) obtain u where "I u"
      "case g a of Some b \<Rightarrow> f a t = (Inr b, u) | None \<Rightarrow> \<exists>e. f a t = (Inl e, u)" by (rule yieldsE)
    moreover have "bindS m f s = f a t" using t(1) by (rule bindS_ok)
    ultimately show ?thesis using Some by (intro exI [of _ u]) (simp split: option.splits)
  qed
qed

lemma yields_then: "yields I m (Some a) \<Longrightarrow> yields I (f a) x \<Longrightarrow> yields I (bindS m f) x"
  using yields_bind [of I m "Some a" f "\<lambda>_. x"] by simp

lemma yields_collect:
  assumes "\<And>h. yields I (prev h) (ok (pure_prev h))"
  shows "yields I (collect_timestampsS n prev h ts) (ok (collect_timestamps n pure_prev h ts))"
proof (induction n arbitrary: h ts)
  case (Suc n)
  show ?case by (auto simp: Let_def ok_bind intro!: yields_bind assms Suc yields_ret)
qed (simp add: yields_ret)

lemma yields_mtp:
  assumes "\<And>h. yields I (prev h) (ok (pure_prev h))"
  shows "yields I (median_time_past_withS prev h) (ok (median_time_past_with pure_prev h))"
  unfolding median_time_past_withS_def median_time_past_with_def ok_bind ok_simps
  by (intro yields_bind yields_collect assms yields_ret)

lemma yields_attempt:
  assumes m: "yields I m x" and f: "\<And>a. yields I (f (Inr a)) (g (Some a))" "\<And>e. yields I (f (Inl e)) (g None)"
  shows "yields I (bindS (attempt m) f) (g x)"
  unfolding yields_def
proof (intro allI impI)
  fix s assume "I s"
  then obtain t where t: "I t" "case x of Some a \<Rightarrow> m s = (Inr a, t) | None \<Rightarrow> \<exists>e. m s = (Inl e, t)"
    using m by (auto elim: yieldsE)
  then obtain r where r: "m s = (r, t)" "ok r = x" by (cases x) (auto simp: ok_def)
  have "yields I (f r) (g x)" using f r(2) by (cases r) auto
  moreover have "bindS (attempt m) f s = f r t" using r(1) by (simp add: bindS_def attempt_run)
  ultimately show "\<exists>t. I t \<and> (case g x of Some a \<Rightarrow> bindS (attempt m) f s = (Inr a, t) | None \<Rightarrow> \<exists>e. bindS (attempt m) f s = (Inl e, t))"
    using t(1) by (cases "g x") (auto simp: yields_def)
qed

section \<open>The interface of a store\<close>

definition snapshot ::
  "('s \<Rightarrow> bool) \<Rightarrow> ('s \<Rightarrow> store_view) \<Rightarrow> ('s, 'acc) chain_state \<Rightarrow> ('s, 'acc) chain_state \<Rightarrow> bool" where
  "snapshot sinv view cs0 cs \<longleftrightarrow> sinv (chainstore cs) \<and> view (chainstore cs) = view (chainstore cs0) \<and> same_control cs0 cs"

locale header_store =
  fixes E :: "('s, 'acc, 'prf) state_env" and sinv :: "'s \<Rightarrow> bool" and view :: "'s \<Rightarrow> store_view"
  assumes get_header_law: "sinv s \<Longrightarrow>
      \<exists>t. st_get_header (e_store E) h s = (Inr (v_headers (view s) h), t) \<and> sinv t \<and> view t = view s"
    and get_block_hash_law: "sinv s \<Longrightarrow>
      \<exists>r. st_get_block_hash (e_store E) k s = (r, s) \<and> v_hash_at (view s) k = Option.bind (ok r) id"
    and get_header_by_height_law: "sinv s \<Longrightarrow>
      \<exists>r. st_get_header_by_height (e_store E) k s = (r, s) \<and> v_header_at (view s) k = Option.bind (ok r) id"
    and load_roots_law: "sinv s \<Longrightarrow> \<exists>r. st_load_roots (e_store E) k s = (r, s) \<and> v_roots (view s) k = ok r"
begin

lemma read_header:
  "yields (snapshot sinv view cs0) (get_disk_block_header E h) (v_headers (view (chainstore cs0)) h)"
  unfolding yields_def
proof (intro allI impI)
  fix cs assume I: "snapshot sinv view cs0 cs"
  then obtain t where t: "st_get_header (e_store E) h (chainstore cs) = (Inr (v_headers (view (chainstore cs0)) h), t)"
    "sinv t" "view t = view (chainstore cs0)"
    using get_header_law [of "chainstore cs" h] by (auto simp: snapshot_def)
  have "snapshot sinv view cs0 (cs\<lparr>chainstore := t\<rparr>)"
    using I t by (simp add: snapshot_def same_control_iff)
  moreover have "get_disk_block_header E h cs = (ok_or BlockNotPresent (v_headers (view (chainstore cs0)) h), cs\<lparr>chainstore := t\<rparr>)"
    by (simp add: get_disk_block_header_def bindS_def on_store_def t lift_def)
  ultimately show "\<exists>t. snapshot sinv view cs0 t \<and> (case v_headers (view (chainstore cs0)) h of
      Some a \<Rightarrow> get_disk_block_header E h cs = (Inr a, t) | None \<Rightarrow> \<exists>e. get_disk_block_header E h cs = (Inl e, t))"
    by (auto simp: ok_or_def split: option.splits)
qed

lemma read_hash: "yields (snapshot sinv view cs0) (get_block_hash E k) (v_hash_at (view (chainstore cs0)) k)"
  unfolding yields_def
proof (intro allI impI)
  fix cs assume I: "snapshot sinv view cs0 cs"
  then obtain r where r: "st_get_block_hash (e_store E) k (chainstore cs) = (r, chainstore cs)"
    "v_hash_at (view (chainstore cs0)) k = Option.bind (ok r) id"
    using get_block_hash_law [of "chainstore cs" k] by (auto simp: snapshot_def)
  then show "\<exists>t. snapshot sinv view cs0 t \<and> (case v_hash_at (view (chainstore cs0)) k of
      Some a \<Rightarrow> get_block_hash E k cs = (Inr a, t) | None \<Rightarrow> \<exists>e. get_block_hash E k cs = (Inl e, t))"
    using I by (intro exI [of _ cs])
      (auto simp: get_block_hash_def bindS_def on_store_def lift_def ok_or_def map_err_def ok_def split: sum.splits option.splits)
qed

lemma read_header_at:
  "yields (snapshot sinv view cs0) (get_header_by_height E k) (v_header_at (view (chainstore cs0)) k)"
  unfolding yields_def
proof (intro allI impI)
  fix cs assume I: "snapshot sinv view cs0 cs"
  then obtain r where r: "st_get_header_by_height (e_store E) k (chainstore cs) = (r, chainstore cs)"
    "v_header_at (view (chainstore cs0)) k = Option.bind (ok r) id"
    using get_header_by_height_law [of "chainstore cs" k] by (auto simp: snapshot_def)
  then show "\<exists>t. snapshot sinv view cs0 t \<and> (case v_header_at (view (chainstore cs0)) k of
      Some a \<Rightarrow> get_header_by_height E k cs = (Inr a, t) | None \<Rightarrow> \<exists>e. get_header_by_height E k cs = (Inl e, t))"
    using I by (intro exI [of _ cs])
      (auto simp: get_header_by_height_def bindS_def on_store_def lift_def ok_or_def map_err_def ok_def split: sum.splits option.splits)
qed

lemma read_block_header:
  "yields (snapshot sinv view cs0) (get_block_header E h) (map_option header_of (v_headers (view (chainstore cs0)) h))"
proof -
  have get: "get_block_header E h = bindS (get_disk_block_header E h) (\<lambda>d. ret (header_of d))"
    by (auto simp: fun_eq_iff get_block_header_def get_disk_block_header_def bindS_def ret_def lift_def fail_def ok_or_def
        split: prod.splits sum.splits option.splits)
  show ?thesis unfolding get map_as_bind by (intro yields_bind read_header yields_ret)
qed

lemma read_control:
  assumes "\<And>cs. same_control cs0 cs \<Longrightarrow> f cs = f cs0"
  shows "yields (snapshot sinv view cs0) (gets f) (Some (f cs0))"
  by (rule yields_gets, rule assms) (simp add: snapshot_def)

lemma read_ancestors:
  "yields (snapshot sinv view cs0) (ancestor_loop n E hdr) (walk_back (view (chainstore cs0)) n hdr)"
proof (induction n arbitrary: hdr)
  case (Suc n)
  show ?case unfolding ancestor_loop.simps walk_back.simps bind_parent
    by (intro yields_bind read_header Suc)
qed (simp add: yields_ret)

lemma read_min_difficulty:
  "yields (snapshot sinv view cs0) (min_difficulty_loop n E bits hdr k)
     (skip_min_difficulty n (view (chainstore cs0)) bits hdr k)"
proof (induction n arbitrary: bits hdr k)
  case (Suc n)
  show ?case unfolding min_difficulty_loop.simps skip_min_difficulty.simps bind_parent
    by (auto intro!: yields_bind read_header yields_ret Suc)
qed (simp add: yields_fail)

lemma read_ancestor_at_height:
  "yields (snapshot sinv view cs0) (get_ancestor_at_height E hdr (k - 1) (k - 2016))
     (epoch_start (e_lib E) (view (chainstore cs0)) hdr k)"
proof -
  let ?v = "view (chainstore cs0)"
  have on_chain: "yields (snapshot sinv view cs0) (bindS (get_header_by_height E (k - 2016)) (\<lambda>d. ret (header_of d)))
      (map_option header_of (v_header_at ?v (k - 2016)))"
    unfolding map_as_bind by (intro yields_bind read_header_at yields_ret)
  show ?thesis
    unfolding get_ancestor_at_height_def epoch_start_def
    by (rule yields_attempt [where g = "\<lambda>x. if x = Some (block_hash (e_lib E) hdr)
        then map_option header_of (v_header_at ?v (k - 2016))
        else walk_back ?v (unat (k - 1) - unat (k - 2016)) hdr", OF read_hash])
      (simp_all add: on_chain read_ancestors)
qed

lemma read_required_target:
  "yields (snapshot sinv view cs0) (get_next_required_work E prev k hdr)
     (required_target (e_lib E) (e_pow E) (consensus cs0) (view (chainstore cs0)) prev k (hdr_time hdr))"
proof -
  have min: "(if t < m then t else m) = min t m" for t m :: target by (auto simp: min_def)
  have params: "yields (snapshot sinv view cs0) (gets consensus) (Some (consensus cs0))"
    by (rule read_control) (simp add: same_control_iff)
  show ?thesis
    unfolding get_next_required_work_def required_target_def Let_def map_as_bind min
    by (rule yields_then [OF params])
      (auto intro!: yields_bind read_ancestor_at_height read_min_difficulty yield_rules)
qed

lemma read_validate_header:
  "yields (snapshot sinv view cs0) (validate_header E hdr)
     (if header_valid (e_lib E) (e_pow E) (consensus cs0) (view (chainstore cs0)) hdr
      then ok (validate_pow (e_pow E) hdr (header_target (e_pow E) hdr)) else None)"
proof -
  let ?v = "view (chainstore cs0)" and ?P = "e_pow E" and ?cp = "consensus cs0" and ?I = "snapshot sinv view cs0"
  let ?bip94 = "\<lambda>k. if bip94_due ?cp k then Option.bind (v_headers ?v (prev_blockhash hdr)) (\<lambda>d. ok (check_bip94_time hdr (header_of d))) else Some ()"
  have params: "yields ?I (gets consensus) (Some ?cp)"
    by (rule read_control) (simp add: same_control_iff)
  have version: "yields ?I (gets (\<lambda>cs. min_header_version (cp_params (consensus cs)) k)) (Some (min_header_version (cp_params ?cp) k))"
    for k by (rule read_control) (simp add: same_control_iff)
  have bip94: "yields ?I (check_bip94_block E hdr k) (?bip94 k)" for k
    unfolding check_bip94_block_def
    by (rule yields_then [OF params]) (auto simp: bip94_due_def intro!: yields_bind [OF read_header] yields_lifts yields_ret)
  have "yields ?I (validate_header E hdr)
    (Option.bind (ok (validate_pow ?P hdr (header_target ?P hdr))) (\<lambda>bhash.
     Option.bind (v_headers ?v (prev_blockhash hdr)) (\<lambda>prev.
     Option.bind (disk_height prev) (\<lambda>k.
     Option.bind (required_target (e_lib E) ?P ?cp ?v (header_of prev) (k + 1) (hdr_time hdr)) (\<lambda>t.
     Option.bind (if hdr_bits hdr \<noteq> target_to_compact_lossy ?P t then None else Some ()) (\<lambda>_.
     Option.bind (?bip94 (k + 1)) (\<lambda>_.
     Option.bind (Some (min_header_version (cp_params ?cp) (k + 1))) (\<lambda>m.
     Option.bind (if sint (hdr_version hdr) < m then None else Some ()) (\<lambda>_. Some bhash)))))))))"
    unfolding validate_header_def Let_def
    by (intro yields_bind read_header read_required_target bip94 version yields_ret yields_lifts)
  moreover have "ok (check_bip94_time a b) = Some u \<longleftrightarrow> check_bip94_time a b = Inr ()" for a b u
    by (cases "check_bip94_time a b") simp_all
  ultimately show ?thesis
    by (auto simp: header_valid_def not_less split: option.splits if_splits bind_splits)
qed

lemma read_validation_index:
  "yields (snapshot sinv view cs0) (get_validation_index E)
     (case v_headers (view (chainstore cs0)) (validation_index (best_chain cs0)) of
        Some (FullyValid _ k) \<Rightarrow> Some k | _ \<Rightarrow> None)"
proof -
  let ?I = "snapshot sinv view cs0" and ?f = "\<lambda>d. case d of FullyValid _ k \<Rightarrow> Some k | _ \<Rightarrow> None"
  have best: "yields ?I (gets (\<lambda>cs. validation_index (best_chain cs))) (Some (validation_index (best_chain cs0)))"
    by (rule read_control) (simp add: same_control_iff)
  have "yields ?I (get_validation_index E) (Option.bind (v_headers (view (chainstore cs0)) (validation_index (best_chain cs0))) ?f)"
    unfolding get_validation_index_def
    by (rule yields_then [OF best], rule yields_bind [OF read_header])
      (auto intro!: yields_ret yields_fail split: disk_block_header.splits)
  then show ?thesis by (simp split: option.splits bind_splits)
qed

lemma read_verify_script:
  "yields (snapshot sinv view cs0) (verify_script E k)
     (Some (scripts_verified (view (chainstore cs0)) (assume_valid cs0) k))"
proof -
  let ?I = "snapshot sinv view cs0" and ?v = "view (chainstore cs0)"
  have av: "yields ?I (gets assume_valid) (Some (assume_valid cs0))"
    by (rule read_control) (simp add: same_control_iff)
  have raw: "yields ?I (on_store (st_get_header (e_store E) h)) (Some (v_headers ?v h))" for h
    unfolding yields_def
  proof (intro allI impI)
    fix cs assume I: "?I cs"
    then obtain t where t: "st_get_header (e_store E) h (chainstore cs) = (Inr (v_headers ?v h), t)" "sinv t" "view t = ?v"
      using get_header_law [of "chainstore cs" h] by (auto simp: snapshot_def)
    with I have "?I (cs\<lparr>chainstore := t\<rparr>)" by (simp add: snapshot_def same_control_iff)
    then show "\<exists>u. ?I u \<and> (case Some (v_headers ?v h) of Some a \<Rightarrow> on_store (st_get_header (e_store E) h) cs = (Inr a, u)
        | None \<Rightarrow> \<exists>e. on_store (st_get_header (e_store E) h) cs = (Inl e, u))"
      using t by (auto simp: on_store_def)
  qed
  show ?thesis
    unfolding verify_script_def scripts_verified_def
    by (rule yields_then [OF av])
      (auto intro!: yields_ret yields_then [OF raw] split: option.splits disk_block_header.splits)
qed

lemma read_parent_mtp:
  "yields (snapshot sinv view cs0) (previous_median_time_past E hdr)
     (Option.bind (parent_of (view (chainstore cs0)) hdr) (\<lambda>p.
        ok (median_time_past_with (\<lambda>h. ok_or BlockNotPresent (parent_of (view (chainstore cs0)) h)) p)))"
proof -
  let ?v = "view (chainstore cs0)" and ?I = "snapshot sinv view cs0"
  have prev: "yields ?I (bindS (get_disk_block_header E (prev_blockhash h)) (\<lambda>d. ret (header_of d)))
      (ok (ok_or BlockNotPresent (parent_of ?v h) :: blockchain_error + header))" for h
    unfolding ok_simps parent_of_def map_as_bind by (intro yields_bind read_header yields_ret)
  show ?thesis
    unfolding previous_median_time_past_def bind_parent median_time_past_def
    by (intro yields_bind read_header yields_mtp prev)
qed

lemma read_cutoff:
  "yields (snapshot sinv view cs0)
     (bindS (attempt (if csv_activation_height cp \<le> k then previous_median_time_past E (blk_header b) else ret 0))
       (\<lambda>mtp. lift (block_lock_time_cutoff cp k (blk_header b) (\<lambda>_. mtp))))
     (block_cutoff cp (view (chainstore cs0)) b k)"
proof (cases "csv_activation_height cp \<le> k")
  case True
  have cut: "yields (snapshot sinv view cs0) (lift (block_lock_time_cutoff cp k (blk_header b) (\<lambda>_. r))) (map_option Mtp (ok r))" for r
    using True yields_lift [of _ "block_lock_time_cutoff cp k (blk_header b) (\<lambda>_. r)"]
    by (cases r) (simp_all add: block_lock_time_cutoff_def)
  show ?thesis unfolding block_cutoff_def if_P [OF True]
    by (rule yields_attempt [OF read_parent_mtp]) (use cut [of "Inr _"] cut [of "Inl _"] in simp_all)
next
  case False
  have cut: "yields (snapshot sinv view cs0) (lift (block_lock_time_cutoff cp k (blk_header b) (\<lambda>_. r)))
      (Some (HeaderTime (hdr_time (blk_header b))))" for r
    using False yields_lift [of _ "block_lock_time_cutoff cp k (blk_header b) (\<lambda>_. r)"]
    by (simp add: block_lock_time_cutoff_def)
  show ?thesis unfolding block_cutoff_def if_not_P [OF False]
    by (rule yields_attempt [OF yields_ret]) (rule cut)+
qed

lemma read_validate_block:
  "yields (snapshot sinv view cs0) (validate_block_no_acc E b k inputs)
     (if block_valid E (consensus cs0) (view (chainstore cs0)) (assume_valid cs0) b k inputs then Some () else None)"
proof -
  let ?cp = "consensus cs0" and ?v = "view (chainstore cs0)" and ?I = "snapshot sinv view cs0"
  have params: "yields ?I (gets consensus) (Some ?cp)"
    by (rule read_control) (simp add: same_control_iff)
  have "validate_block_no_acc E b k inputs =
    bindS (gets consensus) (\<lambda>cp. bindS (lift (check_block (e_lib E) cp b k)) (\<lambda>_.
    bindS (bindS (attempt (if csv_activation_height cp \<le> k then previous_median_time_past E (blk_header b) else ret 0))
       (\<lambda>mtp. lift (block_lock_time_cutoff cp k (blk_header b) (\<lambda>_. mtp)))) (\<lambda>cutoff.
    bindS (verify_script E k) (\<lambda>verify.
    bindS (lift (verify_block_transactions (e_lib E) (e_scripts E) k cutoff inputs (txdata b)
       (get_subsidy (e_lib E) (e_net E) cp k) verify (block_flags E cp k b))) (\<lambda>_. ret ())))))"
    unfolding validate_block_no_acc_def Let_def bindS_assoc ..
  moreover have "yields ?I \<dots> (Option.bind (ok (check_block (e_lib E) ?cp b k)) (\<lambda>_.
    Option.bind (block_cutoff ?cp ?v b k) (\<lambda>cutoff.
    Option.bind (ok (verify_block_transactions (e_lib E) (e_scripts E) k cutoff inputs (txdata b)
       (get_subsidy (e_lib E) (e_net E) ?cp k) (scripts_verified ?v (assume_valid cs0) k) (block_flags E ?cp k b))) (\<lambda>_. Some ()))))"
    by (rule yields_then [OF params])
      (intro yields_bind yields_lift read_cutoff yields_then [OF read_verify_script] yields_ret)
  ultimately show ?thesis by (auto simp: block_valid_def split: option.splits bind_splits)
qed

end

section \<open>The flat store\<close>

definition flat_view :: "'c flat_chain_store \<Rightarrow> store_view" where
  "flat_view s = \<lparr>v_headers = lookup s, v_hash_at = (\<lambda>k. Option.bind (ok (flat_get_block_hash k s)) id),
     v_header_at = (\<lambda>k. Option.bind (ok (flat_get_header_by_height k s)) id), v_roots = (\<lambda>k. ok (flat_load_roots_for_block k s))\<rparr>"

text \<open>The environment's store is a flat store, and the store is in order.\<close>

definition flat_ready ::
  "('c flat_chain_store, 'acc, 'prf) state_env \<Rightarrow> 'c lru_api \<Rightarrow> hash \<Rightarrow> 'c flat_chain_store \<Rightarrow> bool" where
  "flat_ready E X g0 s \<longleftrightarrow> flat_inv (e_lib E) X g0 s
     \<and> (\<exists>visit io header_size lens. e_store E = flat_ops (e_lib E) X visit io header_size lens)"

lemma flat_view_read:
  assumes "flat_get_header X h s = (r, t)" and "lookup t = lookup s"
  shows "flat_view t = flat_view s"
  using flat_get_header_files [OF assms(1)] assms(2)
  by (simp add: flat_view_def flat_get_block_hash_def flat_get_header_by_height_def flat_load_roots_for_block_def Let_def cong: if_cong)

interpretation flat: header_store E "flat_ready E X g0" flat_view
  for E :: "('c flat_chain_store, 'acc, 'prf) state_env" and X :: "'c lru_api" and g0
proof
  fix s :: "'c flat_chain_store" and h and k :: u32
  assume ready: "flat_ready E X g0 s"
  then obtain visit io header_size lens where E: "e_store E = flat_ops (e_lib E) X visit io header_size lens"
    and s: "flat_inv (e_lib E) X g0 s" by (auto simp: flat_ready_def)
  from flat_get_header_ok [OF s, of h] obtain t where t: "flat_get_header X h s = (Inr (lookup s h), t)"
    "flat_inv (e_lib E) X g0 t" "lookup t = lookup s" by blast
  then show "\<exists>t. st_get_header (e_store E) h s = (Inr (v_headers (flat_view s) h), t) \<and> flat_ready E X g0 t
      \<and> flat_view t = flat_view s"
    using flat_view_read [OF t(1,3)] by (intro exI [of _ t]) (auto simp: E flat_ops_def flat_view_def flat_ready_def)
  show "\<exists>r. st_get_block_hash (e_store E) k s = (r, s) \<and> v_hash_at (flat_view s) k = Option.bind (ok r) id"
    by (simp add: E flat_ops_def flat_view_def)
  show "\<exists>r. st_get_header_by_height (e_store E) k s = (r, s) \<and> v_header_at (flat_view s) k = Option.bind (ok r) id"
    by (simp add: E flat_ops_def flat_view_def)
  show "\<exists>r. st_load_roots (e_store E) k s = (r, s) \<and> v_roots (flat_view s) k = ok r"
    by (simp add: E flat_ops_def flat_view_def)
qed

end
