(* ===== verification/Chain_Headers.thy ===== *)
theory Chain_Headers
  imports Chain_Queries Supply
begin

text \<open>
  The chain of headers: which headers \<^verbatim>\<open>accept_header\<close> takes, when the tip moves, and that a valid header
  on top of the tip is taken and found again, proved against the interface of a store with room for it
  and used on the flat store.
\<close>

section \<open>A store with room\<close>

text \<open>\<open>sinv\<close> includes that there is room for the block \<open>h0\<close> at the height \<open>k0\<close>; \<open>good\<close> is what holds after it was
  saved and indexed.\<close>

locale growing_store = header_store +
  fixes good :: "'a \<Rightarrow> bool" and k0 :: u32 and h0 :: hash
  assumes append_law:
    "sinv s \<Longrightarrow> on_best_chain d \<Longrightarrow> disk_height d = Some k0 \<Longrightarrow> disk_block_hash (e_lib E) d = h0 \<Longrightarrow>
     \<exists>s1 s2. st_save_header (e_store E) d s = (Inr (), s1) \<and> st_update_block_index (e_store E) k0 h0 s1 = (Inr (), s2)
       \<and> good s2 \<and> view s2 = (view s)\<lparr>v_headers := (v_headers (view s))(h0 \<mapsto> d),
           v_hash_at := (v_hash_at (view s))(k0 \<mapsto> h0), v_header_at := (v_header_at (view s))(k0 \<mapsto> d),
           v_roots := (v_roots (view s))(k0 \<mapsto> None)\<rparr>"
begin

lemma append_header:
  assumes "sinv (chainstore cs)" and "on_best_chain d" and "disk_height d = Some k0" and "disk_block_hash (e_lib E) d = h0"
  shows "\<exists>s. update_header_and_index E d h0 k0 cs = (Inr (), cs\<lparr>chainstore := s\<rparr>) \<and> good s
    \<and> view s = (view (chainstore cs))\<lparr>v_headers := (v_headers (view (chainstore cs)))(h0 \<mapsto> d),
        v_hash_at := (v_hash_at (view (chainstore cs)))(k0 \<mapsto> h0), v_header_at := (v_header_at (view (chainstore cs)))(k0 \<mapsto> d),
        v_roots := (v_roots (view (chainstore cs)))(k0 \<mapsto> None)\<rparr>"
proof -
  from append_law [OF assms] obtain s1 s2 where run: "st_save_header (e_store E) d (chainstore cs) = (Inr (), s1)"
    "st_update_block_index (e_store E) k0 h0 s1 = (Inr (), s2)" and "good s2"
    and "view s2 = (view (chainstore cs))\<lparr>v_headers := (v_headers (view (chainstore cs)))(h0 \<mapsto> d),
        v_hash_at := (v_hash_at (view (chainstore cs)))(k0 \<mapsto> h0), v_header_at := (v_header_at (view (chainstore cs)))(k0 \<mapsto> d),
        v_roots := (v_roots (view (chainstore cs)))(k0 \<mapsto> None)\<rparr>"
    by blast
  moreover have "update_header_and_index E d h0 k0 cs = (Inr (), cs\<lparr>chainstore := s2\<rparr>)"
    using run by (simp add: update_header_and_index_def bindS_def on_store_def map_err_def)
  ultimately show ?thesis by blast
qed

lemma header_extends_tip:
  assumes inv: "sinv (chainstore cs)" and new: "v_headers (view (chainstore cs)) (block_hash (e_lib E) hdr) = None"
    and valid: "header_valid (e_lib E) (e_pow E) (consensus cs) (view (chainstore cs)) hdr"
    and pow: "validate_pow (e_pow E) hdr (header_target (e_pow E) hdr) = Inr (block_hash (e_lib E) hdr)"
    and tip: "prev_blockhash hdr = best_block (best_chain cs)"
    and here: "k0 = depth (best_chain cs) + 1" "h0 = block_hash (e_lib E) hdr"
  shows "\<exists>cs'. accept_header E hdr cs = (Inr (), cs') \<and> good (chainstore cs')
    \<and> same_control (cs\<lparr>best_chain := (best_chain cs)\<lparr>best_block := h0, depth := k0\<rparr>\<rparr>) cs'
    \<and> view (chainstore cs') = (view (chainstore cs))\<lparr>v_headers := (v_headers (view (chainstore cs)))(h0 \<mapsto> HeadersOnly hdr k0),
        v_hash_at := (v_hash_at (view (chainstore cs)))(k0 \<mapsto> h0),
        v_header_at := (v_header_at (view (chainstore cs)))(k0 \<mapsto> HeadersOnly hdr k0),
        v_roots := (v_roots (view (chainstore cs)))(k0 \<mapsto> None)\<rparr>"
proof -
  let ?I = "snapshot sinv view cs"
  have "?I cs" using inv by (simp add: snapshot_def)
  then obtain e cs1 where cs1: "get_disk_block_header E (block_hash (e_lib E) hdr) cs = (Inl e, cs1)" "?I cs1"
    using read_header [of cs "block_hash (e_lib E) hdr"] new by (auto dest: yields_NoneD)
  have e: "e = BlockNotPresent"
    using cs1(1) get_header_law [OF inv, of "block_hash (e_lib E) hdr"] new
    by (auto simp: get_disk_block_header_def bindS_def on_store_def lift_def ok_or_def map_err_def)
  obtain cs2 where cs2: "validate_header E hdr cs1 = (Inr h0, cs2)" "?I cs2"
    using read_validate_header [of cs hdr] valid pow here(2) cs1(2) by (auto dest: yields_SomeD)
  let ?cs = "cs2\<lparr>best_chain := new_block h0 k0 (best_chain cs2)\<rparr>"
  have ctl: "best_chain cs1 = best_chain cs" "best_chain cs2 = best_chain cs"
    using cs1(2) cs2(2) by (simp_all add: snapshot_def same_control_iff)
  have "accept_header E hdr cs = update_header_and_index E (HeadersOnly hdr k0) h0 k0 ?cs"
    using cs1(1) cs2(1) e tip here(1) ctl
    by (simp add: accept_header_def bindS_def attempt_run get_best_block_def gets_run update_run Let_def)
  moreover have "sinv (chainstore ?cs)" "view (chainstore ?cs) = view (chainstore cs)"
    using cs2(2) by (simp_all add: snapshot_def)
  moreover obtain s where "update_header_and_index E (HeadersOnly hdr k0) h0 k0 ?cs = (Inr (), ?cs\<lparr>chainstore := s\<rparr>)"
    "good s" "view s = (view (chainstore ?cs))\<lparr>v_headers := (v_headers (view (chainstore ?cs)))(h0 \<mapsto> HeadersOnly hdr k0),
        v_hash_at := (v_hash_at (view (chainstore ?cs)))(k0 \<mapsto> h0),
        v_header_at := (v_header_at (view (chainstore ?cs)))(k0 \<mapsto> HeadersOnly hdr k0),
        v_roots := (v_roots (view (chainstore ?cs)))(k0 \<mapsto> None)\<rparr>"
    using append_header [of ?cs "HeadersOnly hdr k0"] calculation(2) here(2) by (auto simp: disk_block_hash_def)
  moreover have "same_control (cs\<lparr>best_chain := (best_chain cs)\<lparr>best_block := h0, depth := k0\<rparr>\<rparr>) (?cs\<lparr>chainstore := s\<rparr>)"
    using cs2(2) ctl by (simp add: snapshot_def same_control_iff new_block_def)
  ultimately show ?thesis by auto
qed

end

section \<open>Room in the flat store\<close>

definition flat_room :: "'c flat_chain_store \<Rightarrow> u32 \<Rightarrow> hash \<Rightarrow> bool" where
  "flat_room s k h \<longleftrightarrow> k \<noteq> 0 \<and> unat k < 2 ^ 31 \<and> unat k < length (hdr_file s) \<and> has_room s \<and> vacant s k h"

lemma flat_view_heights:
  assumes "flat_inv L X g0 s"
  shows "v_hash_at (flat_view s) k = (if unat k < 2 ^ 31 \<and> unat k < length (hdr_file s) \<and> hd_hash (hdr_file s ! unat k) \<noteq> all_zeros
      then Some (hd_hash (hdr_file s ! unat k)) else None)"
    and "v_header_at (flat_view s) k = (if unat k < 2 ^ 31 \<and> unat k < length (hdr_file s) \<and> hd_hash (hdr_file s ! unat k) \<noteq> all_zeros
      then Some (hd_header (hdr_file s ! unat k)) else None)"
    and "v_roots (flat_view s) k = (if unat k < 2 ^ 31 \<and> unat k < length (hdr_file s) \<and> hd_hash (hdr_file s ! unat k) \<noteq> all_zeros
      then let n = unat (acc_len (hdr_file s ! unat k)); p = unat (acc_pos (hdr_file s ! unat k)) in
        if n = 0 then Some None
        else if length (accumulator_file s) < p + n then None else Some (Some (take n (drop p (accumulator_file s))))
      else None)"
proof -
  have len: "length (hdr_file s) = unat (headers_file_size (meta s))"
    using assms by (simp add: flat_inv_def store_inv_def store_ok_def)
  have get: "get_disk_header s k = (if unat k < length (hdr_file s) then
      (if hd_hash (hdr_file s ! unat k) = all_zeros then Inl HeaderNotFound else Inr (hdr_file s ! unat k)) else Inl FullIndex)"
    if "unat k < 2 ^ 31"
    using index_main [OF that] by (simp add: get_disk_header_def Let_def len ucast_less_iff flip: not_less)
  have new: "index_new k = (if unat k < 2 ^ 31 then Inr k else Inl OversizedIndex)"
    by (simp add: index_new_def FORK_BIT_def word_le_nat_alt)
  show "v_hash_at (flat_view s) k = (if unat k < 2 ^ 31 \<and> unat k < length (hdr_file s) \<and> hd_hash (hdr_file s ! unat k) \<noteq> all_zeros
      then Some (hd_hash (hdr_file s ! unat k)) else None)"
    by (auto simp: flat_view_def flat_get_block_hash_def new get)
  show "v_header_at (flat_view s) k = (if unat k < 2 ^ 31 \<and> unat k < length (hdr_file s) \<and> hd_hash (hdr_file s ! unat k) \<noteq> all_zeros
      then Some (hd_header (hdr_file s ! unat k)) else None)"
    by (auto simp: flat_view_def flat_get_header_by_height_def new get)
  show "v_roots (flat_view s) k = (if unat k < 2 ^ 31 \<and> unat k < length (hdr_file s) \<and> hd_hash (hdr_file s ! unat k) \<noteq> all_zeros
      then let n = unat (acc_len (hdr_file s ! unat k)); p = unat (acc_pos (hdr_file s ! unat k)) in
        if n = 0 then Some None
        else if length (accumulator_file s) < p + n then None else Some (Some (take n (drop p (accumulator_file s))))
      else None)"
    by (auto simp: flat_view_def flat_load_roots_for_block_def new get Let_def)
qed

lemma flat_connect_accumulators:
  assumes "flat_save_header L X d s = (Inr (), s1)" and "on_best_chain d" and "flat_update_block_index k h s1 = (Inr (), s2)"
  shows "accumulator_file s2 = accumulator_file s"
proof -
  have "write_header_to_storage L d (s\<lparr>lru_cache := c\<rparr>) = (Inr (), s1) \<Longrightarrow> accumulator_file s1 = accumulator_file s" for c
    by (auto simp: write_header_to_storage_def get_disk_header_mut_def bindE_def Let_def split: option.splits sum.splits if_splits)
  then have "accumulator_file s1 = accumulator_file s"
    using assms(1,2) by (cases d) (auto simp: flat_save_header_def Let_def split: prod.splits if_splits)
  moreover have "accumulator_file s2 = accumulator_file s1"
    using assms(3) by (auto simp: flat_update_block_index_def add_index_entry_def Let_def split: sum.splits prod.splits if_splits)
  ultimately show ?thesis by simp
qed

lemma flat_room_read:
  assumes inv: "flat_inv L X g0 s" and run: "flat_get_header X h s = (r, t)" and room: "flat_room s k g"
  shows "flat_room t k g"
proof -
  have "lookup t = lookup s" "live t = live s" using flat_get_header_ok [OF inv, of h] run by auto
  then show ?thesis
    using flat_get_header_files [OF run] room by (simp add: flat_room_def has_room_def vacant_def)
qed

lemma flat_append:
  assumes inv: "flat_inv L X g0 s" and room: "flat_room s k (disk_block_hash L d)"
    and d: "storable L g0 d" "on_best_chain d" "disk_height d = Some k"
  shows "\<exists>s1 s2. flat_save_header L X d s = (Inr (), s1)
    \<and> flat_update_block_index k (disk_block_hash L d) s1 = (Inr (), s2) \<and> flat_inv L X g0 s2
    \<and> flat_view s2 = (flat_view s)\<lparr>v_headers := (lookup s)(disk_block_hash L d \<mapsto> d),
        v_hash_at := (v_hash_at (flat_view s))(k \<mapsto> disk_block_hash L d), v_header_at := (v_header_at (flat_view s))(k \<mapsto> d),
        v_roots := (v_roots (flat_view s))(k \<mapsto> None)\<rparr>"
proof -
  let ?h = "disk_block_hash L d"
  have k: "k \<noteq> 0" "unat k < 2 ^ 31" "unat k < length (hdr_file s)" "has_room s" "vacant s k ?h"
    using room by (simp_all add: flat_room_def)
  from flat_connect_succeeds [OF inv d k(1,3,2,4)] obtain s1 s2 where
    run: "flat_save_header L X d s = (Inr (), s1)" "flat_update_block_index k ?h s1 = (Inr (), s2)" by blast
  note res = flat_connect_ok [OF inv d k(1,5) run]
  have "v_headers (flat_view s2) = (lookup s)(?h \<mapsto> d)" using recordedD [OF res(2)] by (simp add: flat_view_def)
  moreover have "v_hash_at (flat_view s2) = (v_hash_at (flat_view s))(k \<mapsto> ?h)"
    "v_header_at (flat_view s2) = (v_header_at (flat_view s))(k \<mapsto> d)"
    "v_roots (flat_view s2) = (v_roots (flat_view s))(k \<mapsto> None)"
    using d(1) k(2,3) flat_connect_accumulators [OF run(1) d(2) run(2)]
    by (auto simp: fun_eq_iff flat_view_heights [OF inv] flat_view_heights [OF res(1)] res(3)
        nth_list_update word_unat_eq_iff storable_def entry_for_def Let_def)
  ultimately have "flat_view s2 = (flat_view s)\<lparr>v_headers := (lookup s)(?h \<mapsto> d),
      v_hash_at := (v_hash_at (flat_view s))(k \<mapsto> ?h), v_header_at := (v_header_at (flat_view s))(k \<mapsto> d),
      v_roots := (v_roots (flat_view s))(k \<mapsto> None)\<rparr>"
    by (cases "flat_view s2"; cases "flat_view s") simp
  with run res(1) show ?thesis by blast
qed

interpretation flat_grow: growing_store E
    "\<lambda>s. flat_ready E X g0 s \<and> flat_room s k h \<and> h \<noteq> g0 \<and> h \<noteq> all_zeros" flat_view "flat_ready E X g0" k h
  for E :: "('c flat_chain_store, 'acc, 'prf) state_env" and X :: "'c lru_api" and g0 k h
proof
  fix s :: "'c flat_chain_store" and g j d
  assume s: "flat_ready E X g0 s \<and> flat_room s k h \<and> h \<noteq> g0 \<and> h \<noteq> all_zeros"
  then obtain visit io header_size lens where E: "e_store E = flat_ops (e_lib E) X visit io header_size lens"
    and inv: "flat_inv (e_lib E) X g0 s" by (auto simp: flat_ready_def)
  from flat.get_header_law [of E X g0 s g] s obtain t where
    t: "st_get_header (e_store E) g s = (Inr (v_headers (flat_view s) g), t)" "flat_ready E X g0 t" "flat_view t = flat_view s"
    by blast
  moreover have "flat_room t k h"
    using flat_room_read [OF inv, of g _ t k h] t(1) s by (simp add: E flat_ops_def)
  ultimately show "\<exists>t. st_get_header (e_store E) g s = (Inr (v_headers (flat_view s) g), t)
      \<and> (flat_ready E X g0 t \<and> flat_room t k h \<and> h \<noteq> g0 \<and> h \<noteq> all_zeros) \<and> flat_view t = flat_view s"
    using s by blast
  show "\<exists>r. st_get_block_hash (e_store E) j s = (r, s) \<and> v_hash_at (flat_view s) j = Option.bind (ok r) id"
    "\<exists>r. st_get_header_by_height (e_store E) j s = (r, s) \<and> v_header_at (flat_view s) j = Option.bind (ok r) id"
    "\<exists>r. st_load_roots (e_store E) j s = (r, s) \<and> v_roots (flat_view s) j = ok r"
    using flat.get_block_hash_law flat.get_header_by_height_law flat.load_roots_law s by blast+
  assume d: "on_best_chain d" "disk_height d = Some k" "disk_block_hash (e_lib E) d = h"
  have sto: "storable (e_lib E) g0 d" using s d(3) by (simp add: storable_def)
  from flat_append [OF inv _ sto d(1,2)] s d(3) show
    "\<exists>s1 s2. st_save_header (e_store E) d s = (Inr (), s1) \<and> st_update_block_index (e_store E) k h s1 = (Inr (), s2)
       \<and> flat_ready E X g0 s2 \<and> flat_view s2 = (flat_view s)\<lparr>v_headers := (v_headers (flat_view s))(h \<mapsto> d),
           v_hash_at := (v_hash_at (flat_view s))(k \<mapsto> h), v_header_at := (v_header_at (flat_view s))(k \<mapsto> d),
           v_roots := (v_roots (flat_view s))(k \<mapsto> None)\<rparr>"
    by (auto simp: E flat_ops_def flat_ready_def flat_view_def)
qed

section \<open>Refused headers\<close>

context header_store
begin

lemma unknown_header:
  assumes inv: "sinv (chainstore cs)" and new: "v_headers (view (chainstore cs)) (block_hash (e_lib E) hdr) = None"
  shows "\<exists>cs1. snapshot sinv view cs cs1 \<and> accept_header E hdr cs =
     bindS (validate_header E hdr) (\<lambda>bhash.
       if prev_blockhash hdr = best_block (best_chain cs) then
         bindS (update (\<lambda>cs. cs\<lparr>best_chain := new_block bhash (depth (best_chain cs) + 1) (best_chain cs)\<rparr>)) (\<lambda>_.
           update_header_and_index E (HeadersOnly hdr (depth (best_chain cs) + 1)) bhash (depth (best_chain cs) + 1))
       else maybe_reorg E hdr) cs1"
proof -
  from get_header_law [OF inv, of "block_hash (e_lib E) hdr"] new obtain t where
    t: "st_get_header (e_store E) (block_hash (e_lib E) hdr) (chainstore cs) = (Inr None, t)" "sinv t" "view t = view (chainstore cs)"
    by auto
  have "snapshot sinv view cs (cs\<lparr>chainstore := t\<rparr>)" using t by (simp add: snapshot_def)
  moreover have "accept_header E hdr cs =
     bindS (validate_header E hdr) (\<lambda>bhash.
       if prev_blockhash hdr = best_block (best_chain cs) then
         bindS (update (\<lambda>cs. cs\<lparr>best_chain := new_block bhash (depth (best_chain cs) + 1) (best_chain cs)\<rparr>)) (\<lambda>_.
           update_header_and_index E (HeadersOnly hdr (depth (best_chain cs) + 1)) bhash (depth (best_chain cs) + 1))
       else maybe_reorg E hdr) (cs\<lparr>chainstore := t\<rparr>)"
  proof -
    have same: "best_chain u = best_chain cs" if "validate_header E hdr (cs\<lparr>chainstore := t\<rparr>) = (Inr b, u)" for b u
      using store_onlyD [OF store_only_validate_header that] by (simp add: same_control_iff)
    have "accept_header E hdr cs = bindS get_best_block (\<lambda>(best_height, best_hash). bindS (validate_header E hdr) (\<lambda>bhash.
         if prev_blockhash hdr = best_hash then
           let height = best_height + 1 in
           bindS (update (\<lambda>cs. cs\<lparr>best_chain := new_block bhash height (best_chain cs)\<rparr>)) (\<lambda>_.
           update_header_and_index E (HeadersOnly hdr height) bhash height)
         else maybe_reorg E hdr)) (cs\<lparr>chainstore := t\<rparr>)"
      using t(1) by (simp add: accept_header_def bindS_def [of "attempt _"] attempt_run get_disk_block_header_def
          bindS_def [of "on_store _"] on_store_def map_err_def lift_run ok_or_def)
    then show ?thesis
      by (auto simp: bindS_def get_best_block_def gets_run update_run Let_def same split: prod.splits sum.splits)
  qed
  ultimately show ?thesis by blast
qed

lemma invalid_header_refused:
  assumes inv: "sinv (chainstore cs)" and new: "v_headers (view (chainstore cs)) (block_hash (e_lib E) hdr) = None"
    and bad: "\<not> header_valid (e_lib E) (e_pow E) (consensus cs) (view (chainstore cs)) hdr"
  shows "\<exists>e cs'. accept_header E hdr cs = (Inl e, cs') \<and> snapshot sinv view cs cs'"
proof -
  obtain cs1 where cs1: "snapshot sinv view cs cs1" and run: "accept_header E hdr cs =
     bindS (validate_header E hdr) (\<lambda>bhash.
       if prev_blockhash hdr = best_block (best_chain cs) then
         bindS (update (\<lambda>cs. cs\<lparr>best_chain := new_block bhash (depth (best_chain cs) + 1) (best_chain cs)\<rparr>)) (\<lambda>_.
           update_header_and_index E (HeadersOnly hdr (depth (best_chain cs) + 1)) bhash (depth (best_chain cs) + 1))
       else maybe_reorg E hdr) cs1"
    using unknown_header [OF inv new] by blast
  obtain e cs2 where "validate_header E hdr cs1 = (Inl e, cs2)" "snapshot sinv view cs cs2"
    using read_validate_header [of cs hdr] bad cs1 by (auto dest: yields_NoneD)
  then show ?thesis using run by (simp add: bindS_err)
qed

end

section \<open>An example\<close>

text \<open>A chain that has only its genesis block, on the flat store of the examples, with proof of work that every
  header meets and an accumulator that counts the additions.\<close>

definition demo_pow :: pow_api where
  "demo_pow = \<lparr>from_next_work_required = (\<lambda>bits _ _. bits), target_from_compact = ucast,
     target_to_compact_lossy = (\<lambda>_. 0x207FFFFF), target_is_met_by = (\<lambda>_ _. True), header_target = (\<lambda>_. 7),
     validate_pow = (\<lambda>h _. Inr (block_hash store_api h)), header_work = (\<lambda>_. 2)\<rparr>"

definition demo_stump :: "(nat, unit) stump_api" where
  "demo_stump = \<lparr>stump_new = 0, stump_serialize = (\<lambda>n. [of_nat n]), stump_deserialize = (\<lambda>bs. Inr (unat (hd bs))),
     stump_verify = (\<lambda>_ _ _. Inr True), stump_modify = (\<lambda>n adds _ _. Inr (n + length adds)), stump_roots = (\<lambda>_. [])\<rparr>"

definition demo_env :: "((hash \<rightharpoonup> disk_block_header) flat_chain_store, nat, unit) state_env" where
  "demo_env = \<lparr>e_lib = store_api, e_net = demo_network, e_pow = demo_pow, e_udata = demo_udata, e_stump = demo_stump,
     e_scripts = None, e_kernel = None, e_show_hash = (\<lambda>_. []), e_fuel = 10,
     e_store = flat_ops store_api demo_lru id
       \<lparr>sync_headers = Inr (), sync_index = Inr (), sync_fork = Inr (), sync_metadata = Inr ()\<rparr> 120 []\<rparr>"

definition demo_params :: chain_params where
  "demo_params = \<lparr>cp_params = \<lparr>bip34_height = 500, bip65_height = 500, bip66_height = 500,
       allow_min_difficulty_blocks = False, no_pow_retargeting = False, pow_target_spacing = 600,
       max_attainable_target = - 1, miner_confirmation_window = 2016\<rparr>,
     genesis = \<lparr>blk_header = demo_genesis, txdata = []\<rparr>, subsidy_interval = HalvingRegtest, pow_target_timespan = 1,
     coinbase_maturity = 100, segwit_activation_height = 500, csv_activation_height = 500,
     exceptions = Map.empty, cp_network = Regtest, enforce_bip94 = False\<rparr>"

definition demo_chain :: "((hash \<rightharpoonup> disk_block_header) flat_chain_store, nat) chain_state" where
  "demo_chain = \<lparr>cs_acc = 0, chainstore = demo_store,
     best_chain = \<lparr>best_block = block_hash store_api demo_genesis, depth = 0,
       validation_index = block_hash store_api demo_genesis, alternative_tips = []\<rparr>,
     subscribers = [\<lparr>wants_spent_utxos = False, on_block_calls = []\<rparr>], ibd = Done, consensus = demo_params,
     assume_valid = None\<rparr>"

lemma demo_env_simps [simp]:
  "e_lib demo_env = store_api" "e_pow demo_env = demo_pow" "e_stump demo_env = demo_stump" "e_scripts demo_env = None"
  "e_fuel demo_env = 10" "chainstore demo_chain = demo_store" "consensus demo_chain = demo_params" "assume_valid demo_chain = None"
  "cs_acc demo_chain = 0" "best_block (best_chain demo_chain) = block_hash store_api demo_genesis" "depth (best_chain demo_chain) = 0"
  by (simp_all add: demo_env_def demo_chain_def)

lemma demo_ready: "flat_ready demo_env demo_lru (block_hash store_api demo_genesis) demo_store"
  using demo_store_inv(1) by (auto simp: flat_ready_def demo_env_def)

lemma demo_room: "flat_room demo_store 1 h"
  using demo_store_inv(3,4) demo_vacant [of 1 h] by (simp add: flat_room_def)

lemma demo_parent: "prev_blockhash demo_block = block_hash store_api demo_genesis"
  by (simp add: demo_block_def store_header_def)

lemma demo_header_valid: "header_valid store_api demo_pow demo_params (flat_view demo_store) demo_block"
  using demo_store_inv(2)
  by (simp add: header_valid_def flat_view_def demo_parent required_target_def Let_def demo_pow_def demo_params_def
      demo_block_def store_header_def bip94_due_def min_header_version_def)

lemma demo_unknown: "lookup demo_store (block_hash store_api demo_block) = None"
  using demo_store_inv(2) demo_hashes_distinct(3) by simp

text \<open>The chain after its first block was accepted.\<close>

lemma demo_accept:
  "\<exists>cs'. accept_header demo_env demo_block demo_chain = (Inr (), cs')
    \<and> flat_ready demo_env demo_lru (block_hash store_api demo_genesis) (chainstore cs')
    \<and> same_control (demo_chain\<lparr>best_chain := (best_chain demo_chain)\<lparr>best_block := block_hash store_api demo_block, depth := 1\<rparr>\<rparr>) cs'
    \<and> lookup (chainstore cs') = [block_hash store_api demo_genesis \<mapsto> FullyValid demo_genesis 0,
        block_hash store_api demo_block \<mapsto> HeadersOnly demo_block 1]
    \<and> v_hash_at (flat_view (chainstore cs')) = (v_hash_at (flat_view demo_store))(1 \<mapsto> block_hash store_api demo_block)
    \<and> v_roots (flat_view (chainstore cs')) = (v_roots (flat_view demo_store))(1 \<mapsto> None)"
proof -
  let ?h = "block_hash store_api demo_block" and ?g = "block_hash store_api demo_genesis"
  have inv: "flat_ready demo_env demo_lru ?g (chainstore demo_chain) \<and> flat_room (chainstore demo_chain) 1 ?h \<and> ?h \<noteq> ?g \<and> ?h \<noteq> all_zeros"
    using demo_ready demo_room demo_hashes_distinct by simp
  have new: "v_headers (flat_view (chainstore demo_chain)) (block_hash (e_lib demo_env) demo_block) = None"
    using demo_unknown by (simp add: flat_view_def)
  have one: "(1 :: u32) = depth (best_chain demo_chain) + 1" "?h = block_hash (e_lib demo_env) demo_block" by simp_all
  obtain cs' where cs': "accept_header demo_env demo_block demo_chain = (Inr (), cs')"
    "flat_ready demo_env demo_lru ?g (chainstore cs')"
    "same_control (demo_chain\<lparr>best_chain := (best_chain demo_chain)\<lparr>best_block := ?h, depth := 1\<rparr>\<rparr>) cs'"
    and view: "flat_view (chainstore cs') = (flat_view (chainstore demo_chain))\<lparr>
        v_headers := (v_headers (flat_view (chainstore demo_chain)))(?h \<mapsto> HeadersOnly demo_block 1),
        v_hash_at := (v_hash_at (flat_view (chainstore demo_chain)))(1 \<mapsto> ?h),
        v_header_at := (v_header_at (flat_view (chainstore demo_chain)))(1 \<mapsto> HeadersOnly demo_block 1),
        v_roots := (v_roots (flat_view (chainstore demo_chain)))(1 \<mapsto> None)\<rparr>"
    using flat_grow.header_extends_tip [OF inv new _ _ _ one] demo_header_valid demo_parent
    by (auto simp: demo_pow_def)
  have "lookup (chainstore cs') = [?g \<mapsto> FullyValid demo_genesis 0, ?h \<mapsto> HeadersOnly demo_block 1]"
    using arg_cong [OF view, of v_headers] demo_store_inv(2) by (simp add: flat_view_def)
  moreover have "v_hash_at (flat_view (chainstore cs')) = (v_hash_at (flat_view demo_store))(1 \<mapsto> ?h)"
    "v_roots (flat_view (chainstore cs')) = (v_roots (flat_view demo_store))(1 \<mapsto> None)"
    using arg_cong [OF view, of v_hash_at] arg_cong [OF view, of v_roots] by simp_all
  ultimately show ?thesis using cs' by blast
qed

lemma demo_at_genesis: "v_hash_at (flat_view demo_store) 0 = Some (block_hash store_api demo_genesis)"
proof -
  have "get_disk_header demo_store 0 = Inr (slot demo_store 0)" "hd_hash (slot demo_store 0) = block_hash store_api demo_genesis"
    using demo_store_inv(1) by (simp_all add: flat_inv_def store_inv_def store_ok_def)
  then show ?thesis by (simp add: flat_view_def flat_get_block_hash_def index_new_def FORK_BIT_def)
qed

section \<open>Properties\<close>

text \<open>C20. A header that the store does not know and that breaks one of the header rules (a known parent with a
  height, proof of work, the required difficulty, the BIP94 time rule, the minimum version) is
  refused with an error, and neither the tip, the validation index, the accumulator nor the headers
  that are stored change.\<close>

theorem invalid_header_changes_nothing:
  assumes "flat_ready E X g0 (chainstore cs)" and "lookup (chainstore cs) (block_hash (e_lib E) hdr) = None"
    and "\<not> header_valid (e_lib E) (e_pow E) (consensus cs) (flat_view (chainstore cs)) hdr"
  shows "\<exists>e cs'. accept_header E hdr cs = (Inl e, cs') \<and> best_chain cs' = best_chain cs \<and> cs_acc cs' = cs_acc cs
    \<and> flat_view (chainstore cs') = flat_view (chainstore cs) \<and> flat_ready E X g0 (chainstore cs')"
proof -
  have "v_headers (flat_view (chainstore cs)) (block_hash (e_lib E) hdr) = None" using assms(2) by (simp add: flat_view_def)
  from flat.invalid_header_refused [OF assms(1) this assms(3)] show ?thesis
    by (auto simp: snapshot_def same_control_iff)
qed

theorem invalid_header_changes_nothing_witness:
  "\<exists>e cs'. accept_header demo_env (demo_block\<lparr>hdr_bits := 0\<rparr>) demo_chain = (Inl e, cs') \<and> best_chain cs' = best_chain demo_chain
    \<and> cs_acc cs' = cs_acc demo_chain \<and> flat_view (chainstore cs') = flat_view (chainstore demo_chain)
    \<and> flat_ready demo_env demo_lru (block_hash store_api demo_genesis) (chainstore cs')"
proof (rule invalid_header_changes_nothing)
  show "flat_ready demo_env demo_lru (block_hash store_api demo_genesis) (chainstore demo_chain)" using demo_ready by simp
  show "lookup (chainstore demo_chain) (block_hash (e_lib demo_env) (demo_block\<lparr>hdr_bits := 0\<rparr>)) = None"
    using demo_unknown by (simp add: store_api_def)
  show "\<not> header_valid (e_lib demo_env) (e_pow demo_env) (consensus demo_chain) (flat_view (chainstore demo_chain)) (demo_block\<lparr>hdr_bits := 0\<rparr>)"
    using demo_store_inv(2)
    by (simp add: header_valid_def flat_view_def demo_parent required_target_def Let_def demo_pow_def demo_params_def)
qed

text \<open>What rust-bitcoin documents of \<^verbatim>\<open>validate_pow\<close>: on success it returns the hash of the block.\<close>

definition pow_laws :: "bitcoin_api \<Rightarrow> pow_api \<Rightarrow> bool" where
  "pow_laws L P \<longleftrightarrow> (\<forall>h t x. validate_pow P h t = Inr x \<longrightarrow> x = block_hash L h)"

text \<open>C21. A valid header that builds on the tip is accepted as long as the files of the store have room: it
  becomes the tip one block higher, it is then found by its hash and by its height, no other stored
  header changes, and the validation index and the accumulator stay where they are.\<close>

theorem valid_header_extends_chain:
  assumes "flat_ready E X g0 (chainstore cs)" and "pow_laws (e_lib E) (e_pow E)"
    and "header_valid (e_lib E) (e_pow E) (consensus cs) (flat_view (chainstore cs)) hdr"
    and "prev_blockhash hdr = best_block (best_chain cs)"
    and "lookup (chainstore cs) h = None" and "h \<noteq> g0" and "h \<noteq> all_zeros"
    and "flat_room (chainstore cs) (depth (best_chain cs) + 1) h" and "h = block_hash (e_lib E) hdr"
  shows "\<exists>cs'. accept_header E hdr cs = (Inr (), cs')
    \<and> best_chain cs' = (best_chain cs)\<lparr>best_block := h, depth := depth (best_chain cs) + 1\<rparr> \<and> cs_acc cs' = cs_acc cs
    \<and> lookup (chainstore cs') = (lookup (chainstore cs))(h \<mapsto> HeadersOnly hdr (depth (best_chain cs) + 1))
    \<and> v_hash_at (flat_view (chainstore cs')) = (v_hash_at (flat_view (chainstore cs)))(depth (best_chain cs) + 1 \<mapsto> h)
    \<and> flat_ready E X g0 (chainstore cs')"
proof -
  have pow: "validate_pow (e_pow E) hdr (header_target (e_pow E) hdr) = Inr (block_hash (e_lib E) hdr)"
    using assms(2,3) by (auto simp: pow_laws_def header_valid_def ok_def split: sum.splits)
  have new: "v_headers (flat_view (chainstore cs)) (block_hash (e_lib E) hdr) = None" using assms(5,9) by (simp add: flat_view_def)
  have inv: "flat_ready E X g0 (chainstore cs) \<and> flat_room (chainstore cs) (depth (best_chain cs) + 1) h \<and> h \<noteq> g0 \<and> h \<noteq> all_zeros"
    using assms by blast
  obtain cs' where run: "accept_header E hdr cs = (Inr (), cs')" and ready: "flat_ready E X g0 (chainstore cs')"
    and ctl: "same_control (cs\<lparr>best_chain := (best_chain cs)\<lparr>best_block := h, depth := depth (best_chain cs) + 1\<rparr>\<rparr>) cs'"
    and view: "flat_view (chainstore cs') = (flat_view (chainstore cs))\<lparr>v_headers := (v_headers (flat_view (chainstore cs)))(h \<mapsto> HeadersOnly hdr (depth (best_chain cs) + 1)),
        v_hash_at := (v_hash_at (flat_view (chainstore cs)))(depth (best_chain cs) + 1 \<mapsto> h),
        v_header_at := (v_header_at (flat_view (chainstore cs)))(depth (best_chain cs) + 1 \<mapsto> HeadersOnly hdr (depth (best_chain cs) + 1)),
        v_roots := (v_roots (flat_view (chainstore cs)))(depth (best_chain cs) + 1 \<mapsto> None)\<rparr>"
    using flat_grow.header_extends_tip [OF inv new assms(3) pow assms(4) refl assms(9)] by blast
  have "lookup (chainstore cs') = (lookup (chainstore cs))(h \<mapsto> HeadersOnly hdr (depth (best_chain cs) + 1))"
    using arg_cong [OF view, of v_headers] by (simp add: flat_view_def)
  moreover have "v_hash_at (flat_view (chainstore cs')) = (v_hash_at (flat_view (chainstore cs)))(depth (best_chain cs) + 1 \<mapsto> h)"
    using arg_cong [OF view, of v_hash_at] by simp
  ultimately show ?thesis using run ready ctl by (auto simp: same_control_iff)
qed

theorem valid_header_extends_chain_witness:
  "\<exists>cs'. accept_header demo_env demo_block demo_chain = (Inr (), cs')
    \<and> best_chain cs' = (best_chain demo_chain)\<lparr>best_block := block_hash store_api demo_block, depth := depth (best_chain demo_chain) + 1\<rparr>
    \<and> cs_acc cs' = cs_acc demo_chain
    \<and> lookup (chainstore cs') = (lookup (chainstore demo_chain))(block_hash store_api demo_block \<mapsto> HeadersOnly demo_block (depth (best_chain demo_chain) + 1))
    \<and> v_hash_at (flat_view (chainstore cs')) = (v_hash_at (flat_view (chainstore demo_chain)))(depth (best_chain demo_chain) + 1 \<mapsto> block_hash store_api demo_block)
    \<and> flat_ready demo_env demo_lru (block_hash store_api demo_genesis) (chainstore cs')"
  by (rule valid_header_extends_chain)
    (use demo_ready demo_room demo_parent demo_header_valid demo_unknown demo_hashes_distinct in
      \<open>simp_all add: pow_laws_def demo_pow_def\<close>)

end
