(* ===== verification/Chain_Reorg.thy ===== *)
theory Chain_Reorg
  imports Chain_Headers
begin

text \<open>
  Choosing between branches: when a header off the best chain replaces the tip, what a reorganisation leaves
  behind, and the computation of the work of a chain.
\<close>

section \<open>Read-only operations\<close>

definition reader :: "('s \<Rightarrow> bool) \<Rightarrow> ('s, 'e, 'a) stm \<Rightarrow> bool" where
  "reader I m \<longleftrightarrow> (\<exists>x. yields I m x)"

named_theorems reader_rules

lemma readerI [reader_rules]: "yields I m x \<Longrightarrow> reader I m"
  by (auto simp: reader_def)

lemma reader_value:
  assumes "reader I m" and "I s"
  shows "yields I m (ok (fst (m s)))"
proof -
  from assms(1) obtain x where x: "yields I m x" by (auto simp: reader_def)
  with assms(2) have "ok (fst (m s)) = x" by (auto elim!: yieldsE split: option.splits)
  with x show ?thesis by simp
qed

lemma reader_bind:
  assumes m: "reader I m" and f: "\<And>a. reader I (f a)"
  shows "reader I (bindS m f)"
proof -
  from m obtain x where x: "yields I m x" by (auto simp: reader_def)
  have "\<forall>a. \<exists>y. yields I (f a) y" using f by (simp add: reader_def)
  then obtain g where "\<And>a. yields I (f a) (g a)" by metis
  with x show ?thesis by (auto intro!: readerI yields_bind)
qed

lemma hoare_reader:
  assumes m: "reader I m" and I: "I s0"
    and f: "\<And>a. fst (m s0) = Inr a \<Longrightarrow> hoare I (f a) Q R" and R: "\<And>e s. I s \<Longrightarrow> R e s"
  shows "hoare I (bindS m f) Q R"
proof (rule hoare_bind)
  note v = reader_value [OF m I]
  show "hoare I m (\<lambda>a s. I s \<and> fst (m s0) = Inr a) R"
  proof (rule hoareI)
    show "I t \<and> fst (m s0) = Inr a" if "I s" "m s = (Inr a, t)" for s a t
      using yields_InrD [OF v that] by (cases "fst (m s0)") simp_all
    show "R e t" if "I s" "m s = (Inl e, t)" for s e t
      using yields_InlD [OF v that] R by blast
  qed
  show "hoare (\<lambda>s. I s \<and> fst (m s0) = Inr a) (f a) Q R" for a
    using f [of a] by (auto simp: hoare_def)
qed

section \<open>Branches\<close>

text \<open>The comparison that decides a reorganisation, each operation evaluated in the state at the start.\<close>

definition more_work :: "('s, 'acc, 'prf) state_env \<Rightarrow> header \<Rightarrow> ('s, 'acc) chain_state \<Rightarrow> bool" where
  "more_work E branch_tip cs \<longleftrightarrow> (\<exists>tip fork_point current_work new_work.
     fst (get_block_header E (best_block (best_chain cs)) cs) = Inr tip
   \<and> fst (find_fork_point E branch_tip cs) = Inr fork_point
   \<and> fst (get_branch_work E tip cs) = Inr current_work
   \<and> fst (get_fork_work E branch_tip (block_hash (e_lib E) fork_point) cs) = Inr new_work
   \<and> current_work < new_work)"

text \<open>Outside the store only the tip, the validation index and the accumulator have changed: the tip is the new
  one at its depth, the validation index its last valid ancestor, and the accumulator the one that was
  stored for that block.\<close>

definition reorganised ::
  "('s, 'acc, 'prf) state_env \<Rightarrow> header \<Rightarrow> ('s, 'acc) chain_state \<Rightarrow> ('s, 'acc) chain_state \<Rightarrow> bool" where
  "reorganised E new_tip cs cs' \<longleftrightarrow>
     (\<exists>v k. best_chain cs' = (best_chain cs)\<lparr>best_block := block_hash (e_lib E) new_tip, validation_index := v, depth := k\<rparr>
        \<and> fst (get_last_valid_block E new_tip cs) = Inr v \<and> fst (get_chain_depth E new_tip cs) = Inr k
        \<and> fst (reorg_acc E v cs) = Inr (cs_acc cs'))
   \<and> subscribers cs' = subscribers cs \<and> ibd cs' = ibd cs \<and> consensus cs' = consensus cs \<and> assume_valid cs' = assume_valid cs"

context header_store
begin

lemma reader_basic:
  "reader (snapshot sinv view cs0) (get_disk_block_header E h)" "reader (snapshot sinv view cs0) (get_block_hash E k)"
  "reader (snapshot sinv view cs0) (get_block_header E h)" "reader (snapshot sinv view cs0) (get_ancestor E hdr)"
  "reader (snapshot sinv view cs0) (ret a)" "reader (snapshot sinv view cs0) (fail e)" "reader (snapshot sinv view cs0) (lift r)"
  "reader (snapshot sinv view cs0) (is_genesis E hdr)" "reader (snapshot sinv view cs0) get_best_block"
  "reader (snapshot sinv view cs0) (get_block_height E h)"
proof -
  show "reader (snapshot sinv view cs0) (is_genesis E hdr)" "reader (snapshot sinv view cs0) get_best_block"
    unfolding is_genesis_def get_best_block_def by (rule readerI, rule read_control, simp add: same_control_iff)+
  show "reader (snapshot sinv view cs0) (get_block_height E h)"
    unfolding get_block_height_def by (intro reader_bind readerI [OF read_header] readerI [OF yields_ret])
  show "reader (snapshot sinv view cs0) (get_ancestor E hdr)"
    unfolding get_ancestor_def by (rule readerI [OF read_header])
qed (rule readerI, rule read_header read_hash read_block_header yield_rules)+

lemma reader_work:
  "reader (snapshot sinv view cs0) (get_branch_work E hdr)" "reader (snapshot sinv view cs0) (get_fork_work E hdr h)"
proof -
  have "reader (snapshot sinv view cs0) (branch_work_loop E k ks acc)" for k ks acc
    by (induction ks arbitrary: acc) (auto simp: Let_def intro!: reader_bind reader_basic)
  then show w: "reader (snapshot sinv view cs0) (get_branch_work E hdr)" for hdr
    unfolding get_branch_work_def by (intro reader_bind reader_basic)
  have "reader (snapshot sinv view cs0) (fork_work_loop n E h hd acc)" for n hd acc
    by (induction n arbitrary: hd acc) (auto simp: Let_def intro!: reader_bind reader_basic)
  then show "reader (snapshot sinv view cs0) (get_fork_work E hdr h)"
    unfolding get_fork_work_def get_work_def by (intro reader_bind reader_basic w)
qed

lemma read_raw_header: "yields (snapshot sinv view cs0) (on_store (st_get_header (e_store E) h)) (Some (v_headers (view (chainstore cs0)) h))"
  unfolding yields_def
proof (intro allI impI)
  fix cs assume I: "snapshot sinv view cs0 cs"
  then obtain t where t: "st_get_header (e_store E) h (chainstore cs) = (Inr (v_headers (view (chainstore cs0)) h), t)"
    "sinv t" "view t = view (chainstore cs0)"
    using get_header_law [of "chainstore cs" h] by (auto simp: snapshot_def)
  with I have "snapshot sinv view cs0 (cs\<lparr>chainstore := t\<rparr>)" by (simp add: snapshot_def same_control_iff)
  then show "\<exists>u. snapshot sinv view cs0 u \<and> (case Some (v_headers (view (chainstore cs0)) h) of
      Some a \<Rightarrow> on_store (st_get_header (e_store E) h) cs = (Inr a, u)
    | None \<Rightarrow> \<exists>e. on_store (st_get_header (e_store E) h) cs = (Inl e, u))"
    using t by (auto simp: on_store_def)
qed

lemma reader_branches:
  "reader (snapshot sinv view cs0) (check_branch E hdr)" "reader (snapshot sinv view cs0) (get_chain_depth E hdr)"
  "reader (snapshot sinv view cs0) (find_fork_point E hdr)" "reader (snapshot sinv view cs0) (get_last_valid_block E hdr)"
proof -
  have "reader (snapshot sinv view cs0) (check_branch_loop n E h)" for n h
    by (induction n arbitrary: h) (auto intro!: reader_bind reader_basic split: disk_block_header.splits)
  then show "reader (snapshot sinv view cs0) (check_branch E hdr)" by (simp add: check_branch_def)
  have "reader (snapshot sinv view cs0) (chain_depth_loop n E h c)" for n h c
    by (induction n arbitrary: h c) (auto intro!: reader_bind reader_basic)
  then show "reader (snapshot sinv view cs0) (get_chain_depth E hdr)" by (simp add: get_chain_depth_def)
  have "reader (snapshot sinv view cs0) (fork_point_loop n E h)" for n h
    by (induction n arbitrary: h)
      (auto intro!: reader_bind reader_basic readerI [OF read_raw_header] split: disk_block_header.splits option.splits)
  then show "reader (snapshot sinv view cs0) (find_fork_point E hdr)"
    unfolding find_fork_point_def by (intro reader_bind reader_basic)
  have "reader (snapshot sinv view cs0) (last_valid_loop n E h)" for n h
    by (induction n arbitrary: h) (auto intro!: reader_bind reader_basic split: disk_block_header.splits)
  then show "reader (snapshot sinv view cs0) (get_last_valid_block E hdr)" by (simp add: get_last_valid_block_def)
qed

lemma reader_reorg_acc: "reader (snapshot sinv view cs0) (reorg_acc E h)"
proof -
  have "yields (snapshot sinv view cs0) (on_store (st_load_roots (e_store E) k)) (v_roots (view (chainstore cs0)) k)" for k
    unfolding yields_def
  proof (intro allI impI)
    fix cs assume I: "snapshot sinv view cs0 cs"
    then obtain r where "st_load_roots (e_store E) k (chainstore cs) = (r, chainstore cs)" "v_roots (view (chainstore cs0)) k = ok r"
      using load_roots_law [of "chainstore cs" k] by (auto simp: snapshot_def)
    with I show "\<exists>u. snapshot sinv view cs0 u \<and> (case v_roots (view (chainstore cs0)) k of
        Some a \<Rightarrow> on_store (st_load_roots (e_store E) k) cs = (Inr a, u)
      | None \<Rightarrow> \<exists>e. on_store (st_load_roots (e_store E) k) cs = (Inl e, u))"
      by (cases r) (auto simp: on_store_def)
  qed
  note roots = readerI [OF this]
  then have "reader (snapshot sinv view cs0) (get_roots_for_block E k)" for k
    unfolding get_roots_for_block_def by (auto intro!: reader_bind reader_basic roots split: option.splits)
  then show ?thesis unfolding reorg_acc_def by (auto intro!: reader_bind reader_basic)
qed

lemma snapshot_control: "snapshot sinv view cs0 cs \<Longrightarrow> same_control cs0 cs"
  by (simp add: snapshot_def)

lemma hoare_read:
  assumes "sinv (chainstore cs0)" and "reader (snapshot sinv view cs0) m"
    and "\<And>a. fst (m cs0) = Inr a \<Longrightarrow> hoare (snapshot sinv view cs0) (f a) Q R"
    and "\<And>e cs. snapshot sinv view cs0 cs \<Longrightarrow> R e cs"
  shows "hoare (snapshot sinv view cs0) (bindS m f) Q R"
proof (rule hoare_reader [of _ _ cs0])
  show "snapshot sinv view cs0 cs0" using assms(1) by (simp add: snapshot_def)
qed (rule assms(2-4); assumption)+

lemma reorg_effect:
  assumes "sinv (chainstore cs0)"
  shows "hoare (snapshot sinv view cs0) (reorg E new_tip) (\<lambda>_. reorganised E new_tip cs0) (\<lambda>_. same_control cs0)"
proof -
  have change: "hoare (same_control cs0) (change_active_chain E new_tip v k acc) (\<lambda>_. reorganised E new_tip cs0) (\<lambda>_. same_control cs0)"
    if "fst (get_last_valid_block E new_tip cs0) = Inr v" "fst (get_chain_depth E new_tip cs0) = Inr k"
      "fst (reorg_acc E v cs0) = Inr acc" for v k acc
    unfolding change_active_chain_def
    by (rule hoare_update) (use that in \<open>auto simp: reorganised_def same_control_iff\<close>)
  define marks where "marks = (\<lambda>tip fp v k acc. bindS (mark_chain_as_inactive E tip (block_hash (e_lib E) fp))
    (\<lambda>_. bindS (mark_chain_as_active E new_tip (block_hash (e_lib E) fp)) (\<lambda>_. change_active_chain E new_tip v k acc)))"
  have marks: "hoare (snapshot sinv view cs0) (marks tip fp v k acc) (\<lambda>_. reorganised E new_tip cs0) (\<lambda>_. same_control cs0)"
    if "fst (get_last_valid_block E new_tip cs0) = Inr v" "fst (get_chain_depth E new_tip cs0) = Inr k"
      "fst (reorg_acc E v cs0) = Inr acc" for tip fp v k acc
    unfolding marks_def
    by (rule hoare_weaken [where P' = "same_control cs0"])
      (auto intro!: hoare_store_only frames change [OF that] snapshot_control)
  have "reorg E new_tip = bindS get_best_block (\<lambda>(_, best). bindS (get_block_header E best) (\<lambda>tip.
     bindS (find_fork_point E new_tip) (\<lambda>fp. bindS (get_last_valid_block E new_tip) (\<lambda>v.
     bindS (get_chain_depth E new_tip) (\<lambda>k. bindS (reorg_acc E v) (marks tip fp v k))))))"
    by (simp add: reorg_def marks_def)
  then show ?thesis
    by (auto intro!: hoare_read [OF assms] reader_basic reader_branches reader_reorg_acc snapshot_control marks split: prod.split)
qed

lemma maybe_reorg_effect:
  assumes "sinv (chainstore cs0)"
  shows "hoare (snapshot sinv view cs0) (maybe_reorg E hdr)
     (\<lambda>_ cs. reorganised E hdr cs0 cs \<and> more_work E hdr cs0 \<or> alt_tip_pushed cs0 cs) (\<lambda>_. alt_tip_pushed cs0)"
proof -
  let ?I = "snapshot sinv view cs0"
  let ?Q = "\<lambda>_ cs. reorganised E hdr cs0 cs \<and> more_work E hdr cs0 \<or> alt_tip_pushed cs0 cs"
  define keep where "keep = bindS (push_alt_tip E hdr) (\<lambda>_. bindS (get_ancestor E hdr) (\<lambda>d.
    bindS (lift (try_height d)) (\<lambda>k. update_header E (InFork hdr (k + 1)))))"
  have better: "hoare ?I (reorg E hdr) ?Q (\<lambda>_. alt_tip_pushed cs0)" if "more_work E hdr cs0"
    by (rule hoare_weaken [OF reorg_effect [OF assms]]) (auto simp: that same_control_alt_tip)
  have worse: "hoare ?I keep ?Q (\<lambda>_. alt_tip_pushed cs0)"
    unfolding keep_def by (rule hoare_weaken [OF keep_branch_effect [of cs0]]) (auto intro: snapshot_control)
  have decide: "hoare ?I (if new > current then reorg E hdr else keep) ?Q (\<lambda>_. alt_tip_pushed cs0)"
    if "fst (get_block_header E (best_block (best_chain cs0)) cs0) = Inr tip" "fst (find_fork_point E hdr cs0) = Inr fp"
      "fst (get_branch_work E tip cs0) = Inr current" "fst (get_fork_work E hdr (block_hash (e_lib E) fp) cs0) = Inr new"
    for tip fp current new
    using that better worse unfolding more_work_def by (intro hoare_if) blast+
  have err: "?I cs \<Longrightarrow> alt_tip_pushed cs0 cs" for cs by (simp add: snapshot_control same_control_alt_tip)
  have best: "fst (get_best_block cs0) = Inr p \<Longrightarrow> p = (depth (best_chain cs0), best_block (best_chain cs0))" for p
    by (simp add: get_best_block_def gets_run)
  show ?thesis
    unfolding maybe_reorg_def keep_def [symmetric]
    by (rule hoare_read [OF assms])
      (auto dest!: best intro!: hoare_read [OF assms] reader_basic reader_branches reader_work decide err simp del: if_split)
qed

text \<open>A header that was not known: it extends the tip, replaces it with more work, becomes an alternative tip,
  or nothing changes outside the store.\<close>

lemma accept_new_effect:
  assumes inv: "sinv (chainstore cs)" and new: "v_headers (view (chainstore cs)) (block_hash (e_lib E) hdr) = None"
    and run: "accept_header E hdr cs = (r, cs')"
  shows "alt_tip_pushed cs cs'
    \<or> header_valid (e_lib E) (e_pow E) (consensus cs) (view (chainstore cs)) hdr
      \<and> (prev_blockhash hdr = best_block (best_chain cs) \<and> depth (best_chain cs') = depth (best_chain cs) + 1
           \<and> Inr (best_block (best_chain cs')) = validate_pow (e_pow E) hdr (header_target (e_pow E) hdr)
           \<and> validation_index (best_chain cs') = validation_index (best_chain cs) \<and> cs_acc cs' = cs_acc cs
         \<or> r = Inr () \<and> reorganised E hdr cs cs' \<and> more_work E hdr cs)"
proof -
  obtain cs1 where cs1: "snapshot sinv view cs cs1" and body: "accept_header E hdr cs =
     bindS (validate_header E hdr) (\<lambda>bhash.
       if prev_blockhash hdr = best_block (best_chain cs) then
         bindS (update (\<lambda>cs. cs\<lparr>best_chain := new_block bhash (depth (best_chain cs) + 1) (best_chain cs)\<rparr>)) (\<lambda>_.
           update_header_and_index E (HeadersOnly hdr (depth (best_chain cs) + 1)) bhash (depth (best_chain cs) + 1))
       else maybe_reorg E hdr) cs1"
    using unknown_header [OF inv new] by blast
  obtain v cs2 where v: "validate_header E hdr cs1 = (v, cs2)" by fastforce
  show ?thesis
  proof (cases v)
    case (Inl e)
    then have "cs' = cs2" "snapshot sinv view cs cs2"
      using run body v yields_InlD [OF read_validate_header cs1, of hdr e cs2] by (simp_all add: bindS_err)
    then show ?thesis by (simp add: snapshot_control same_control_alt_tip)
  next
    case (Inr b)
    have valid: "header_valid (e_lib E) (e_pow E) (consensus cs) (view (chainstore cs)) hdr"
      "ok (validate_pow (e_pow E) hdr (header_target (e_pow E) hdr)) = Some b" and cs2: "snapshot sinv view cs cs2"
      using yields_InrD [OF read_validate_header cs1, of hdr b cs2] v Inr by (simp_all split: if_splits)
    from valid(2) have b: "validate_pow (e_pow E) hdr (header_target (e_pow E) hdr) = Inr b"
      by (cases "validate_pow (e_pow E) hdr (header_target (e_pow E) hdr)") simp_all
    show ?thesis
    proof (cases "prev_blockhash hdr = best_block (best_chain cs)")
      case True
      let ?u = "cs2\<lparr>best_chain := new_block b (depth (best_chain cs2) + 1) (best_chain cs2)\<rparr>"
      have "update_header_and_index E (HeadersOnly hdr (depth (best_chain cs) + 1)) b (depth (best_chain cs) + 1) ?u = (r, cs')"
        using run body v Inr True by (simp add: bindS_def update_run)
      then have "same_control ?u cs'" by (rule store_onlyD [OF store_only_queries(11)])
      then show ?thesis using True b valid(1) snapshot_control [OF cs2] by (simp add: same_control_iff new_block_def)
    next
      case False
      then have "maybe_reorg E hdr cs2 = (r, cs')" using run body v Inr by (simp add: bindS_def)
      with hoareD [OF maybe_reorg_effect [OF inv] cs2] valid(1) show ?thesis by (cases r) auto
    qed
  qed
qed

end

section \<open>The work of a chain\<close>

text \<open>The headers \<open>hs 0\<close> to \<open>hs n\<close> are indexed by height and stored.\<close>

definition indexed_chain :: "bitcoin_api \<Rightarrow> store_view \<Rightarrow> (nat \<Rightarrow> header) \<Rightarrow> nat \<Rightarrow> bool" where
  "indexed_chain L v hs n \<longleftrightarrow> (\<forall>k \<le> n. v_hash_at v (of_nat k) = Some (block_hash L (hs k))
     \<and> map_option header_of (v_headers v (block_hash L (hs k))) = Some (hs k))"

text \<open>All blocks between two retargets have the same work.\<close>

definition uniform_epochs :: "pow_api \<Rightarrow> (nat \<Rightarrow> header) \<Rightarrow> nat \<Rightarrow> bool" where
  "uniform_epochs P hs n \<longleftrightarrow> (\<forall>k \<le> n. header_work P (hs k) = header_work P (hs (2016 * (k div 2016))))"

definition total_work :: "pow_api \<Rightarrow> (nat \<Rightarrow> header) \<Rightarrow> nat \<Rightarrow> nat \<Rightarrow> nat" where
  "total_work P hs from_height n = (\<Sum>k \<in> {from_height .. n}. unat (header_work P (hs k)))"

lemma epoch_split:
  assumes "uniform_epochs P hs n" and "2016 * e \<le> n"
  defines "b \<equiv> min (2016 * e + 2015) n - 2016 * e + 1"
  shows "total_work P hs (2016 * e) n = unat (header_work P (hs (2016 * e))) * b + total_work P hs (2016 * Suc e) n"
proof -
  let ?f = "\<lambda>k. unat (header_work P (hs k))"
  have parts: "{2016 * e .. n} = {2016 * e ..< 2016 * e + b} \<union> {2016 * Suc e .. n}"
    and disj: "{2016 * e ..< 2016 * e + b} \<inter> {2016 * Suc e .. n} = {}"
    using assms(2) by (auto simp: b_def)
  have same: "?f k = ?f (2016 * e)" if "k \<in> {2016 * e ..< 2016 * e + b}" for k
  proof -
    have "k div 2016 = e" "k \<le> n" using that assms(2) by (auto simp: b_def)
    then show ?thesis using assms(1) [unfolded uniform_epochs_def, rule_format, of k] by simp
  qed
  have "sum ?f {2016 * e ..< 2016 * e + b} = (\<Sum>k \<in> {2016 * e ..< 2016 * e + b}. ?f (2016 * e))"
    by (rule sum.cong [OF refl same])
  then have "sum ?f {2016 * e ..< 2016 * e + b} = ?f (2016 * e) * b" by simp
  then show ?thesis
    unfolding total_work_def parts by (subst sum.union_disjoint [OF _ _ disj]) simp_all
qed

lemma unat_ucast_work: "unat (ucast (x :: u32) :: work) = unat x"
  using unsigned_less [of x, where ?'a = nat] by (simp add: unsigned_ucast_eq take_bit_nat_eq_self)

lemma blocks_in_epoch:
  assumes "2016 * e \<le> n" and "n < 2 ^ 31"
  shows "unat (min (of_nat (2016 * e) + 2015) (of_nat n) - of_nat (2016 * e) + 1 :: u32) = min (2016 * e + 2015) n - 2016 * e + 1"
proof -
  have "unat (of_nat (2016 * e) + 2015 :: u32) = 2016 * e + 2015" "unat (of_nat n :: u32) = n" "unat (of_nat (2016 * e) :: u32) = 2016 * e"
    using assms by (simp_all add: unat_word_ariths unat_of_nat)
  moreover from this have "unat (min (of_nat (2016 * e) + 2015) (of_nat n) :: u32) = min (2016 * e + 2015) n"
    by (simp add: min_def word_le_nat_alt)
  ultimately show ?thesis using assms
    by (simp add: unat_word_ariths unat_sub_if_size word_size)
qed

context header_store
begin

lemma read_branch_work:
  assumes L: "work_laws (e_lib E)" and v: "indexed_chain (e_lib E) (view (chainstore cs0)) hs n" and n: "n < 2 ^ 31"
    and same: "uniform_epochs (e_pow E) hs n"
    and fits: "unat acc + total_work (e_pow E) hs (2016 * e) n < 2 ^ 256" and e: "e \<le> Suc (n div 2016)"
  shows "\<exists>w. yields (snapshot sinv view cs0)
      (branch_work_loop E (of_nat n) (map (\<lambda>i. of_nat (2016 * i)) [e ..< Suc (n div 2016)]) acc) (Some w)
    \<and> unat w = unat acc + total_work (e_pow E) hs (2016 * e) n"
  using fits e
proof (induction "Suc (n div 2016) - e" arbitrary: e acc)
  case 0
  then have "[e ..< Suc (n div 2016)] = []" "{2016 * e .. n} = {}" by auto
  then show ?case by (auto simp: total_work_def intro!: yields_ret)
next
  case (Suc m)
  let ?W = "header_work (e_pow E) (hs (2016 * e))" and ?b = "min (2016 * e + 2015) n - 2016 * e + 1"
  let ?k = "of_nat (2016 * e) :: u32" and ?I = "snapshot sinv view cs0"
  let ?bw = "min (?k + 2015) (of_nat n) - ?k + 1"
  have en: "e \<le> n div 2016" using Suc.hyps(2) by simp
  then have le: "2016 * e \<le> n" by simp
  note split = epoch_split [OF same le]
  have b: "unat ?bw = ?b" by (rule blocks_in_epoch [OF le n])
  have fit: "unat ?W * ?b < 2 ^ 256" "unat acc + unat ?W * ?b + total_work (e_pow E) hs (2016 * Suc e) n < 2 ^ 256"
    using Suc.prems(1) split by simp_all
  have prod: "multiply_work_by_u32 (e_lib E) ?W ?bw = Inr (?W * ucast ?bw)"
    using multiply_work_exact [OF L, of ?W ?bw] fit(1) b by simp
  have lifted: "yields ?I (lift (map_err (\<lambda>_. OperationOverflow) (multiply_work_by_u32 (e_lib E) ?W ?bw))) (Some (?W * ucast ?bw))"
    unfolding prod map_err_def sum.case by (rule yields_lift [of _ "Inr _", unfolded ok_simps])
  have "unat (ucast ?bw :: work) = ?b"
    unfolding b [symmetric] by (rule unat_ucast_work)
  then have acc: "unat (acc + ?W * ucast ?bw) = unat acc + unat ?W * ?b"
    using fit by (simp add: unat_word_ariths)
  have m: "m = Suc (n div 2016) - Suc e" using Suc.hyps(2) en by linarith
  have fit': "unat (acc + ?W * ucast ?bw) + total_work (e_pow E) hs (2016 * Suc e) n < 2 ^ 256"
    unfolding acc by (rule fit(2))
  obtain w where w: "yields ?I (branch_work_loop E (of_nat n) (map (\<lambda>i. of_nat (2016 * i)) [Suc e ..< Suc (n div 2016)])
      (acc + ?W * ucast ?bw)) (Some w)" "unat w = unat acc + unat ?W * ?b + total_work (e_pow E) hs (2016 * Suc e) n"
    using Suc.hyps(1) [OF m fit', unfolded acc] en by auto
  have at: "v_hash_at (view (chainstore cs0)) ?k = Some (block_hash (e_lib E) (hs (2016 * e)))"
    "map_option header_of (v_headers (view (chainstore cs0)) (block_hash (e_lib E) (hs (2016 * e)))) = Some (hs (2016 * e))"
    using v le by (auto simp: indexed_chain_def)
  have list: "map (\<lambda>i. of_nat (2016 * i) :: u32) [e ..< Suc (n div 2016)]
      = ?k # map (\<lambda>i. of_nat (2016 * i)) [Suc e ..< Suc (n div 2016)]"
    using en by (subst upt_conv_Cons) simp_all
  have "yields ?I (branch_work_loop E (of_nat n) (map (\<lambda>i. of_nat (2016 * i)) [e ..< Suc (n div 2016)]) acc) (Some w)"
    unfolding list branch_work_loop.simps Let_def
  proof (rule yields_then)
    show "yields ?I (get_block_hash E ?k) (Some (block_hash (e_lib E) (hs (2016 * e))))" using read_hash [of cs0 ?k] unfolding at(1) .
    show "yields ?I (bindS (get_block_header E (block_hash (e_lib E) (hs (2016 * e)))) (\<lambda>hd.
        bindS (lift (map_err (\<lambda>_. OperationOverflow) (multiply_work_by_u32 (e_lib E) (header_work (e_pow E) hd) ?bw))) (\<lambda>cw.
        branch_work_loop E (of_nat n) (map (\<lambda>i. of_nat (2016 * i)) [Suc e ..< Suc (n div 2016)]) (acc + cw)))) (Some w)"
    proof (rule yields_then)
      show "yields ?I (get_block_header E (block_hash (e_lib E) (hs (2016 * e)))) (Some (hs (2016 * e)))"
        using read_block_header [of cs0 "block_hash (e_lib E) (hs (2016 * e))"] unfolding at(2) .
      show "yields ?I (bindS (lift (map_err (\<lambda>_. OperationOverflow) (multiply_work_by_u32 (e_lib E) ?W ?bw))) (\<lambda>cw.
        branch_work_loop E (of_nat n) (map (\<lambda>i. of_nat (2016 * i)) [Suc e ..< Suc (n div 2016)]) (acc + cw))) (Some w)"
        by (rule yields_then [OF lifted]) (rule w(1))
    qed
  qed
  moreover have "unat w = unat acc + total_work (e_pow E) hs (2016 * e) n" using w(2) split by simp
  ultimately show ?case by blast
qed

end

section \<open>Branches from the genesis block\<close>

context header_store
begin

lemma genesis_fork_refused:
  assumes inv: "sinv (chainstore cs)" and new: "v_headers (view (chainstore cs)) (block_hash (e_lib E) hdr) = None"
    and valid: "header_valid (e_lib E) (e_pow E) (consensus cs) (view (chainstore cs)) hdr"
    and parent: "prev_blockhash hdr = block_hash (e_lib E) gen" "gen = blk_header (genesis (consensus cs))"
    and gen: "v_headers (view (chainstore cs)) (block_hash (e_lib E) gen) = Some d" "header_of d = gen"
    and tip: "best_block (best_chain cs) \<noteq> block_hash (e_lib E) gen"
      "v_headers (view (chainstore cs)) (best_block (best_chain cs)) \<noteq> None"
    and fuel: "2 \<le> e_fuel E" and known: "on_best_chain d"
  shows "\<exists>cs'. accept_header E hdr cs = (Inl (InvalidTip ''Couldn't find a fork point''), cs') \<and> snapshot sinv view cs cs'"
proof -
  let ?I = "snapshot sinv view cs"
  obtain n where n: "e_fuel E = Suc (Suc n)" using fuel by (cases "e_fuel E"; cases "e_fuel E - 1") auto
  obtain cs1 where cs1: "?I cs1" and body: "accept_header E hdr cs =
     bindS (validate_header E hdr) (\<lambda>bhash.
       if prev_blockhash hdr = best_block (best_chain cs) then
         bindS (update (\<lambda>cs. cs\<lparr>best_chain := new_block bhash (depth (best_chain cs) + 1) (best_chain cs)\<rparr>)) (\<lambda>_.
           update_header_and_index E (HeadersOnly hdr (depth (best_chain cs) + 1)) bhash (depth (best_chain cs) + 1))
       else maybe_reorg E hdr) cs1"
    using unknown_header [OF inv new] by blast
  obtain b where "ok (validate_pow (e_pow E) hdr (header_target (e_pow E) hdr)) = Some b"
    using valid by (auto simp: header_valid_def)
  with read_validate_header [of cs hdr] valid cs1 obtain cs2 where cs2: "validate_header E hdr cs1 = (Inr b, cs2)" "?I cs2"
    by (auto dest: yields_SomeD)
  have run: "accept_header E hdr cs = maybe_reorg E hdr cs2"
    using body cs2(1) parent(1) tip(1) by (simp add: bindS_def)
  have is_gen: "is_genesis E h u = (Inr (block_hash (e_lib E) h = block_hash (e_lib E) gen), u)" if "?I u" for h u
    using snapshot_control [OF that] parent(2) by (simp add: is_genesis_def gets_run same_control_iff)
  have anc: "\<exists>t. get_ancestor E hdr u = (Inr d, t) \<and> ?I t" if "?I u" for u
    using yields_SomeD [OF read_header [of cs "prev_blockhash hdr", unfolded parent(1) gen(1)] that]
    by (simp add: get_ancestor_def parent(1))
  have new': "block_hash (e_lib E) hdr \<noteq> block_hash (e_lib E) gen" using new gen(1) by auto
  obtain tiph cs3 where cs3: "get_block_header E (best_block (best_chain cs)) cs2 = (Inr tiph, cs3)" "?I cs3"
    using read_block_header [of cs "best_block (best_chain cs)"] tip(2) cs2(2) by (auto dest!: yields_SomeD)
  have "\<exists>t. check_branch E hdr cs3 = (Inr (), t) \<and> ?I t"
    using anc [OF cs3(2)] is_gen new' gen(2) cs3(2) known unfolding check_branch_def n
    by (cases d) (auto simp: bindS_def ret_run)
  then obtain cs4 where cs4: "check_branch E hdr cs3 = (Inr (), cs4)" "?I cs4" by blast
  have "\<exists>t. find_fork_point E hdr cs4 = (Inl (InvalidTip ''Couldn't find a fork point''), t) \<and> ?I t"
    using anc [OF cs4(2)] is_gen gen(2) unfolding find_fork_point_def n
    by (auto simp: bindS_def fail_run)
  then obtain cs5 where cs5: "find_fork_point E hdr cs4 = (Inl (InvalidTip ''Couldn't find a fork point''), cs5)" "?I cs5" by blast
  have "maybe_reorg E hdr cs2 = (Inl (InvalidTip ''Couldn't find a fork point''), cs5)"
    using cs3(1) cs4(1) cs5(1) snapshot_control [OF cs2(2)]
    by (simp add: maybe_reorg_def bindS_def get_best_block_def gets_run same_control_iff)
  with run cs5(2) show ?thesis by simp
qed

end

section \<open>Properties\<close>



text \<open>C22. The work of the best chain, computed from the first block of each period of 2016 blocks, is the sum of
  the works of all its blocks when blocks of the same period have the same work, as on a network
  without minimum-difficulty blocks, and the sum fits 256 bits.\<close>

theorem branch_work_is_total:
  assumes ready: "flat_ready E X g0 (chainstore cs)" and L: "work_laws (e_lib E)"
    and chain: "indexed_chain (e_lib E) (flat_view (chainstore cs)) hs n" and n: "n < 2 ^ 31"
    and tip: "Option.bind (lookup (chainstore cs) (block_hash (e_lib E) (hs n))) disk_height = Some (of_nat n)"
    and same: "uniform_epochs (e_pow E) hs n" and fits: "total_work (e_pow E) hs 0 n < 2 ^ 256"
  shows "\<exists>w cs'. get_branch_work E (hs n) cs = (Inr w, cs')
    \<and> unat w = (\<Sum>k \<in> {0 .. n}. unat (header_work (e_pow E) (hs k)))"
proof -
  let ?I = "snapshot (flat_ready E X g0) flat_view cs"
  have self: "?I cs" using ready by (simp add: snapshot_def)
  have n': "unat (of_nat n :: u32) = n" using n by (simp add: unat_of_nat)
  from flat.read_branch_work [OF L chain n same, of 0 0] fits obtain w where
    w: "yields ?I (branch_work_loop E (of_nat n) (map (\<lambda>i. of_nat (2016 * i)) [0 ..< Suc (n div 2016)]) 0) (Some w)"
    "unat w = total_work (e_pow E) hs 0 n" by auto
  obtain d where d: "lookup (chainstore cs) (block_hash (e_lib E) (hs n)) = Some d" "disk_height d = Some (of_nat n)"
    using tip by (auto simp: bind_eq_Some_conv)
  have "yields ?I (get_block_height E (block_hash (e_lib E) (hs n))) (Some (Some (of_nat n)))"
    unfolding get_block_height_def
    by (rule yields_then [where a = d])
      (use flat.read_header [of E X g0 cs "block_hash (e_lib E) (hs n)"] d in
        \<open>simp_all add: flat_view_def yields_ret flip: d(2)\<close>)
  moreover have "yields ?I (lift (ok_or BlockNotPresent (Some (of_nat n)))) (Some (of_nat n))" by (rule yields_lifts)
  ultimately have "yields ?I (get_branch_work E (hs n)) (Some w)"
    unfolding get_branch_work_def using w(1) by (auto intro!: yields_then simp: n')
  from yields_SomeD [OF this self] w(2) show ?thesis by (auto simp: total_work_def)
qed

theorem branch_work_is_total_witness:
  "\<exists>cs w cs'. get_branch_work demo_env ((\<lambda>k. if k = 0 then demo_genesis else demo_block) (1 :: nat)) cs = (Inr w, cs')
    \<and> unat w = (\<Sum>k \<in> {0 .. 1 :: nat}. unat (header_work (e_pow demo_env) (if k = 0 then demo_genesis else demo_block)))"
proof -
  obtain cs :: "((hash \<rightharpoonup> disk_block_header) flat_chain_store, nat) chain_state" where cs: "flat_ready demo_env demo_lru (block_hash store_api demo_genesis) (chainstore cs)"
    "lookup (chainstore cs) = [block_hash store_api demo_genesis \<mapsto> FullyValid demo_genesis 0,
        block_hash store_api demo_block \<mapsto> HeadersOnly demo_block 1]"
    "v_hash_at (flat_view (chainstore cs)) = (v_hash_at (flat_view demo_store))(1 \<mapsto> block_hash store_api demo_block)"
    using demo_accept by blast
  have "indexed_chain (e_lib demo_env) (flat_view (chainstore cs)) (\<lambda>k. if k = 0 then demo_genesis else demo_block) 1"
    unfolding indexed_chain_def
  proof (intro allI impI)
    fix k :: nat assume "k \<le> 1"
    then have "k = 0 \<or> k = 1" by auto
    moreover have "v_headers (flat_view (chainstore cs)) = lookup (chainstore cs)" by (simp add: flat_view_def)
    ultimately show "v_hash_at (flat_view (chainstore cs)) (of_nat k) = Some (block_hash (e_lib demo_env) (if k = 0 then demo_genesis else demo_block))
        \<and> map_option header_of (v_headers (flat_view (chainstore cs)) (block_hash (e_lib demo_env) (if k = 0 then demo_genesis else demo_block)))
          = Some (if k = 0 then demo_genesis else demo_block)"
      using cs(2,3) demo_at_genesis demo_hashes_distinct(3) by auto
  qed
  moreover have "work_laws (e_lib demo_env)" using demo_work_laws by (simp add: work_laws_def store_api_def)
  moreover have "uniform_epochs (e_pow demo_env) (\<lambda>k. if k = 0 then demo_genesis else demo_block) 1"
    "total_work (e_pow demo_env) (\<lambda>k. if k = 0 then demo_genesis else demo_block) 0 1 < 2 ^ 256"
    by (simp_all add: uniform_epochs_def total_work_def demo_pow_def)
  ultimately show ?thesis
    using branch_work_is_total [OF cs(1), of "\<lambda>k. if k = 0 then demo_genesis else demo_block" 1] cs(2) by auto
qed

text \<open>C23. A branch that starts at the genesis block never competes with the best chain: a valid header whose
  parent is the genesis block is refused once another tip is known, whatever its work, because the
  search for the fork point stops at the genesis block without looking at it.\<close>

theorem fork_at_genesis_refused:
  assumes ready: "flat_ready E X g0 (chainstore cs)" and new: "lookup (chainstore cs) (block_hash (e_lib E) hdr) = None"
    and valid: "header_valid (e_lib E) (e_pow E) (consensus cs) (flat_view (chainstore cs)) hdr"
    and parent: "prev_blockhash hdr = block_hash (e_lib E) (blk_header (genesis (consensus cs)))"
    and gen: "lookup (chainstore cs) (prev_blockhash hdr) = Some (FullyValid (blk_header (genesis (consensus cs))) 0)"
    and tip: "best_block (best_chain cs) \<noteq> prev_blockhash hdr" "lookup (chainstore cs) (best_block (best_chain cs)) \<noteq> None"
    and fuel: "2 \<le> e_fuel E"
  shows "\<exists>cs'. accept_header E hdr cs = (Inl (InvalidTip ''Couldn't find a fork point''), cs') \<and> same_control cs cs'
    \<and> flat_view (chainstore cs') = flat_view (chainstore cs)"
proof -
  have v: "v_headers (flat_view (chainstore cs)) = lookup (chainstore cs)" by (simp add: flat_view_def)
  from flat.genesis_fork_refused [OF ready, of hdr "blk_header (genesis (consensus cs))" "FullyValid (blk_header (genesis (consensus cs))) 0"]
    new valid parent gen tip fuel v
  show ?thesis by (auto simp: snapshot_def)
qed

theorem fork_at_genesis_refused_witness:
  "\<exists>cs cs'. accept_header demo_env (store_header 3 (block_hash store_api demo_genesis)) cs
      = (Inl (InvalidTip ''Couldn't find a fork point''), cs') \<and> same_control cs cs'
    \<and> flat_view (chainstore cs') = flat_view (chainstore cs)"
proof -
  let ?hdr = "store_header 3 (block_hash store_api demo_genesis)" and ?g = "block_hash store_api demo_genesis"
  obtain cs :: "((hash \<rightharpoonup> disk_block_header) flat_chain_store, nat) chain_state" where cs: "flat_ready demo_env demo_lru ?g (chainstore cs)"
    "lookup (chainstore cs) = [?g \<mapsto> FullyValid demo_genesis 0, block_hash store_api demo_block \<mapsto> HeadersOnly demo_block 1]"
    "same_control (demo_chain\<lparr>best_chain := (best_chain demo_chain)\<lparr>best_block := block_hash store_api demo_block, depth := 1\<rparr>\<rparr>) cs"
    using demo_accept by blast
  have p: "prev_blockhash ?hdr = ?g" by (simp add: store_header_def)
  have neq: "block_hash store_api ?hdr \<noteq> ?g" "block_hash store_api ?hdr \<noteq> block_hash store_api demo_block"
    by (simp_all add: store_api_def demo_genesis_def demo_block_def store_header_def)
  have ctl: "consensus cs = demo_params" "best_block (best_chain cs) = block_hash store_api demo_block"
    using cs(3) by (simp_all add: same_control_iff)
  have gen: "blk_header (genesis demo_params) = demo_genesis" by (simp add: demo_params_def)
  have valid: "header_valid store_api demo_pow demo_params (flat_view (chainstore cs)) ?hdr"
    using cs(2) demo_hashes_distinct(3)
    by (simp add: header_valid_def flat_view_def p required_target_def Let_def demo_pow_def demo_params_def
        bip94_due_def min_header_version_def) (simp add: store_header_def)
  have "\<exists>cs'. accept_header demo_env ?hdr cs = (Inl (InvalidTip ''Couldn't find a fork point''), cs') \<and> same_control cs cs'
    \<and> flat_view (chainstore cs') = flat_view (chainstore cs)"
    by (rule fork_at_genesis_refused [OF cs(1)])
      (use valid cs(2) neq ctl gen p demo_hashes_distinct(3) in simp_all)
  then show ?thesis by blast
qed

end
