(* ===== verification/Chain_Blocks.thy ===== *)
theory Chain_Blocks
  imports Chain_Reorg
begin

text \<open>
  Connecting blocks: the conditions under which \<^verbatim>\<open>connect_block\<close> succeeds, what it then changes, and that it
  changes nothing otherwise; and the block locators.
\<close>

section \<open>Specification\<close>

definition validated_at :: "store_view \<Rightarrow> hash \<Rightarrow> u32 option" where
  "validated_at v h = (case v_headers v h of Some (FullyValid _ k) \<Rightarrow> Some k | _ \<Rightarrow> None)"

text \<open>The height at which a block can be connected when the last validated block is \<open>vi\<close>: it is the next header of
  the chain, or that last block itself.\<close>

definition connect_at :: "store_view \<Rightarrow> hash \<Rightarrow> hash \<Rightarrow> u32 option" where
  "connect_at v vi h =
     (case v_headers v h of
        Some (HeadersOnly _ k) \<Rightarrow> Option.bind (validated_at v vi) (\<lambda>u. if k = u + 1 then Some k else None)
      | Some (FullyValid _ k) \<Rightarrow> Option.bind (validated_at v vi) (\<lambda>u. if k = u then Some k else None)
      | _ \<Rightarrow> None)"

definition connectable ::
  "('s, 'acc, 'prf) state_env \<Rightarrow> store_view \<Rightarrow> ('s, 'acc) chain_state \<Rightarrow> block \<Rightarrow> 'prf \<Rightarrow> utxo_map \<Rightarrow> hash list
   \<Rightarrow> u32 \<Rightarrow> 'acc \<Rightarrow> bool" where
  "connectable E v cs b prf inputs del_hashes height acc \<longleftrightarrow>
     connect_at v (validation_index (best_chain cs)) (block_hash (e_lib E) (blk_header b)) = Some height
   \<and> update_acc (e_lib E) (e_udata E) (stump_modify (e_stump E)) (cs_acc cs) b height prf del_hashes = Inr acc
   \<and> block_valid E (consensus cs) v (assume_valid cs) b height inputs"

text \<open>What a consumer is told about a connected block.\<close>

definition told :: "block \<Rightarrow> u32 \<Rightarrow> utxo_map \<Rightarrow> block_consumer \<Rightarrow> block_consumer" where
  "told b height inputs c = on_block b height (if wants_spent_utxos c then Some inputs else None) c"

section \<open>Steps\<close>

lemma update_view_effect:
  assumes "update_view E k hdr acc cs = (Inr u, cs')"
  shows "same_control (cs\<lparr>cs_acc := acc, best_chain := valid_block (block_hash (e_lib E) hdr) (best_chain cs)\<rparr>) cs'"
proof -
  obtain cs1 cs2 cs3 where "on_store (st_save_header (e_store E) (FullyValid hdr k)) cs = (Inr (), cs1)"
    "on_store (st_update_block_index (e_store E) k (block_hash (e_lib E) hdr)) cs1 = (Inr (), cs2)"
    "on_store (st_save_roots (e_store E) (stump_serialize (e_stump E) acc) k) cs2 = (Inr (), cs3)"
    and cs': "cs' = cs3\<lparr>cs_acc := acc, best_chain := valid_block (block_hash (e_lib E) hdr) (best_chain cs3)\<rparr>"
    using assms unfolding update_view_def by (auto simp: bindS_Inr_iff update_run)
  then have "same_control cs cs1" "same_control cs1 cs2" "same_control cs2 cs3"
    using store_onlyD [OF store_only_on_store] by blast+
  with cs' show ?thesis by (simp add: same_control_iff)
qed

text \<open>Connecting a block is its checks, the update of the view, and what follows the update.\<close>

definition wanted :: "block_consumer list \<Rightarrow> utxo_map \<Rightarrow> utxo_map option" where
  "wanted cons inputs = (if list_ex wants_spent_utxos cons then Some inputs else None)"

definition connect_checks ::
  "('s, 'acc, 'prf) state_env \<Rightarrow> block \<Rightarrow> 'prf \<Rightarrow> utxo_map \<Rightarrow> hash list \<Rightarrow> 'acc
   \<Rightarrow> (('s, 'acc) chain_state, blockchain_error, u32 \<times> 'acc) stm" where
  "connect_checks E b prf inputs del_hashes acc =
     bindS (get_disk_block_header E (block_hash (e_lib E) (blk_header b))) (\<lambda>d. bindS (connect_height E d) (\<lambda>k.
     bindS (lift (update_acc (e_lib E) (e_udata E) (stump_modify (e_stump E)) acc b k prf del_hashes)) (\<lambda>acc.
     bindS (validate_block_no_acc E b k inputs) (\<lambda>_. ret (k, acc)))))"

definition connect_tail ::
  "('s, 'acc, 'prf) state_env \<Rightarrow> block \<Rightarrow> u32 \<Rightarrow> utxo_map option \<Rightarrow> (('s, 'acc) chain_state, blockchain_error, u32) stm" where
  "connect_tail E b k note = bindS is_in_ibd (\<lambda>in_ibd.
     bindS (if \<not> in_ibd \<or> k mod 100000 = 0 then flush E else ret ()) (\<lambda>_. bindS (notify b k note) (\<lambda>_. ret k)))"

lemma connect_block_split:
  "connect_block E b prf inputs del_hashes cs =
     bindS (connect_checks E b prf inputs del_hashes (cs_acc cs)) (\<lambda>(k, acc).
       bindS (update_view E k (blk_header b) acc) (\<lambda>_. connect_tail E b k (wanted (subscribers cs) inputs))) cs"
proof -
  have "bindS (connect_checks E b prf inputs del_hashes (cs_acc cs)) (\<lambda>(k, acc).
       bindS (update_view E k (blk_header b) acc) (\<lambda>_. connect_tail E b k (wanted (subscribers cs) inputs)))
   = bindS (get_disk_block_header E (block_hash (e_lib E) (blk_header b))) (\<lambda>d. bindS (connect_height E d) (\<lambda>k.
     bindS (lift (update_acc (e_lib E) (e_udata E) (stump_modify (e_stump E)) (cs_acc cs) b k prf del_hashes)) (\<lambda>acc.
     bindS (validate_block_no_acc E b k inputs) (\<lambda>_.
     bindS (update_view E k (blk_header b) acc) (\<lambda>_. connect_tail E b k (wanted (subscribers cs) inputs))))))"
    by (simp add: connect_checks_def bindS_assoc)
  moreover have "connect_block E b prf inputs del_hashes cs = \<dots> cs"
    unfolding connect_block_def
  proof (intro bindS_cong)
    fix d t k u assume "get_disk_block_header E (block_hash (e_lib E) (blk_header b)) cs = (Inr d, t)"
      "connect_height E d t = (Inr k, u)"
    then have "cs_acc u = cs_acc cs" "subscribers u = subscribers cs"
      using store_onlyD [OF store_only_queries(2)] store_onlyD [OF store_only_validate_block(3)]
      by (metis same_control_iff)+
    then show "bindS (gets (\<lambda>cs. if list_ex wants_spent_utxos (subscribers cs) then Some inputs else None)) (\<lambda>note.
       bindS (gets cs_acc) (\<lambda>acc.
       bindS (lift (update_acc (e_lib E) (e_udata E) (stump_modify (e_stump E)) acc b k prf del_hashes)) (\<lambda>acc.
       bindS (validate_block_no_acc E b k inputs) (\<lambda>_.
       bindS (update_view E k (blk_header b) acc) (\<lambda>_.
       bindS is_in_ibd (\<lambda>in_ibd.
       bindS (if \<not> in_ibd \<or> k mod 100000 = 0 then flush E else ret ()) (\<lambda>_.
       bindS (notify b k note) (\<lambda>_. ret k)))))))) u
     = bindS (lift (update_acc (e_lib E) (e_udata E) (stump_modify (e_stump E)) (cs_acc cs) b k prf del_hashes)) (\<lambda>acc.
       bindS (validate_block_no_acc E b k inputs) (\<lambda>_.
       bindS (update_view E k (blk_header b) acc) (\<lambda>_. connect_tail E b k (wanted (subscribers cs) inputs)))) u"
      by (simp add: bindS_gets wanted_def connect_tail_def)
  qed
  ultimately show ?thesis by simp
qed

context header_store
begin

lemma read_connect_height:
  "yields (snapshot sinv view cs0) (bindS (get_disk_block_header E h) (connect_height E))
     (connect_at (view (chainstore cs0)) (validation_index (best_chain cs0)) h)"
proof -
  let ?I = "snapshot sinv view cs0" and ?v = "view (chainstore cs0)" and ?vi = "validation_index (best_chain cs0)"
  have vi: "yields ?I (get_validation_index E) (validated_at ?v ?vi)"
    using read_validation_index [of cs0] by (simp add: validated_at_def)
  have gen: "yields ?I (bindS (get_validation_index E) (\<lambda>u. if k \<noteq> f u then fail e else ret k))
      (Option.bind (validated_at ?v ?vi) (\<lambda>u. if k = f u then Some k else None))" for k f and e :: blockchain_error
    by (rule yields_bind [OF vi]) (simp add: yields_ret yields_fail)
  have "yields ?I (connect_height E d) (case d of
        HeadersOnly _ k \<Rightarrow> Option.bind (validated_at ?v ?vi) (\<lambda>u. if k = u + 1 then Some k else None)
      | FullyValid _ k \<Rightarrow> Option.bind (validated_at ?v ?vi) (\<lambda>u. if k = u then Some k else None)
      | _ \<Rightarrow> None)" for d
    using gen [of _ "\<lambda>u. u"] gen [of _ "\<lambda>u. u + 1"]
    by (cases d) (simp_all add: connect_height_def yields_fail)
  note body = this
  have "connect_at ?v ?vi h = Option.bind (v_headers ?v h) (\<lambda>d. case d of
        HeadersOnly _ k \<Rightarrow> Option.bind (validated_at ?v ?vi) (\<lambda>u. if k = u + 1 then Some k else None)
      | FullyValid _ k \<Rightarrow> Option.bind (validated_at ?v ?vi) (\<lambda>u. if k = u then Some k else None)
      | _ \<Rightarrow> None)"
    by (simp add: connect_at_def split: option.splits)
  then show ?thesis by (simp only:) (intro yields_bind read_header body)
qed

lemma read_connect_checks:
  "yields (snapshot sinv view cs) (connect_checks E b prf inputs del_hashes (cs_acc cs))
     (Option.bind (connect_at (view (chainstore cs)) (validation_index (best_chain cs)) (block_hash (e_lib E) (blk_header b))) (\<lambda>k.
      Option.bind (ok (update_acc (e_lib E) (e_udata E) (stump_modify (e_stump E)) (cs_acc cs) b k prf del_hashes)) (\<lambda>acc.
      Option.bind (if block_valid E (consensus cs) (view (chainstore cs)) (assume_valid cs) b k inputs then Some () else None) (\<lambda>_.
      Some (k, acc)))))"
  unfolding connect_checks_def bindS_assoc [symmetric]
  by (intro yields_bind read_connect_height yields_lift read_validate_block yields_ret)

lemma read_connect:
  assumes inv: "sinv (chainstore cs)"
  shows "connect_block E b prf inputs del_hashes cs = (r, cs') \<Longrightarrow>
    (\<nexists>k acc. connectable E (view (chainstore cs)) cs b prf inputs del_hashes k acc) \<Longrightarrow>
      (\<exists>e. r = Inl e) \<and> snapshot sinv view cs cs'"
    and "connect_block E b prf inputs del_hashes cs = (Inr k, cs') \<Longrightarrow>
      \<exists>acc cs1 cs2. connectable E (view (chainstore cs)) cs b prf inputs del_hashes k acc \<and> snapshot sinv view cs cs1
        \<and> update_view E k (blk_header b) acc cs1 = (Inr (), cs2) \<and> connect_tail E b k (wanted (subscribers cs) inputs) cs2 = (Inr k, cs')"
    and "connectable E (view (chainstore cs)) cs b prf inputs del_hashes k acc \<Longrightarrow>
      \<exists>cs1. snapshot sinv view cs cs1 \<and> connect_block E b prf inputs del_hashes cs =
        bindS (update_view E k (blk_header b) acc) (\<lambda>_. connect_tail E b k (wanted (subscribers cs) inputs)) cs1"
proof -
  let ?I = "snapshot sinv view cs" and ?v = "view (chainstore cs)"
  let ?checks = "connect_checks E b prf inputs del_hashes (cs_acc cs)"
  note pre = read_connect_checks [of cs b "prf" inputs del_hashes]
  note split = connect_block_split [of E b "prf" inputs del_hashes cs]
  have self: "?I cs" using inv by (simp add: snapshot_def)
  show "\<exists>cs1. ?I cs1 \<and> connect_block E b prf inputs del_hashes cs =
        bindS (update_view E k (blk_header b) acc) (\<lambda>_. connect_tail E b k (wanted (subscribers cs) inputs)) cs1"
    if c: "connectable E ?v cs b prf inputs del_hashes k acc"
  proof -
    have "yields ?I ?checks (Some (k, acc))" using pre c by (simp add: connectable_def)
    from yields_SomeD [OF this self] obtain cs1 where "?checks cs = (Inr (k, acc), cs1)" "?I cs1" by blast
    with split show ?thesis by (auto simp: bindS_ok [of ?checks])
  qed
  show "(\<exists>e. r = Inl e) \<and> ?I cs'" if cs': "connect_block E b prf inputs del_hashes cs = (r, cs')"
    and no: "\<nexists>k acc. connectable E ?v cs b prf inputs del_hashes k acc"
  proof -
    have "yields ?I ?checks None"
      using pre no by (auto simp: connectable_def ok_def split: bind_splits sum.splits elim!: back_subst [of "yields _ _"])
    from yields_NoneD [OF this self] obtain e t where "?checks cs = (Inl e, t)" "?I t" by blast
    with split cs' show ?thesis by (auto simp: bindS_err [of ?checks])
  qed
  show "\<exists>acc cs1 cs2. connectable E ?v cs b prf inputs del_hashes k acc \<and> ?I cs1
        \<and> update_view E k (blk_header b) acc cs1 = (Inr (), cs2) \<and> connect_tail E b k (wanted (subscribers cs) inputs) cs2 = (Inr k, cs')"
    if cs': "connect_block E b prf inputs del_hashes cs = (Inr k, cs')"
  proof -
    from cs' split obtain j acc cs1 cs2 where c: "?checks cs = (Inr (j, acc), cs1)"
      "update_view E j (blk_header b) acc cs1 = (Inr (), cs2)" "connect_tail E b j (wanted (subscribers cs) inputs) cs2 = (Inr k, cs')"
      by (auto simp: bindS_Inr_iff)
    moreover have "j = k" using c(3) by (auto simp: connect_tail_def bindS_Inr_iff ret_run)
    moreover have "connectable E ?v cs b prf inputs del_hashes j acc" "?I cs1"
      using yields_InrD [OF pre self c(1)] by (auto simp: connectable_def ok_def split: bind_splits if_splits sum.splits)
    ultimately show ?thesis by blast
  qed
qed

end

lemma after_connect:
  assumes "connect_tail E b k (wanted (subscribers cs) inputs) cs = (Inr k, cs')"
  shows "same_control (cs\<lparr>subscribers := map (told b k inputs) (subscribers cs)\<rparr>) cs'"
proof -
  let ?note = "wanted (subscribers cs) inputs"
  obtain cs1 where cs1: "(if ibd cs \<noteq> Done \<longrightarrow> k mod 100000 = 0 then flush E else ret ()) cs = (Inr (), cs1)"
    and cs': "notify b k ?note cs1 = (Inr (), cs')"
    using assms by (auto simp: connect_tail_def bindS_Inr_iff ret_run is_in_ibd_def gets_run)
  have "same_control cs cs1"
    using cs1 store_onlyD [OF store_only_roots(3)] store_onlyD [OF store_only_basic(1)] by (auto split: if_splits)
  moreover have "(if wants_spent_utxos c then on_block b k ?note c else on_block b k None c) = told b k inputs c"
    if "c \<in> set (subscribers cs)" for c
    using that by (auto simp: told_def wanted_def list_ex_iff)
  ultimately show ?thesis using cs' by (auto simp: notify_def update_run same_control_iff)
qed

section \<open>Connecting on the flat store\<close>

text \<open>Room for a block and its accumulator, and a store whose writes reach the disk.\<close>

definition flat_block_room :: "'c flat_chain_store \<Rightarrow> u32 \<Rightarrow> hash \<Rightarrow> bool" where
  "flat_block_room s k h \<longleftrightarrow> flat_room s k h \<and> validated_height s \<noteq> None \<and> length (accumulator_file s) < 2 ^ 32"

definition flat_synced :: "('c flat_chain_store, 'acc, 'prf) state_env \<Rightarrow> 'c lru_api \<Rightarrow> bool" where
  "flat_synced E X \<longleftrightarrow> (\<exists>visit header_size lens. e_store E = flat_ops (e_lib E) X visit
     \<lparr>sync_headers = Inr (), sync_index = Inr (), sync_fork = Inr (), sync_metadata = Inr ()\<rparr> header_size lens)"

lemma flat_block_saved:
  assumes inv: "flat_inv L X g0 s" and room: "flat_block_room s k h"
    and d: "storable L g0 (FullyValid hdr k)" "h = block_hash L hdr"
    and n: "roots \<noteq> []" "length roots \<le> MAX_ACCUMULATOR_SIZE"
  shows "\<exists>s1 s2 s3. flat_save_header L X (FullyValid hdr k) s = (Inr (), s1) \<and> flat_update_block_index k h s1 = (Inr (), s2)
    \<and> flat_save_roots_for_block X roots k s2 = (Inr (), s3) \<and> flat_inv L X g0 s3
    \<and> lookup s3 = (lookup s)(h \<mapsto> FullyValid hdr k) \<and> flat_load_roots_for_block k s3 = Inr (Some roots)"
proof -
  let ?d = "FullyValid hdr k"
  have hash: "disk_block_hash L ?d = h" using d(2) by (simp add: disk_block_hash_def)
  have r: "k \<noteq> 0" "unat k < 2 ^ 31" "unat k < length (hdr_file s)" "has_room s" "vacant s k h"
    using room by (simp_all add: flat_block_room_def flat_room_def)
  have ons: "on_best_chain ?d" "disk_height ?d = Some k" by simp_all
  from flat_connect_succeeds [OF inv d(1) ons r(1,3,2,4)] obtain s1 s2 where
    run: "flat_save_header L X ?d s = (Inr (), s1)" "flat_update_block_index k h s1 = (Inr (), s2)"
    unfolding hash by blast
  note con = flat_connect_ok [OF inv d(1) ons r(1) _ run(1), unfolded hash, OF r(5) run(2)]
  have look: "lookup s2 = (lookup s)(h \<mapsto> ?d)" and live: "live s2 h = k" using con(2) by (simp_all add: recorded_def)
  have at: "get_disk_header s2 k = Inr (slot s2 k)"
    using live_slot [OF flat_inv_table [OF con(1)], of h ?d] look live by simp
  have "md_validation_index (meta s2) = md_validation_index (meta s)"
    using flat_connect_meta [OF run(1) ons(1) run(2)] by auto
  then have "validated_height s2 \<noteq> None"
    using room look by (cases "md_validation_index (meta s) = h") (auto simp: flat_block_room_def validated_height_def)
  then obtain v where v: "validated_height s2 = Some v" by blast
  have "length (accumulator_file s2) < 2 ^ 32"
    using flat_connect_accumulators [OF run(1) ons(1) run(2)] room by (simp add: flat_block_room_def)
  from roots_saved [OF con(1) v r(2) at n this] obtain s3 where "flat_save_roots_for_block X roots k s2 = (Inr (), s3)"
    "flat_load_roots_for_block k s3 = Inr (Some roots)" "flat_inv L X g0 s3" "lookup s3 = lookup s2" by blast
  with run look show ?thesis by auto
qed

lemma flat_room_snapshot:
  assumes "snapshot (flat_ready E X g0) flat_view cs cs1"
  shows "lookup (chainstore cs1) = lookup (chainstore cs)"
  using arg_cong [of _ _ v_headers, OF assms [unfolded snapshot_def, THEN conjunct2, THEN conjunct1]] by (simp add: flat_view_def)

interpretation flat_block: header_store E "\<lambda>s. flat_ready E X g0 s \<and> flat_block_room s k h" flat_view
  for E :: "('c flat_chain_store, 'acc, 'prf) state_env" and X :: "'c lru_api" and g0 k h
proof
  fix s :: "'c flat_chain_store" and g j
  assume s: "flat_ready E X g0 s \<and> flat_block_room s k h"
  then obtain visit io header_size lens where E: "e_store E = flat_ops (e_lib E) X visit io header_size lens"
    and inv: "flat_inv (e_lib E) X g0 s" by (auto simp: flat_ready_def)
  from flat.get_header_law [of E X g0 s g] s obtain t where
    t: "st_get_header (e_store E) g s = (Inr (v_headers (flat_view s) g), t)" "flat_ready E X g0 t" "flat_view t = flat_view s"
    by blast
  have run: "flat_get_header X g s = (Inr (v_headers (flat_view s) g), t)" using t(1) by (simp add: E flat_ops_def)
  have "lookup t = lookup s" using arg_cong [OF t(3), of v_headers] by (simp add: flat_view_def)
  then have "flat_block_room t k h"
    using flat_room_read [OF inv run] flat_get_header_files [OF run] s
    by (simp add: flat_block_room_def validated_height_def)
  with t s show "\<exists>t. st_get_header (e_store E) g s = (Inr (v_headers (flat_view s) g), t)
      \<and> (flat_ready E X g0 t \<and> flat_block_room t k h) \<and> flat_view t = flat_view s"
    by blast
  show "\<exists>r. st_get_block_hash (e_store E) j s = (r, s) \<and> v_hash_at (flat_view s) j = Option.bind (ok r) id"
    "\<exists>r. st_get_header_by_height (e_store E) j s = (r, s) \<and> v_header_at (flat_view s) j = Option.bind (ok r) id"
    "\<exists>r. st_load_roots (e_store E) j s = (r, s) \<and> v_roots (flat_view s) j = ok r"
    using flat.get_block_hash_law flat.get_header_by_height_law flat.load_roots_law s by blast+
qed

lemma flush_succeeds:
  assumes E: "flat_synced E X" and inv: "flat_inv (e_lib E) X g0 (chainstore cs)"
  shows "\<exists>cs'. flush E cs = (Inr (), cs') \<and> same_control cs cs' \<and> flat_inv (e_lib E) X g0 (chainstore cs')
    \<and> lookup (chainstore cs') = lookup (chainstore cs)
    \<and> (\<forall>k. flat_load_roots_for_block k (chainstore cs') = flat_load_roots_for_block k (chainstore cs))"
proof -
  let ?io = "\<lparr>sync_headers = Inr (), sync_index = Inr (), sync_fork = Inr (), sync_metadata = Inr ()\<rparr>"
  let ?s = "do_save_height (best_chain cs) (chainstore cs)"
  obtain t where t: "do_flush X ?io ?s = (Inr (), t)" by (auto simp: do_flush_def)
  note saved = save_height_inv [OF inv, of "best_chain cs"]
  note fl = flush_inv [OF saved(1) t]
  have "flush E cs = (Inr (), cs\<lparr>chainstore := t\<rparr>)"
    using E t by (auto simp: flat_synced_def flush_def bindS_def gets_run on_store_def flat_ops_def map_err_def)
  moreover have "get_disk_header ?s = get_disk_header (chainstore cs)"
    by (rule get_disk_header_cong) (simp_all add: do_save_height_def)
  then have "flat_load_roots_for_block k t = flat_load_roots_for_block k (chainstore cs)" for k
    using fl(3,4) by (simp add: flat_load_roots_for_block_def do_save_height_def Let_def cong: if_cong)
  ultimately show ?thesis using fl(1,2) saved(2) by (intro exI [of _ "cs\<lparr>chainstore := t\<rparr>"]) auto
qed

lemma block_connects:
  assumes ready: "flat_ready E X g0 (chainstore cs)" and E: "flat_synced E X"
    and c: "connectable E (flat_view (chainstore cs)) cs b prf inputs del_hashes k acc"
    and room: "flat_block_room (chainstore cs) k h" and h: "h = block_hash (e_lib E) (blk_header b)" "h \<noteq> g0" "h \<noteq> all_zeros"
    and n: "stump_serialize (e_stump E) acc \<noteq> []" "length (stump_serialize (e_stump E) acc) \<le> MAX_ACCUMULATOR_SIZE"
  shows "\<exists>cs'. connect_block E b prf inputs del_hashes cs = (Inr k, cs') \<and> flat_ready E X g0 (chainstore cs')
    \<and> lookup (chainstore cs') = (lookup (chainstore cs))(h \<mapsto> FullyValid (blk_header b) k)
    \<and> flat_load_roots_for_block k (chainstore cs') = Inr (Some (stump_serialize (e_stump E) acc))"
proof -
  let ?note = "wanted (subscribers cs) inputs"
  have "flat_ready E X g0 (chainstore cs) \<and> flat_block_room (chainstore cs) k h" using ready room by blast
  from flat_block.read_connect(3) [OF this c] obtain cs1 where
    snap: "snapshot (\<lambda>s. flat_ready E X g0 s \<and> flat_block_room s k h) flat_view cs cs1"
    and run: "connect_block E b prf inputs del_hashes cs =
        bindS (update_view E k (blk_header b) acc) (\<lambda>_. connect_tail E b k ?note) cs1" by blast
  have inv1: "flat_inv (e_lib E) X g0 (chainstore cs1)" and room1: "flat_block_room (chainstore cs1) k h"
    using snap by (simp_all add: snapshot_def flat_ready_def)
  have look1: "lookup (chainstore cs1) = lookup (chainstore cs)"
    using arg_cong [of _ _ v_headers, OF snap [unfolded snapshot_def, THEN conjunct2, THEN conjunct1]] by (simp add: flat_view_def)
  have sto: "storable (e_lib E) g0 (FullyValid (blk_header b) k)" using h by (simp add: storable_def disk_block_hash_def)
  from flat_block_saved [OF inv1 room1 sto h(1) n] obtain s1 s2 s3 where
    saves: "flat_save_header (e_lib E) X (FullyValid (blk_header b) k) (chainstore cs1) = (Inr (), s1)"
      "flat_update_block_index k h s1 = (Inr (), s2)"
      "flat_save_roots_for_block X (stump_serialize (e_stump E) acc) k s2 = (Inr (), s3)"
    and res: "flat_inv (e_lib E) X g0 s3" "lookup s3 = (lookup (chainstore cs1))(h \<mapsto> FullyValid (blk_header b) k)"
      "flat_load_roots_for_block k s3 = Inr (Some (stump_serialize (e_stump E) acc))"
    by blast
  let ?cs2 = "cs1\<lparr>chainstore := s3, cs_acc := acc, best_chain := valid_block h (best_chain cs1)\<rparr>"
  have upd: "update_view E k (blk_header b) acc cs1 = (Inr (), ?cs2)"
    using E saves h(1) by (auto simp: flat_synced_def update_view_def bindS_def on_store_def flat_ops_def map_err_def update_run)
  obtain cs3 where cs3: "(if \<not> (ibd ?cs2 \<noteq> Done) \<or> k mod 100000 = 0 then flush E else ret ()) ?cs2 = (Inr (), cs3)"
    "flat_inv (e_lib E) X g0 (chainstore cs3)" "lookup (chainstore cs3) = lookup s3"
    "flat_load_roots_for_block k (chainstore cs3) = flat_load_roots_for_block k s3"
    using flush_succeeds [OF E, of g0 ?cs2] res(1) by (cases "\<not> (ibd ?cs2 \<noteq> Done) \<or> k mod 100000 = 0") (auto simp: ret_run)
  obtain cs' where cs': "notify b k ?note cs3 = (Inr (), cs')" "chainstore cs' = chainstore cs3"
    by (simp add: notify_def update_run)
  have "connect_block E b prf inputs del_hashes cs = (Inr k, cs')"
    unfolding run using upd cs3(1) cs'(1) by (auto simp: connect_tail_def bindS_def is_in_ibd_def gets_run ret_run split: if_splits)
  then show ?thesis using cs'(2) cs3 res look1 ready by (auto simp: flat_ready_def)
qed

section \<open>An example block\<close>

text \<open>The example chain after the header of its first block was saved, and that block with a coinbase.\<close>

definition demo_coinbase :: transaction where
  "demo_coinbase = \<lparr>tx_version = 2, lock_time = Blocks 0,
     tx_input = [\<lparr>previous_output = \<lparr>op_txid = all_zeros, op_vout = 0xFFFFFFFF\<rparr>,
       script_sig = [1, 2], sequence = 0xFFFFFFFF, witness = []\<rparr>],
     tx_output = [\<lparr>value_sat = 50, script_pubkey = [1]\<rparr>]\<rparr>"

definition demo_full_block :: block where
  "demo_full_block = \<lparr>blk_header = demo_block, txdata = [demo_coinbase]\<rparr>"

lemma demo_synced: "flat_synced demo_env demo_lru"
  by (auto simp: flat_synced_def demo_env_def)

lemma demo_rules:
  "ok (check_block store_api demo_params demo_full_block 1) \<noteq> None"
  "ok (verify_block_transactions store_api None 1 (HeaderTime t) Map.empty [demo_coinbase] 5000000000 True flags) \<noteq> None"
  "get_subsidy store_api demo_network demo_params 1 = 5000000000"
proof -
  have "\<not> bip34_height (cp_params demo_params) \<le> 1" by (simp add: demo_params_def word_le_nat_alt)
  then show "ok (check_block store_api demo_params demo_full_block 1) \<noteq> None"
    by (simp add: check_block_def check_block_structure_def check_merkle_root_def calculate_root_def root_loop.simps
        legacy_sigop_cost_def demo_full_block_def demo_coinbase_def store_api_def demo_api_def demo_block_def
        store_header_def check_bip34_def Let_def)
  show "ok (verify_block_transactions store_api None 1 (HeaderTime t) Map.empty [demo_coinbase] 5000000000 True flags) \<noteq> None"
    by (simp add: verify_block_transactions_def block_tx_step_def is_final_transaction_def saturating_add_def sigop_cost_def legacy_sigop_cost_def
        verify_coinbase_def validate_script_size_def is_unspendable_def MAX_SCRIPT_SIZE_def total_out_value_def checked_add_def
        insert_outputs_def demo_coinbase_def store_api_def demo_api_def all_zeros_def Let_def)
  show "get_subsidy store_api demo_network demo_params 1 = 5000000000"
    by (simp add: get_subsidy_def demo_params_def store_api_def demo_api_def MAX_SUBSIDY_HALVINGS_def demo_network_def Let_def)
qed

lemma demo_header_saved:
  "\<exists>s. flat_ready demo_env demo_lru (block_hash store_api demo_genesis) s
     \<and> lookup s = [block_hash store_api demo_genesis \<mapsto> FullyValid demo_genesis 0, block_hash store_api demo_block \<mapsto> HeadersOnly demo_block 1]
     \<and> flat_block_room s 1 (block_hash store_api demo_block)"
proof -
  let ?h = "block_hash store_api demo_block" and ?d = "HeadersOnly demo_block 1"
  have hash: "disk_block_hash store_api ?d = ?h" by (simp add: disk_block_hash_def)
  have d: "storable store_api (block_hash store_api demo_genesis) ?d" "on_best_chain ?d" "disk_height ?d = Some 1" "(1 :: u32) \<noteq> 0"
    using demo_storable by simp_all
  note inv = demo_store_inv(1)
  have len: "unat (1 :: u32) < length (hdr_file demo_store)" "unat (1 :: u32) < 2 ^ 31" using demo_store_inv(4) by simp_all
  from flat_connect_succeeds [OF inv d len demo_store_inv(3)] obtain s1 s2 where
    run: "flat_save_header store_api demo_lru ?d demo_store = (Inr (), s1)" "flat_update_block_index 1 ?h s1 = (Inr (), s2)"
    unfolding hash by blast
  note con = flat_connect_ok [OF inv d _ run(1), unfolded hash, OF demo_vacant [OF d(4)] run(2)]
  have new: "block_index_occupancy (meta demo_store) = 0" "index_capacity (meta demo_store) = 4"
    "md_validation_index (meta demo_store) = all_zeros" "accumulator_file demo_store = []"
    by (simp_all add: demo_store_def with_genesis_def create_chain_store_def demo_config_def empty_disk_def truncate_to_pow2_def Let_def)
  have look: "lookup s2 = [block_hash store_api demo_genesis \<mapsto> FullyValid demo_genesis 0, ?h \<mapsto> ?d]"
    using con(2) demo_store_inv(2) by (simp add: recorded_def)
  have "vacant s2 1 ?h" using con(2) demo_live by (auto simp: vacant_def recorded_def)
  moreover have "has_room s2" "md_validation_index (meta s2) = all_zeros"
    using flat_connect_meta [OF run(1) d(2) run(2)] new by (auto simp: has_room_def)
  moreover have "validated_height s2 = Some 0" using look calculation(3) demo_hashes_distinct by (simp add: validated_height_def)
  moreover have "accumulator_file s2 = []" using flat_connect_accumulators [OF run(1) d(2) run(2)] new by simp
  ultimately have "flat_block_room s2 1 ?h" using con(3) len by (simp add: flat_block_room_def flat_room_def)
  moreover have "flat_ready demo_env demo_lru (block_hash store_api demo_genesis) s2"
    using con(1) by (auto simp: flat_ready_def demo_env_def)
  ultimately show ?thesis using look by blast
qed

lemma demo_connectable:
  assumes look: "lookup s = [block_hash store_api demo_genesis \<mapsto> FullyValid demo_genesis 0,
     block_hash store_api demo_block \<mapsto> HeadersOnly demo_block 1]"
  shows "connectable demo_env (flat_view s) (demo_chain\<lparr>chainstore := s\<rparr>) demo_full_block () Map.empty [] 1
     (length (get_block_adds store_api demo_udata demo_full_block 1 (block_hash store_api demo_block)))"
proof -
  have v: "v_headers (flat_view s) = lookup s" by (simp add: flat_view_def)
  have "connect_at (flat_view s) (block_hash store_api demo_genesis) (block_hash store_api demo_block) = Some 1"
    using look demo_hashes_distinct by (simp add: connect_at_def validated_at_def v)
  moreover have "update_acc store_api demo_udata (stump_modify demo_stump) 0 demo_full_block 1 () [] =
      Inr (length (get_block_adds store_api demo_udata demo_full_block 1 (block_hash store_api demo_block)))"
    by (simp add: update_acc_def contains_unspendable_utxo_def demo_stump_def demo_full_block_def map_err_def)
  moreover have "block_valid demo_env demo_params (flat_view s) None demo_full_block 1 Map.empty"
  proof -
    have "block_cutoff demo_params (flat_view s) demo_full_block 1 = Some (HeaderTime (hdr_time demo_block))"
      by (simp add: block_cutoff_def demo_params_def demo_full_block_def word_le_nat_alt)
    then show ?thesis using demo_rules(1,3) demo_rules(2) [of "hdr_time demo_block"]
      by (simp add: block_valid_def scripts_verified_def demo_env_def) (simp add: demo_full_block_def)
  qed
  ultimately show ?thesis by (simp add: connectable_def demo_chain_def demo_env_def demo_full_block_def)
qed

lemma demo_connects:
  "\<exists>s cs'. flat_ready demo_env demo_lru (block_hash store_api demo_genesis) s
     \<and> connect_block demo_env demo_full_block () Map.empty [] (demo_chain\<lparr>chainstore := s\<rparr>) = (Inr 1, cs')"
proof -
  obtain s where s: "flat_ready demo_env demo_lru (block_hash store_api demo_genesis) s" "flat_block_room s 1 (block_hash store_api demo_block)"
    and look: "lookup s = [block_hash store_api demo_genesis \<mapsto> FullyValid demo_genesis 0, block_hash store_api demo_block \<mapsto> HeadersOnly demo_block 1]"
    using demo_header_saved by blast
  let ?cs = "demo_chain\<lparr>chainstore := s\<rparr>"
  have "flat_ready demo_env demo_lru (block_hash store_api demo_genesis) (chainstore ?cs)"
    "connectable demo_env (flat_view (chainstore ?cs)) ?cs demo_full_block () Map.empty [] 1
       (length (get_block_adds store_api demo_udata demo_full_block 1 (block_hash store_api demo_block)))"
    "flat_block_room (chainstore ?cs) 1 (block_hash store_api demo_block)"
    using s demo_connectable [OF look] by simp_all
  from block_connects [OF this(1) demo_synced this(2,3)]
  have "\<exists>cs'. connect_block demo_env demo_full_block () Map.empty [] ?cs = (Inr 1, cs')"
    using demo_hashes_distinct by (auto simp: demo_full_block_def demo_stump_def MAX_ACCUMULATOR_SIZE_def)
  with s(1) show ?thesis by blast
qed

section \<open>Properties\<close>

text \<open>C17. A block is connected at a height only if its header is the next one of the chain after the last validated
  block, or that block itself, the proof takes the accumulator to its new value, and the block passes
  every rule: structure, BIP34, lock times, coins, subsidy, and scripts unless it is at or below an
  assume-valid block of the best chain. Then the accumulator is the new one, the block is the last
  validated one, the tip is unchanged, and every subscriber is told once. A block for which this does
  not hold is refused and nothing changes, in memory or among the stored headers.\<close>

theorem connect_block_exact:
  assumes ready: "flat_ready E X g0 (chainstore cs)"
  shows "(connect_block E b prf inputs del_hashes cs = (Inr k, cs') \<longrightarrow>
      connectable E (flat_view (chainstore cs)) cs b prf inputs del_hashes k (cs_acc cs')
      \<and> best_chain cs' = (best_chain cs)\<lparr>validation_index := block_hash (e_lib E) (blk_header b)\<rparr>
      \<and> subscribers cs' = map (told b k inputs) (subscribers cs))
    \<and> ((\<nexists>k acc. connectable E (flat_view (chainstore cs)) cs b prf inputs del_hashes k acc) \<longrightarrow>
      (\<exists>e cs'. connect_block E b prf inputs del_hashes cs = (Inl e, cs') \<and> same_control cs cs'
        \<and> flat_view (chainstore cs') = flat_view (chainstore cs)))"
proof (intro conjI impI)
  assume run: "connect_block E b prf inputs del_hashes cs = (Inr k, cs')"
  from flat.read_connect(2) [OF ready run] obtain acc cs1 cs2 where
    c: "connectable E (flat_view (chainstore cs)) cs b prf inputs del_hashes k acc"
    and snap: "snapshot (flat_ready E X g0) flat_view cs cs1" and upd: "update_view E k (blk_header b) acc cs1 = (Inr (), cs2)"
    and tail: "connect_tail E b k (wanted (subscribers cs) inputs) cs2 = (Inr k, cs')"
    by blast
  note view = update_view_effect [OF upd]
  have "subscribers cs2 = subscribers cs" using view snap by (simp add: same_control_iff snapshot_def)
  with tail have "same_control (cs2\<lparr>subscribers := map (told b k inputs) (subscribers cs2)\<rparr>) cs'"
    using after_connect by metis
  then have "cs_acc cs' = acc" "best_chain cs' = (best_chain cs)\<lparr>validation_index := block_hash (e_lib E) (blk_header b)\<rparr>"
    "subscribers cs' = map (told b k inputs) (subscribers cs)"
    using view snap by (simp_all add: same_control_iff snapshot_def valid_block_def)
  with c show "connectable E (flat_view (chainstore cs)) cs b prf inputs del_hashes k (cs_acc cs')"
    "best_chain cs' = (best_chain cs)\<lparr>validation_index := block_hash (e_lib E) (blk_header b)\<rparr>"
    "subscribers cs' = map (told b k inputs) (subscribers cs)" by simp_all
next
  assume no: "\<nexists>k acc. connectable E (flat_view (chainstore cs)) cs b prf inputs del_hashes k acc"
  obtain r cs' where run: "connect_block E b prf inputs del_hashes cs = (r, cs')" by fastforce
  from flat.read_connect(1) [OF ready run no] run show
    "\<exists>e cs'. connect_block E b prf inputs del_hashes cs = (Inl e, cs') \<and> same_control cs cs'
        \<and> flat_view (chainstore cs') = flat_view (chainstore cs)"
    by (auto simp: snapshot_def)
qed

theorem connect_block_exact_witness:
  "(\<exists>cs cs'. connect_block demo_env demo_full_block () Map.empty [] cs = (Inr 1, cs')
      \<and> validation_index (best_chain cs') = block_hash store_api demo_block
      \<and> subscribers cs' = map (told demo_full_block 1 Map.empty) (subscribers demo_chain))
    \<and> (\<exists>e cs'. connect_block demo_env demo_full_block () Map.empty [] demo_chain = (Inl e, cs') \<and> same_control demo_chain cs'
        \<and> flat_view (chainstore cs') = flat_view demo_store)"
proof
  obtain s cs' where s: "flat_ready demo_env demo_lru (block_hash store_api demo_genesis) (chainstore (demo_chain\<lparr>chainstore := s\<rparr>))"
    and run: "connect_block demo_env demo_full_block () Map.empty [] (demo_chain\<lparr>chainstore := s\<rparr>) = (Inr 1, cs')"
    using demo_connects by auto
  with connect_block_exact [OF s, of demo_full_block "()" Map.empty "[]" 1 cs']
  have "validation_index (best_chain cs') = block_hash store_api demo_block
      \<and> subscribers cs' = map (told demo_full_block 1 Map.empty) (subscribers demo_chain)"
    by (simp add: demo_full_block_def)
  with run show "\<exists>cs cs'. connect_block demo_env demo_full_block () Map.empty [] cs = (Inr 1, cs')
      \<and> validation_index (best_chain cs') = block_hash store_api demo_block
      \<and> subscribers cs' = map (told demo_full_block 1 Map.empty) (subscribers demo_chain)" by blast
next
  have "connect_at (flat_view demo_store) x (block_hash store_api demo_block) = None" for x
    using demo_unknown by (simp add: connect_at_def flat_view_def)
  then have "\<nexists>k acc. connectable demo_env (flat_view (chainstore demo_chain)) demo_chain demo_full_block () Map.empty [] k acc"
    by (simp add: connectable_def demo_full_block_def)
  with connect_block_exact [of demo_env demo_lru "block_hash store_api demo_genesis" demo_chain demo_full_block "()" Map.empty "[]"] demo_ready
  show "\<exists>e cs'. connect_block demo_env demo_full_block () Map.empty [] demo_chain = (Inl e, cs') \<and> same_control demo_chain cs'
        \<and> flat_view (chainstore cs') = flat_view demo_store" by simp
qed

text \<open>C18. A block that can be connected is connected, whenever the files have room for it and the operating system
  writes them: the call returns its height, the store then holds the block as fully valid, and the
  accumulator after the block is the one read back for its height.\<close>

theorem connectable_block_connects:
  assumes "flat_ready E X g0 (chainstore cs)" and "flat_synced E X"
    and "connectable E (flat_view (chainstore cs)) cs b prf inputs del_hashes k acc"
    and "flat_block_room (chainstore cs) k (block_hash (e_lib E) (blk_header b))"
    and "block_hash (e_lib E) (blk_header b) \<noteq> g0" and "block_hash (e_lib E) (blk_header b) \<noteq> all_zeros"
    and "stump_serialize (e_stump E) acc \<noteq> []" and "length (stump_serialize (e_stump E) acc) \<le> MAX_ACCUMULATOR_SIZE"
  shows "\<exists>cs'. connect_block E b prf inputs del_hashes cs = (Inr k, cs') \<and> flat_ready E X g0 (chainstore cs')
    \<and> lookup (chainstore cs') = (lookup (chainstore cs))(block_hash (e_lib E) (blk_header b) \<mapsto> FullyValid (blk_header b) k)
    \<and> flat_load_roots_for_block k (chainstore cs') = Inr (Some (stump_serialize (e_stump E) acc))"
  by (rule block_connects [OF assms(1-4) refl assms(5-8)])

theorem connectable_block_connects_witness:
  "\<exists>cs cs'. lookup (chainstore cs) (block_hash store_api demo_block) = Some (HeadersOnly demo_block 1)
    \<and> connect_block demo_env demo_full_block () Map.empty [] cs = (Inr 1, cs')
    \<and> lookup (chainstore cs') (block_hash store_api demo_block) = Some (FullyValid demo_block 1)"
proof -
  let ?h = "block_hash store_api demo_block" and ?n = "length (get_block_adds store_api demo_udata demo_full_block 1 (block_hash store_api demo_block))"
  obtain s where s: "flat_ready demo_env demo_lru (block_hash store_api demo_genesis) s" "flat_block_room s 1 ?h"
    and look: "lookup s = [block_hash store_api demo_genesis \<mapsto> FullyValid demo_genesis 0, ?h \<mapsto> HeadersOnly demo_block 1]"
    using demo_header_saved by blast
  let ?cs = "demo_chain\<lparr>chainstore := s\<rparr>"
  have "\<exists>cs'. connect_block demo_env demo_full_block () Map.empty [] ?cs = (Inr 1, cs')
      \<and> flat_ready demo_env demo_lru (block_hash store_api demo_genesis) (chainstore cs')
      \<and> lookup (chainstore cs') = (lookup (chainstore ?cs))(block_hash (e_lib demo_env) (blk_header demo_full_block) \<mapsto> FullyValid (blk_header demo_full_block) 1)
      \<and> flat_load_roots_for_block 1 (chainstore cs') = Inr (Some (stump_serialize (e_stump demo_env) ?n))"
    by (rule connectable_block_connects [OF _ demo_synced])
      (use s demo_connectable [OF look] demo_hashes_distinct in \<open>simp_all add: demo_full_block_def demo_stump_def MAX_ACCUMULATOR_SIZE_def\<close>)
  then obtain cs' where "connect_block demo_env demo_full_block () Map.empty [] ?cs = (Inr 1, cs')"
    "lookup (chainstore cs') ?h = Some (FullyValid demo_block 1)"
    by (auto simp: demo_full_block_def)
  moreover have "lookup (chainstore ?cs) ?h = Some (HeadersOnly demo_block 1)" using look by simp
  ultimately show ?thesis by blast
qed

end
