(* ===== verification/Chain_Locator.thy ===== *)
theory Chain_Locator
  imports Chain_Blocks
begin

text \<open>
  The block locators of the two chain states: the heights they visit, in closed form, and that the loops
  end within their fuel without wrapping around.
\<close>

section \<open>Specification\<close>

text \<open>The distance from the tip of the \<open>j\<close>-th entry: ten steps of one block, then steps that double.\<close>

definition locator_offset :: "nat \<Rightarrow> nat" where
  "locator_offset j = (if j \<le> 10 then j else 2 ^ (j - 9) + 8)"

definition locator_heights :: "u32 \<Rightarrow> u32 list" where
  "locator_heights tip = map (\<lambda>j. of_nat (unat tip - locator_offset j))
     (takeWhile (\<lambda>j. locator_offset j < unat tip) [0 ..< 42])"

definition locator_gap :: "nat \<Rightarrow> nat" where
  "locator_gap j = (if j < 10 then 1 else 2 ^ (j - 9))"

section \<open>The loops\<close>

lemma offset_Suc: "locator_offset (Suc j) = locator_offset j + locator_gap j"
proof (cases "j < 10")
  case False
  then obtain k where "j = k + 10" using le_Suc_ex [of 10 j] by (auto simp: not_less)
  then show ?thesis by (cases k) (simp_all add: locator_offset_def locator_gap_def power_add)
qed (simp add: locator_offset_def locator_gap_def)

lemma offset_bound:
  assumes "locator_offset j < 2 ^ 32"
  shows "j \<le> 40"
proof (rule ccontr)
  assume "\<not> j \<le> 40"
  then have "(2 :: nat) ^ 32 \<le> 2 ^ (j - 9)" by (intro power_increasing) simp_all
  with assms \<open>\<not> j \<le> 40\<close> show False by (simp add: locator_offset_def)
qed

lemma gap_bound: "j \<le> 40 \<Longrightarrow> locator_gap j \<le> 2 ^ 31"
  using power_increasing [of "j - 9" 31 "2 :: nat"] by (auto simp: locator_gap_def)

text \<open>The step a loop computes at entry \<open>j\<close> from the step of the entry before.\<close>

definition locator_step :: "nat \<Rightarrow> u32" where
  "locator_step j = of_nat (if j = 0 then 1 else locator_gap (j - 1))"

lemma step_next: "(if 10 \<le> j then locator_step j * 2 else locator_step j) = locator_step (Suc j)"
proof (cases "j < 10")
  case False
  then obtain k where "j = k + 10" using le_Suc_ex [of 10 j] by (auto simp: not_less)
  then show ?thesis by (cases k) (simp_all add: locator_step_def locator_gap_def power_add)
qed (simp add: locator_step_def locator_gap_def)

lemma step_facts:
  assumes "locator_offset j < T" and "T < 2 ^ 32"
  shows "unat (locator_step (Suc j)) = locator_gap j" and "unat (of_nat (T - locator_offset j) :: u32) = T - locator_offset j"
    and "locator_step (Suc j) < (of_nat (T - locator_offset j) :: u32) \<longleftrightarrow> locator_offset (Suc j) < T"
    and "locator_offset (Suc j) < T \<Longrightarrow>
      (of_nat (T - locator_offset j) :: u32) - locator_step (Suc j) = of_nat (T - locator_offset (Suc j))"
    and "(of_nat (T - locator_offset j) :: u32) \<noteq> 0" and "j < 42"
proof -
  have j: "j \<le> 40" using assms by (intro offset_bound) simp
  have "locator_gap j < 2 ^ 32" using gap_bound [OF j] by simp
  then show g: "unat (locator_step (Suc j)) = locator_gap j" by (simp add: locator_step_def unat_of_nat)
  show t: "unat (of_nat (T - locator_offset j) :: u32) = T - locator_offset j" using assms by (simp add: unat_of_nat del: of_nat_diff)
  show less: "locator_step (Suc j) < (of_nat (T - locator_offset j) :: u32) \<longleftrightarrow> locator_offset (Suc j) < T"
    unfolding word_less_nat_alt g t using assms(1) by (auto simp: offset_Suc)
  show "(of_nat (T - locator_offset j) :: u32) - locator_step (Suc j) = of_nat (T - locator_offset (Suc j))" if "locator_offset (Suc j) < T"
    using that assms(1) by (simp add: locator_step_def offset_Suc of_nat_diff)
  show "(of_nat (T - locator_offset j) :: u32) \<noteq> 0" using t assms(1) by (metis unat_0 zero_less_diff less_numeral_extra(3))
  show "j < 42" using j by simp
qed

lemma heights_step:
  assumes "locator_offset j < T" and "j < 42"
  shows "takeWhile (\<lambda>j. locator_offset j < T) [j ..< 42] = j # takeWhile (\<lambda>j. locator_offset j < T) [Suc j ..< 42]"
  using assms by (simp add: upt_conv_Cons)

lemma heights_end: "\<not> locator_offset j < T \<Longrightarrow> takeWhile (\<lambda>j. locator_offset j < T) [j ..< 42] = []"
  by (cases "j < 42") (simp_all add: upt_conv_Cons)

lemma locator_indexes_ok:
  assumes "locator_offset j < T" and "T < 2 ^ 32" and "length is = j" and "42 \<le> n + j"
  shows "locator_indexes n (of_nat (T - locator_offset j)) (locator_step j) is
    = Some (is @ map (\<lambda>j. of_nat (T - locator_offset j)) (takeWhile (\<lambda>j. locator_offset j < T) [j ..< 42]))"
  using assms
proof (induction n arbitrary: j "is")
  case 0
  then show ?case using step_facts(6) by fastforce
next
  case (Suc n)
  note f = step_facts [OF Suc.prems(1,2)] and h = heights_step [OF Suc.prems(1)]
  let ?is = "is @ [of_nat (T - locator_offset j)]"
  have unfold: "locator_indexes (Suc n) (of_nat (T - locator_offset j)) (locator_step j) is =
      (if locator_offset (Suc j) < T
       then locator_indexes n (of_nat (T - locator_offset (Suc j))) (locator_step (Suc j)) ?is else Some ?is)"
    using f(5) Suc.prems(3) step_next [of j] f(3) f(4) by (auto simp: Let_def word_neq_0_conv)
  show ?case
  proof (cases "locator_offset (Suc j) < T")
    case True
    have "locator_indexes n (of_nat (T - locator_offset (Suc j))) (locator_step (Suc j)) ?is
      = Some (?is @ map (\<lambda>j. of_nat (T - locator_offset j)) (takeWhile (\<lambda>j. locator_offset j < T) [Suc j ..< 42]))"
      by (rule Suc.IH [OF True]) (use Suc.prems in simp_all)
    then show ?thesis unfolding unfold using True h f(6) by simp
  next
    case False
    then show ?thesis unfolding unfold using h f(6) heights_end [OF False] by simp
  qed
qed

lemma locator_indexes_heights: "locator_indexes 43 tip 1 [] = Some (locator_heights tip)"
proof (cases "tip = 0")
  case False
  then have "locator_offset 0 < unat tip" by (simp add: locator_offset_def unat_gt_0)
  from locator_indexes_ok [OF this, of "[]" 43] show ?thesis
    using unsigned_less [of tip, where ?'a = nat] by (simp add: locator_heights_def locator_step_def locator_offset_def)
qed (simp add: locator_heights_def numeral_eq_Suc)

text \<open>The loop of the partial chain visits the same heights.\<close>

lemma pc_locator_ok:
  assumes "locator_offset j < T" and "T < 2 ^ 32" and "length hs = j" and "43 \<le> n + j" and "T < length (pc_blocks pc)"
  shows "pc_locator_loop n E pc (locator_step j) (of_nat (T - locator_offset j)) hs
    = Inr (hs @ map (\<lambda>j. block_hash (e_lib E) (pc_blocks pc ! (T - locator_offset j))) (takeWhile (\<lambda>j. locator_offset j < T) [j ..< 42]))"
  using assms
proof (induction n arbitrary: j hs)
  case 0
  then show ?case using step_facts(6) by fastforce
next
  case (Suc n)
  note f = step_facts [OF Suc.prems(1,2)] and h = heights_step [OF Suc.prems(1)]
  let ?hs = "hs @ [block_hash (e_lib E) (pc_blocks pc ! (T - locator_offset j))]"
  have at: "pc_get_block_hash E pc (of_nat (T - locator_offset j)) = Inr (block_hash (e_lib E) (pc_blocks pc ! (T - locator_offset j)))"
    using f(2) Suc.prems(5) by (simp add: pc_get_block_hash_def del: of_nat_diff)
  have "length ?hs > 10 \<longleftrightarrow> 10 \<le> j" using Suc.prems(3) by auto
  then have unfold: "pc_locator_loop (Suc n) E pc (locator_step j) (of_nat (T - locator_offset j)) hs =
      pc_locator_loop n E pc (locator_step (Suc j)) (saturating_sub (of_nat (T - locator_offset j)) (locator_step (Suc j))) ?hs"
    using f(5) at step_next [of j] by (simp add: Let_def del: of_nat_diff)
  show ?case
  proof (cases "locator_offset (Suc j) < T")
    case True
    have "saturating_sub (of_nat (T - locator_offset j)) (locator_step (Suc j)) = of_nat (T - locator_offset (Suc j))"
      using f(3,4) True by (simp add: saturating_sub_def del: of_nat_diff)
    moreover have "pc_locator_loop n E pc (locator_step (Suc j)) (of_nat (T - locator_offset (Suc j))) ?hs = Inr (?hs @ map (\<lambda>j.
        block_hash (e_lib E) (pc_blocks pc ! (T - locator_offset j))) (takeWhile (\<lambda>j. locator_offset j < T) [Suc j ..< 42]))"
      by (rule Suc.IH [OF True]) (use Suc.prems in simp_all)
    ultimately show ?thesis unfolding unfold using h f(6) by simp
  next
    case False
    then have "saturating_sub (of_nat (T - locator_offset j)) (locator_step (Suc j)) = 0"
      using f(3) by (auto simp: saturating_sub_def not_less simp del: of_nat_diff)
    moreover have "n \<noteq> 0" using Suc.prems(4) f(6) by auto
    then obtain n' where "n = Suc n'" by (cases n) auto
    ultimately show ?thesis unfolding unfold using h f(6) heights_end [OF False] by simp
  qed
qed

lemma pc_locator_heights:
  assumes "unat (current_height pc) < length (pc_blocks pc)"
  shows "pc_get_block_locator E pc = Inr (map (\<lambda>k. block_hash (e_lib E) (pc_blocks pc ! unat k)) (locator_heights (current_height pc)))"
proof (cases "current_height pc = 0")
  case True
  then show ?thesis by (simp add: pc_get_block_locator_def locator_heights_def numeral_eq_Suc)
next
  case False
  let ?T = "unat (current_height pc)" and ?ks = "takeWhile (\<lambda>j. locator_offset j < unat (current_height pc)) [0 ..< 42]"
  have T: "?T < 2 ^ 32" using unsigned_less [of "current_height pc", where ?'a = nat] by simp
  have "locator_offset 0 < ?T" using False by (simp add: locator_offset_def unat_gt_0)
  from pc_locator_ok [OF this T, of "[]" 43 pc E] assms
  have "pc_get_block_locator E pc = Inr (map (\<lambda>j. block_hash (e_lib E) (pc_blocks pc ! (?T - locator_offset j))) ?ks)"
    by (simp add: pc_get_block_locator_def locator_step_def locator_offset_def)
  moreover have "unat (of_nat (?T - locator_offset j) :: u32) = ?T - locator_offset j" for j
    using T by (simp add: unat_of_nat less_imp_diff_less del: of_nat_diff)
  ultimately show ?thesis by (simp add: locator_heights_def comp_def del: of_nat_diff)
qed

context header_store
begin

lemma read_collect_hashes:
  "yields (snapshot sinv view cs0) (collect_hashes E is hs) (Some (hs @ List.map_filter (v_hash_at (view (chainstore cs0))) is))"
proof (induction "is" arbitrary: hs)
  case Nil
  show ?case by (simp add: yields_ret map_filter_simps)
next
  case (Cons i "is")
  have "yields (snapshot sinv view cs0) (bindS (attempt (get_block_hash E i)) (\<lambda>r. collect_hashes E is (case r of Inr h \<Rightarrow> hs @ [h] | Inl _ \<Rightarrow> hs)))
     ((\<lambda>x. Some ((case x of Some h \<Rightarrow> hs @ [h] | None \<Rightarrow> hs) @ List.map_filter (v_hash_at (view (chainstore cs0))) is))
       (v_hash_at (view (chainstore cs0)) i))"
    by (rule yields_attempt [OF read_hash]) (use Cons.IH [of "hs @ [_]"] Cons.IH in simp_all)
  then show ?case by (simp add: map_filter_simps split: option.splits)
qed

lemma read_block_locator:
  "yields (snapshot sinv view cs0) (get_block_locator E)
     (Some (List.map_filter (v_hash_at (view (chainstore cs0))) (locator_heights (depth (best_chain cs0)) @ [0])))"
proof -
  have height: "yields (snapshot sinv view cs0) get_height (Some (depth (best_chain cs0)))"
    unfolding get_height_def by (rule yields_gets) (simp add: snapshot_def same_control_iff)
  show ?thesis
    unfolding get_block_locator_def locator_indexes_heights ok_or_simps
    by (rule yields_then [OF height], rule yields_then [OF yields_lift [of _ "Inr _", unfolded ok_simps]])
      (use read_collect_hashes [of cs0 _ "[]"] in simp)
qed

end

section \<open>Property\<close>

text \<open>C24. A block locator is always returned, and reading it changes nothing: it lists the hashes of the tip and of its
  ten predecessors, then of blocks at distances that double, then of the genesis block, leaving out
  heights the index does not know. The loop makes at most 42 iterations and its steps never wrap around,
  whatever the height. The locator of a partial chain lists its headers at the same heights.\<close>

theorem block_locator_exact:
  assumes "flat_ready E X g0 (chainstore cs)" and "unat (current_height pc) < length (pc_blocks pc)"
  shows "(\<exists>cs'. get_block_locator E cs = (Inr (List.map_filter (v_hash_at (flat_view (chainstore cs)))
        (locator_heights (depth (best_chain cs)) @ [0])), cs') \<and> same_control cs cs' \<and> flat_view (chainstore cs') = flat_view (chainstore cs))
    \<and> pc_get_block_locator E pc = Inr (map (\<lambda>k. block_hash (e_lib E) (pc_blocks pc ! unat k)) (locator_heights (current_height pc)))"
proof
  have "snapshot (flat_ready E X g0) flat_view cs cs" using assms(1) by (simp add: snapshot_def)
  from yields_SomeD [OF flat.read_block_locator this]
  show "\<exists>cs'. get_block_locator E cs = (Inr (List.map_filter (v_hash_at (flat_view (chainstore cs)))
        (locator_heights (depth (best_chain cs)) @ [0])), cs') \<and> same_control cs cs' \<and> flat_view (chainstore cs') = flat_view (chainstore cs)"
    by (auto simp: snapshot_def)
  show "pc_get_block_locator E pc = Inr (map (\<lambda>k. block_hash (e_lib E) (pc_blocks pc ! unat k)) (locator_heights (current_height pc)))"
    by (rule pc_locator_heights [OF assms(2)])
qed

theorem block_locator_exact_witness:
  "\<exists>cs'. get_block_locator demo_env demo_chain = (Inr [block_hash store_api demo_genesis], cs')"
proof -
  have "locator_heights 0 = []" by (simp add: locator_heights_def locator_offset_def takeWhile_eq_Nil_iff)
  with block_locator_exact [of demo_env demo_lru "block_hash store_api demo_genesis" demo_chain
      "\<lparr>current_acc = 0, pc_blocks = [demo_genesis], current_height = 0, final_height = 0, pc_error = None,
        pc_consensus = demo_params, pc_assume_valid = False\<rparr>"] demo_ready demo_at_genesis
  show ?thesis by (auto simp: map_filter_simps)
qed

end
