(* ===== verification/Partial_Rules.thy ===== *)
theory Partial_Rules
  imports Chain_Blocks
begin

text \<open>
  The interval chains of the initial block download: what \<^verbatim>\<open>get_partial_chain\<close> hands out, and which
  failures of block validation \<^verbatim>\<open>process_block\<close> takes into account.
\<close>

section \<open>Scripts\<close>

lemma verify_transaction_unscripted:
  "verify_transaction L (Some v) tx utxos height cutoff False flags = verify_transaction L None tx utxos height cutoff False flags"
  by (simp add: verify_transaction_def)

lemma block_tx_step_unscripted:
  "block_tx_step L (Some v) height cutoff False flags ntx st = block_tx_step L None height cutoff False flags ntx st"
  by (cases ntx; cases st) (simp add: block_tx_step_def Let_def verify_transaction_unscripted)

lemma block_transactions_unscripted:
  "verify_block_transactions L scripts height cutoff utxos txs subsidy False flags
   = verify_block_transactions L scripts' height cutoff utxos txs subsidy False flags"
proof -
  have "block_tx_step L s height cutoff False flags = block_tx_step L None height cutoff False flags" for s
    by (cases s) (simp_all add: fun_eq_iff block_tx_step_unscripted)
  from this [of scripts] this [of scripts'] show ?thesis
    by (simp add: verify_block_transactions_def)
qed

lemma process_block_unscripted:
  assumes "\<not> pc_assume_valid pc"
  shows "process_block (E\<lparr>e_scripts := scripts\<rparr>) b prf inputs del_hashes pc = process_block E b prf inputs del_hashes pc"
proof -
  have "block_flags (E\<lparr>e_scripts := scripts\<rparr>) = block_flags E" by (intro ext) (simp add: block_flags_def)
  then have "pc_validate_block (E\<lparr>e_scripts := scripts\<rparr>) pc b k inputs = pc_validate_block E pc b k inputs" for k
    using assms by (simp add: pc_validate_block_def Let_def block_transactions_unscripted [of "e_lib E" scripts _ _ _ _ _ _ "e_scripts E"])
  moreover have "e_lib (E\<lparr>e_scripts := scripts\<rparr>) = e_lib E" "e_udata (E\<lparr>e_scripts := scripts\<rparr>) = e_udata E"
    "e_stump (E\<lparr>e_scripts := scripts\<rparr>) = e_stump E" by simp_all
  ultimately show ?thesis unfolding process_block_def Let_def by (simp only:)
qed

section \<open>The headers of an interval\<close>

context header_store
begin

lemma read_partial_headers:
  "yields (snapshot sinv view cs0) (partial_chain_headers E ks blks)
     (if \<forall>k \<in> set ks. Option.bind (v_hash_at (view (chainstore cs0)) k) (v_headers (view (chainstore cs0))) \<noteq> None
      then Some (blks @ map (\<lambda>k. header_of (the (Option.bind (v_hash_at (view (chainstore cs0)) k) (v_headers (view (chainstore cs0)))))) ks)
      else None)"
proof (induction ks arbitrary: blks)
  case Nil
  show ?case by (simp add: yields_ret)
next
  case (Cons k ks)
  let ?v = "view (chainstore cs0)"
  let ?at = "\<lambda>k. Option.bind (v_hash_at ?v k) (v_headers ?v)"
  let ?rest = "\<lambda>x. case x of None \<Rightarrow> None | Some d \<Rightarrow>
     if \<forall>k \<in> set ks. ?at k \<noteq> None then Some ((blks @ [header_of d]) @ map (\<lambda>k. header_of (the (?at k))) ks) else None"
  have "yields (snapshot sinv view cs0) (bindS (attempt (bindS (get_block_hash E k) (get_disk_block_header E))) (\<lambda>r.
     case r of Inr d \<Rightarrow> partial_chain_headers E ks (blks @ [header_of d]) | Inl _ \<Rightarrow> fail (Panicked ''Block should be present'')))
     (?rest (?at k))"
    by (rule yields_attempt [OF yields_bind [OF read_hash read_header]]) (use Cons.IH [of "blks @ [_]"] in \<open>simp_all add: yields_fail\<close>)
  moreover have "?rest (?at k) = (if \<forall>k \<in> set (k # ks). ?at k \<noteq> None
      then Some (blks @ map (\<lambda>k. header_of (the (?at k))) (k # ks)) else None)"
    by (cases "?at k") simp_all
  ultimately show ?case by (simp only: partial_chain_headers.simps)
qed

lemma read_partial_chain:
  assumes "sinv (chainstore cs)" and run: "get_partial_chain E initial fin acc cs = (Inr pc, cs')"
  shows "current_height pc = initial \<and> final_height pc = fin \<and> current_acc pc = acc \<and> pc_error pc = None
    \<and> pc_consensus pc = consensus cs \<and> \<not> pc_assume_valid pc \<and> length (pc_blocks pc) = Suc (unat fin)
    \<and> (\<forall>k \<le> fin. \<exists>h d. v_hash_at (view (chainstore cs)) k = Some h \<and> v_headers (view (chainstore cs)) h = Some d
        \<and> pc_blocks pc ! unat k = header_of d)"
proof -
  let ?v = "view (chainstore cs)" and ?ks = "map of_nat [0 ..< Suc (unat fin)] :: u32 list"
  have "snapshot sinv view cs cs" using assms(1) by (simp add: snapshot_def)
  obtain blks cs1 where heads: "partial_chain_headers E ?ks [] cs = (Inr blks, cs1)"
    and pc: "pc = \<lparr>current_acc = acc, pc_blocks = blks, current_height = initial, final_height = fin, pc_error = None,
      pc_consensus = consensus cs1, pc_assume_valid = False\<rparr>"
    using run by (auto simp: get_partial_chain_def bindS_Inr_iff gets_run ret_run)
  from yields_InrD [OF read_partial_headers \<open>snapshot sinv view cs cs\<close> heads]
  have all: "\<forall>k \<in> set ?ks. Option.bind (v_hash_at ?v k) (v_headers ?v) \<noteq> None"
    and blks: "blks = map (\<lambda>k. header_of (the (Option.bind (v_hash_at ?v k) (v_headers ?v)))) ?ks"
    and cs1: "snapshot sinv view cs cs1"
    by (auto split: if_splits)
  have "\<exists>h d. v_hash_at ?v k = Some h \<and> v_headers ?v h = Some d \<and> blks ! unat k = header_of d" if "k \<le> fin" for k
  proof -
    have "unat k < Suc (unat fin)" using that by (simp add: word_le_nat_alt)
    then have "?ks ! unat k = k" "unat k < length ?ks" by (simp_all del: upt_Suc)
    moreover from this have "k \<in> set ?ks" by (metis nth_mem)
    with all obtain d where d: "Option.bind (v_hash_at ?v k) (v_headers ?v) = Some d" by blast
    ultimately have "blks ! unat k = header_of d" unfolding blks by (simp del: upt_Suc)
    with d show ?thesis by (auto simp: bind_eq_Some_conv)
  qed
  moreover have "consensus cs1 = consensus cs" using cs1 by (simp add: snapshot_def same_control_iff)
  ultimately show ?thesis unfolding pc by (simp add: blks del: upt_Suc)
qed

end

section \<open>The blocks that are refused\<close>

lemma process_block_Inr:
  "process_block E b prf inputs del_hashes pc = (Inr k, pc') \<longleftrightarrow>
     k = current_height pc + 1 \<and> (\<forall>e. pc_validate_block E pc b k inputs \<noteq> Inl (BlockValidation e))
     \<and> (\<exists>acc. update_acc (e_lib E) (e_udata E) (stump_modify (e_stump E)) (current_acc pc) b k prf del_hashes = Inr acc
          \<and> pc' = update_state k acc pc)"
  by (auto simp: process_block_def Let_def split: sum.splits blockchain_error.splits)

section \<open>A concrete interval\<close>

definition short_coinbase :: transaction where
  "short_coinbase = demo_coinbase\<lparr>tx_input := map (\<lambda>i. i\<lparr>script_sig := []\<rparr>) (tx_input demo_coinbase)\<rparr>"

definition short_coinbase_block :: block where
  "short_coinbase_block = \<lparr>blk_header = demo_block, txdata = [short_coinbase]\<rparr>"

definition demo_interval :: "nat partial_chain_state" where
  "demo_interval = \<lparr>current_acc = 0, pc_blocks = [demo_genesis], current_height = 0, final_height = 0, pc_error = None,
     pc_consensus = demo_params, pc_assume_valid = False\<rparr>"

lemma demo_interval_handed_out: "\<exists>cs'. get_partial_chain demo_env 0 0 0 demo_chain = (Inr demo_interval, cs')"
proof -
  have "flat_ready demo_env demo_lru (block_hash store_api demo_genesis) (chainstore demo_chain)" using demo_ready by simp
  then have I: "snapshot (flat_ready demo_env demo_lru (block_hash store_api demo_genesis)) flat_view demo_chain demo_chain"
    by (simp add: snapshot_def)
  have "Option.bind (v_hash_at (flat_view demo_store) 0) (v_headers (flat_view demo_store)) = Some (FullyValid demo_genesis 0)"
    using demo_at_genesis demo_store_inv(2) by (simp add: flat_view_def)
  then have "yields (snapshot (flat_ready demo_env demo_lru (block_hash store_api demo_genesis)) flat_view demo_chain)
      (partial_chain_headers demo_env [0] []) (Some [demo_genesis])"
    using flat.read_partial_headers [of demo_env demo_lru "block_hash store_api demo_genesis" demo_chain "[0]" "[]"] by simp
  from yields_SomeD [OF this I] obtain t where t: "partial_chain_headers demo_env [0] [] demo_chain = (Inr [demo_genesis], t)"
    "snapshot (flat_ready demo_env demo_lru (block_hash store_api demo_genesis)) flat_view demo_chain t" by blast
  moreover have "consensus t = demo_params" using t(2) by (simp add: snapshot_def same_control_iff)
  ultimately show ?thesis by (simp add: get_partial_chain_def bindS_def gets_def ret_def demo_interval_def)
qed

lemma short_coinbase_rules:
  "\<exists>txids. check_block store_api demo_params short_coinbase_block 1 = Inr txids"
  "\<exists>e. verify_block_transactions store_api None 1 (HeaderTime t) Map.empty [short_coinbase] 5000000000 v flags = Inl (TransactionError e)"
proof -
  have "\<not> bip34_height (cp_params demo_params) \<le> 1" by (simp add: demo_params_def word_le_nat_alt)
  then show "\<exists>txids. check_block store_api demo_params short_coinbase_block 1 = Inr txids"
    by (simp add: check_block_def check_block_structure_def check_merkle_root_def calculate_root_def root_loop.simps
        legacy_sigop_cost_def short_coinbase_block_def short_coinbase_def demo_coinbase_def store_api_def demo_api_def
        demo_block_def store_header_def check_bip34_def Let_def)
  show "\<exists>e. verify_block_transactions store_api None 1 (HeaderTime t) Map.empty [short_coinbase] 5000000000 v flags = Inl (TransactionError e)"
    by (simp add: verify_block_transactions_def block_tx_step_def is_final_transaction_def saturating_add_def sigop_cost_def
        legacy_sigop_cost_def verify_coinbase_def map_err_def short_coinbase_def demo_coinbase_def store_api_def demo_api_def
        all_zeros_def Let_def)
qed

lemma short_coinbase_refused_and_counted:
  "\<exists>e. pc_validate_block demo_env demo_interval short_coinbase_block 1 Map.empty = Inl (TransactionError e)"
  "\<exists>acc. update_acc store_api demo_udata (stump_modify demo_stump) 0 short_coinbase_block 1 () [] = Inr acc"
proof -
  have "\<not> csv_activation_height demo_params \<le> 1" by (simp add: demo_params_def word_le_nat_alt)
  moreover have "prev_blockhash demo_block = block_hash store_api demo_genesis"
    by (simp add: demo_block_def store_header_def)
  moreover have "e_net demo_env = demo_network" by (simp add: demo_env_def)
  moreover obtain txids where "check_block store_api demo_params short_coinbase_block 1 = Inr txids"
    using short_coinbase_rules(1) by blast
  moreover obtain e where "verify_block_transactions store_api None 1 (HeaderTime (hdr_time demo_block)) Map.empty [short_coinbase]
      5000000000 False (block_flags demo_env demo_params 1 short_coinbase_block) = Inl (TransactionError e)"
    using short_coinbase_rules(2) by blast
  moreover have "blk_header short_coinbase_block = demo_block" "txdata short_coinbase_block = [short_coinbase]"
    by (simp_all add: short_coinbase_block_def)
  ultimately show "\<exists>e. pc_validate_block demo_env demo_interval short_coinbase_block 1 Map.empty = Inl (TransactionError e)"
    using demo_rules(3)
    by (simp add: pc_validate_block_def demo_interval_def pc_get_ancestor_def pc_get_block_def ok_or_def
        block_lock_time_cutoff_def Let_def)
  show "\<exists>acc. update_acc store_api demo_udata (stump_modify demo_stump) 0 short_coinbase_block 1 () [] = Inr acc"
    by (simp add: update_acc_def contains_unspendable_utxo_def demo_stump_def short_coinbase_block_def map_err_def)
qed

section \<open>Properties\<close>

text \<open>C25. The interval chain handed out by the chain state holds the header of every height up to the end of the
  interval, and starts at the given height with the given accumulator. It takes a block exactly if validation
  ends in no \<^verbatim>\<open>BlockValidation\<close> error and the proof updates the accumulator: a transaction error is not
  among the reasons to refuse. Contrary to the documentation of \<^verbatim>\<open>assume_valid\<close>, it never runs the script
  verifier: processing a block gives the same result whatever the verifier is.\<close>

theorem interval_chain_checks:
  assumes "flat_ready E X g0 (chainstore cs)" and "get_partial_chain E initial fin acc cs = (Inr pc, cs')"
  shows "current_height pc = initial \<and> current_acc pc = acc \<and> length (pc_blocks pc) = Suc (unat fin)
    \<and> (\<forall>k \<le> fin. \<exists>h d. v_hash_at (flat_view (chainstore cs)) k = Some h \<and> lookup (chainstore cs) h = Some d
        \<and> pc_blocks pc ! unat k = header_of d)
    \<and> (\<forall>k pc'. process_block E b prf inputs del_hashes pc = (Inr k, pc') \<longleftrightarrow>
        k = initial + 1 \<and> (\<forall>e. pc_validate_block E pc b k inputs \<noteq> Inl (BlockValidation e))
        \<and> (\<exists>acc'. update_acc (e_lib E) (e_udata E) (stump_modify (e_stump E)) acc b k prf del_hashes = Inr acc'
            \<and> pc' = update_state k acc' pc))
    \<and> (\<forall>scripts. process_block (E\<lparr>e_scripts := scripts\<rparr>) b prf inputs del_hashes pc = process_block E b prf inputs del_hashes pc)"
  using flat.read_partial_chain [OF assms]
  by (simp add: flat_view_def process_block_Inr process_block_unscripted)

theorem interval_chain_checks_witness:
  "\<exists>pc cs' e pc'. get_partial_chain demo_env 0 0 0 demo_chain = (Inr pc, cs')
     \<and> pc_validate_block demo_env pc short_coinbase_block 1 Map.empty = Inl (TransactionError e)
     \<and> process_block demo_env short_coinbase_block () Map.empty [] pc = (Inr 1, pc')"
proof -
  obtain cs' where run: "get_partial_chain demo_env 0 0 0 demo_chain = (Inr demo_interval, cs')"
    using demo_interval_handed_out by blast
  obtain e acc where e: "pc_validate_block demo_env demo_interval short_coinbase_block 1 Map.empty = Inl (TransactionError e)"
    and acc: "update_acc store_api demo_udata (stump_modify demo_stump) 0 short_coinbase_block 1 () [] = Inr acc"
    using short_coinbase_refused_and_counted by blast
  have "flat_ready demo_env demo_lru (block_hash store_api demo_genesis) (chainstore demo_chain)" using demo_ready by simp
  from interval_chain_checks [OF this run, of short_coinbase_block "()" Map.empty "[]"] e acc
  have "process_block demo_env short_coinbase_block () Map.empty [] demo_interval = (Inr 1, update_state 1 acc demo_interval)"
    by (simp add: demo_env_def)
  with run e show ?thesis by blast
qed

end
