(* ===== verification/Net_Address.thy ===== *)
theory Net_Address
  imports Chain_Params
begin

text \<open>
  Peer addresses: the addresses of rust-bitcoin's \<^verbatim>\<open>AddrV2\<close>, \<^verbatim>\<open>BitcoinSocketAddr\<close>, and the
  \<^verbatim>\<open>LocalAddress\<close> of \<^verbatim>\<open>address_man.rs\<close> with its reachability rules and the form it takes on disk.
  The clock and the random numbers are arguments. \<^verbatim>\<open>ServiceFlags::has\<close> and the flags of rust-bitcoin
  are fields of \<open>wire_api\<close>.
\<close>

section \<open>Definitions\<close>

datatype ipv4 = Ipv4Addr u8 u8 u8 u8

text \<open>The eight segments of an IPv6 address.\<close>

datatype ipv6 = Ipv6Addr u16 u16 u16 u16 u16 u16 u16 u16

datatype addr_v2 =
    AddrIpv4 ipv4
  | AddrIpv6 ipv6
  | AddrTorV2 bytes
  | AddrTorV3 bytes
  | AddrI2p bytes
  | AddrCjdns ipv6
  | AddrUnknown u8 bytes

record bitcoin_socket_addr =
  sa_address :: addr_v2
  sa_port :: u16

record wire_api =
  flag_none :: u64
  flag_witness :: u64
  flag_compact_filters :: u64
  flag_network_limited :: u64
  flag_has :: "u64 \<Rightarrow> u64 \<Rightarrow> bool"

datatype address_state = NeverTried | Tried u64 | Banned u64 | Connected | Failed u64

datatype reachable_networks = IPv4 | IPv6 | TorV3 | I2P | Cjdns

record local_address =
  la_address :: bitcoin_socket_addr
  last_connected :: u64
  la_state :: address_state
  la_services :: u64
  la_id :: usize

definition local_from_socket_addr :: "wire_api \<Rightarrow> u64 \<Rightarrow> u64 \<Rightarrow> bitcoin_socket_addr \<Rightarrow> local_address" where
  "local_from_socket_addr N now rnd a =
     \<lparr>la_address = a, last_connected = now, la_state = NeverTried, la_services = flag_none N, la_id = rnd\<rparr>"

text \<open>The fields of \<^verbatim>\<open>AddrV2Message\<close>: time, services, address and port.\<close>

definition local_from_addr_v2_message :: "u64 \<Rightarrow> u32 \<Rightarrow> u64 \<Rightarrow> addr_v2 \<Rightarrow> u16 \<Rightarrow> local_address" where
  "local_from_addr_v2_message rnd time services a port =
     \<lparr>la_address = \<lparr>sa_address = a, sa_port = port\<rparr>, last_connected = ucast time, la_state = NeverTried,
      la_services = services, la_id = rnd\<rparr>"

text \<open>\<^verbatim>\<open>is_loopback\<close>, \<^verbatim>\<open>is_broadcast\<close>, \<^verbatim>\<open>is_private\<close>, \<^verbatim>\<open>is_link_local\<close> and \<^verbatim>\<open>is_documentation\<close> of the
  standard library, in this order.\<close>

fun ipv4_is_loopback :: "ipv4 \<Rightarrow> bool" where
  "ipv4_is_loopback (Ipv4Addr a b c d) \<longleftrightarrow> a = 127"

fun ipv4_is_broadcast :: "ipv4 \<Rightarrow> bool" where
  "ipv4_is_broadcast (Ipv4Addr a b c d) \<longleftrightarrow> a = 255 \<and> b = 255 \<and> c = 255 \<and> d = 255"

fun ipv4_is_private :: "ipv4 \<Rightarrow> bool" where
  "ipv4_is_private (Ipv4Addr a b c d) \<longleftrightarrow> a = 10 \<or> (a = 172 \<and> 16 \<le> b \<and> b \<le> 31) \<or> (a = 192 \<and> b = 168)"

fun ipv4_is_link_local :: "ipv4 \<Rightarrow> bool" where
  "ipv4_is_link_local (Ipv4Addr a b c d) \<longleftrightarrow> a = 169 \<and> b = 254"

fun ipv4_is_documentation :: "ipv4 \<Rightarrow> bool" where
  "ipv4_is_documentation (Ipv4Addr a b c d) \<longleftrightarrow>
     (a = 192 \<and> b = 0 \<and> c = 2) \<or> (a = 198 \<and> b = 51 \<and> c = 100) \<or> (a = 203 \<and> b = 0 \<and> c = 113)"

fun is_routable_ipv4 :: "ipv4 \<Rightarrow> bool" where
  "is_routable_ipv4 (Ipv4Addr a b c d) =
     (let ip = Ipv4Addr a b c d in
      if a = 0 then False
      else if ipv4_is_loopback ip \<or> ipv4_is_broadcast ip \<or> ipv4_is_private ip then False
      else if a = 198 \<and> (b = 18 \<or> b = 19) then False
      else if ipv4_is_link_local ip then False
      else if a = 100 \<and> (64 \<le> b \<and> b \<le> 127) then False
      else if ipv4_is_documentation ip then False
      else True)"

fun ipv6_segments :: "ipv6 \<Rightarrow> u16 list" where
  "ipv6_segments (Ipv6Addr a b c d e f g h) = [a, b, c, d, e, f, g, h]"

definition ipv6_octets :: "ipv6 \<Rightarrow> u8 list" where
  "ipv6_octets ip = concat (map (\<lambda>s. [ucast (drop_bit 8 s), ucast s]) (ipv6_segments ip))"

definition is_routable_ipv6 :: "ipv6 \<Rightarrow> bool" where
  "is_routable_ipv6 ip =
     (let octets = ipv6_octets ip in
      if ip = Ipv6Addr 0 0 0 0 0 0 0 0 \<or> ip = Ipv6Addr 0 0 0 0 0 0 0 1
         \<or> ipv6_segments ip ! 0 AND 0xfe00 = 0xfc00 then False
      else if octets ! 0 = 0x20 \<and> octets ! 1 = 0x01 \<and> octets ! 2 = 0x00 \<and> octets ! 3 AND 0xF0 = 0x10 then False
      else if octets ! 0 = 0xFE \<and> octets ! 1 AND 0xC0 = 0x80 then False
      else if octets ! 0 = 0x20 \<and> octets ! 1 = 0x01 \<and> octets ! 2 = 0x00 \<and> octets ! 3 AND 0xf0 = 0x20 then False
      else True)"

definition is_routable :: "local_address \<Rightarrow> bool" where
  "is_routable a =
     (case sa_address (la_address a) of
        AddrIpv4 ip \<Rightarrow> is_routable_ipv4 ip
      | AddrIpv6 ip \<Rightarrow> is_routable_ipv6 ip
      | AddrCjdns ip \<Rightarrow> ipv6_octets ip ! 0 = 0xFC
      | _ \<Rightarrow> True)"

definition is_good_address :: "local_address \<Rightarrow> bool" where
  "is_good_address a =
     (if \<not> is_routable a then False
      else case la_state a of Connected \<Rightarrow> True | Tried _ \<Rightarrow> True | _ \<Rightarrow> False)"

datatype ip_addr = V4 ipv4 | V6 ipv6

definition get_socket_addr :: "local_address \<Rightarrow> (ip_addr \<times> u16) option" where
  "get_socket_addr a =
     (case sa_address (la_address a) of
        AddrIpv6 ip \<Rightarrow> Some (V6 ip, sa_port (la_address a))
      | AddrIpv4 ip \<Rightarrow> Some (V4 ip, sa_port (la_address a))
      | _ \<Rightarrow> None)"

definition get_net_address :: "local_address \<Rightarrow> ip_addr option" where
  "get_net_address a =
     (case sa_address (la_address a) of
        AddrIpv4 ip \<Rightarrow> Some (V4 ip)
      | AddrIpv6 ip \<Rightarrow> Some (V6 ip)
      | AddrCjdns ip \<Rightarrow> Some (V6 ip)
      | _ \<Rightarrow> None)"

section \<open>On disk\<close>

datatype disk_address =
    DiskV4 ipv4
  | DiskV6 ipv6
  | DiskOnionV2 bytes
  | DiskOnionV3 bytes
  | DiskCjdns ipv6
  | DiskI2p bytes

record disk_local_address =
  dl_address :: disk_address
  dl_last_connected :: u64
  dl_state :: address_state
  dl_services :: u64
  dl_port :: u16
  dl_id :: "usize option"

definition disk_from_local :: "u64 \<Rightarrow> local_address \<Rightarrow> disk_local_address" where
  "disk_from_local time a =
     \<lparr>dl_address = (case sa_address (la_address a) of
        AddrIpv4 ip \<Rightarrow> DiskV4 ip
      | AddrIpv6 ip \<Rightarrow> DiskV6 ip
      | AddrCjdns ip \<Rightarrow> DiskCjdns ip
      | AddrI2p ip \<Rightarrow> DiskI2p ip
      | AddrTorV2 ip \<Rightarrow> DiskOnionV2 ip
      | AddrTorV3 ip \<Rightarrow> DiskOnionV3 ip
      | AddrUnknown _ _ \<Rightarrow> DiskV4 (Ipv4Addr 127 0 0 1)),
      dl_last_connected = last_connected a,
      dl_state = (if la_state a = Connected then Tried time else la_state a),
      dl_services = la_services a, dl_port = sa_port (la_address a), dl_id = Some (la_id a)\<rparr>"

fun addr_v2_from_disk :: "disk_address \<Rightarrow> addr_v2" where
  "addr_v2_from_disk (DiskV4 ip) = AddrIpv4 ip"
| "addr_v2_from_disk (DiskV6 ip) = AddrIpv6 ip"
| "addr_v2_from_disk (DiskI2p ip) = AddrI2p ip"
| "addr_v2_from_disk (DiskCjdns ip) = AddrCjdns ip"
| "addr_v2_from_disk (DiskOnionV2 ip) = AddrTorV2 ip"
| "addr_v2_from_disk (DiskOnionV3 ip) = AddrTorV3 ip"

definition local_from_disk :: "usize \<Rightarrow> disk_local_address \<Rightarrow> local_address" where
  "local_from_disk rnd d =
     \<lparr>la_address = \<lparr>sa_address = addr_v2_from_disk (dl_address d), sa_port = dl_port d\<rparr>,
      last_connected = dl_last_connected d, la_state = dl_state d, la_services = dl_services d,
      la_id = (case dl_id d of Some i \<Rightarrow> i | None \<Rightarrow> rnd)\<rparr>"

section \<open>Lemmas\<close>

lemma good_address_routable: "is_good_address a \<Longrightarrow> is_routable a"
  by (simp add: is_good_address_def split: if_splits)

lemma disk_roundtrip:
  assumes "\<And>k bs. sa_address (la_address a) \<noteq> AddrUnknown k bs"
  shows "local_from_disk rnd (disk_from_local time a) = (if la_state a = Connected then a\<lparr>la_state := Tried time\<rparr> else a)"
  using assms by (cases "sa_address (la_address a)") (auto simp: local_from_disk_def disk_from_local_def)

end
