(* ===== verification/Address_Man.thy ===== *)
theory Address_Man
  imports Net_Address
begin

text \<open>
  \<^verbatim>\<open>address_man.rs\<close>: the address manager. The hash maps are maps; \<open>visit\<close> is the order in which the map of
  addresses is iterated, which the standard library leaves open. The clock is the argument \<open>now\<close>, and a
  random choice is an argument \<open>r\<close> that is reduced to the range of the choice.
\<close>

section \<open>Definitions\<close>

definition RETRY_TIME :: u64 where "RETRY_TIME = 10 * 60"
definition MIN_ADDRESSES :: nat where "MIN_ADDRESSES = 15"
definition MIN_ADDRESSES_CBF :: nat where "MIN_ADDRESSES_CBF = 5"
definition MIN_ADDRESSES_UTREEXO :: nat where "MIN_ADDRESSES_UTREEXO = 2"
definition ASSUME_STALE :: u64 where "ASSUME_STALE = 24 * 60 * 60"
definition MAX_ADDRESSES :: usize where "MAX_ADDRESSES = 50000"

record address_man =
  addresses :: "usize \<rightharpoonup> local_address"
  good_addresses :: "usize list"
  good_peers_by_service :: "u64 \<rightharpoonup> usize list"
  peers_by_service :: "u64 \<rightharpoonup> usize list"
  max_size :: usize
  reachable :: "reachable_networks set"

type_synonym visit = "(usize \<rightharpoonup> local_address) \<Rightarrow> usize list"

definition map_values :: "visit \<Rightarrow> (usize \<rightharpoonup> local_address) \<Rightarrow> local_address list" where
  "map_values visit m = List.map_filter m (visit m)"

definition pick :: "nat \<Rightarrow> 'a list \<Rightarrow> 'a option" where
  "pick r xs = (if xs = [] then None else Some (xs ! (r mod length xs)))"

definition address_man_new :: "usize option \<Rightarrow> reachable_networks list \<Rightarrow> address_man" where
  "address_man_new limit reachable_networks = \<lparr>addresses = Map.empty, good_addresses = [],
     good_peers_by_service = Map.empty, peers_by_service = Map.empty,
     max_size = (case limit of Some n \<Rightarrow> n | None \<Rightarrow> MAX_ADDRESSES), reachable = set reachable_networks\<rparr>"

text \<open>\<^verbatim>\<open>retain(|x| x != id)\<close> on a vector, and on every value of a map.\<close>

definition retain_not :: "usize \<Rightarrow> usize list \<Rightarrow> usize list" where
  "retain_not idx = filter (\<lambda>x. x \<noteq> idx)"

definition retain_not_values :: "usize \<Rightarrow> (u64 \<rightharpoonup> usize list) \<Rightarrow> (u64 \<rightharpoonup> usize list)" where
  "retain_not_values idx m = (\<lambda>s. map_option (retain_not idx) (m s))"

definition or_default :: "(u64 \<rightharpoonup> usize list) \<Rightarrow> u64 \<Rightarrow> usize list" where
  "or_default m s = (case m s of Some xs \<Rightarrow> xs | None \<Rightarrow> [])"

definition push_if_has_service :: "wire_api \<Rightarrow> local_address \<Rightarrow> u64 \<Rightarrow> address_man \<Rightarrow> address_man" where
  "push_if_has_service N a service am =
     (if \<not> flag_has N (la_services a) service then am
      else
        let known = or_default (peers_by_service am) service;
            good = or_default (good_peers_by_service am) service
        in am\<lparr>peers_by_service := (peers_by_service am)(service \<mapsto>
                if la_id a \<notin> set known then known @ [la_id a] else known),
              good_peers_by_service := (good_peers_by_service am)(service \<mapsto>
                if la_id a \<notin> set good \<and> is_good_address a then good @ [la_id a] else good)\<rparr>)"

definition is_net_reachable :: "address_man \<Rightarrow> local_address \<Rightarrow> bool" where
  "is_net_reachable am a =
     (case sa_address (la_address a) of
        AddrIpv4 _ \<Rightarrow> IPv4 \<in> reachable am
      | AddrIpv6 _ \<Rightarrow> IPv6 \<in> reachable am
      | AddrTorV3 _ \<Rightarrow> TorV3 \<in> reachable am
      | AddrI2p _ \<Rightarrow> I2P \<in> reachable am
      | AddrCjdns _ \<Rightarrow> Cjdns \<in> reachable am
      | _ \<Rightarrow> False)"

text \<open>The body of the loop of \<^verbatim>\<open>push_addresses\<close>.\<close>

definition push_address :: "wire_api \<Rightarrow> visit \<Rightarrow> local_address \<Rightarrow> address_man \<Rightarrow> address_man" where
  "push_address N visit a am =
     (if \<not> flag_has N (la_services a) (flag_witness N) \<or> \<not> flag_has N (la_services a) (flag_network_limited N) then am
      else if \<not> is_net_reachable am a then am
      else if \<not> is_routable a then am
      else if list_ex (\<lambda>x. la_address x = la_address a) (map_values visit (addresses am)) then am
      else if addresses am (la_id a) \<noteq> None then am
      else
        let am = am\<lparr>addresses := (addresses am)(la_id a \<mapsto> a)\<rparr>;
            am = (if is_good_address a then am\<lparr>good_addresses := good_addresses am @ [la_id a]\<rparr> else am)
        in push_if_has_service N a (flag_compact_filters N)
             (push_if_has_service N a (flag_none N) (push_if_has_service N a UTREEXO am)))"

text \<open>Removal of an address from the map and from every list, as \<^verbatim>\<open>prune_addresses\<close> and
  \<^verbatim>\<open>update_set_service_flag\<close> do it.\<close>

definition remove_address :: "usize \<Rightarrow> address_man \<Rightarrow> address_man" where
  "remove_address idx am = am\<lparr>addresses := (addresses am)(idx := None),
     good_addresses := retain_not idx (good_addresses am),
     good_peers_by_service := retain_not_values idx (good_peers_by_service am),
     peers_by_service := retain_not_values idx (peers_by_service am)\<rparr>"

definition prune_addresses :: "visit \<Rightarrow> address_man \<Rightarrow> address_man" where
  "prune_addresses visit am =
     (let excess = length (visit (addresses am)) - unat (max_size am) in
      if excess = 0 then am
      else
        let oldest_ids = sort_key snd (List.map_filter (\<lambda>idx. map_option (\<lambda>a. (idx, last_connected a)) (addresses am idx))
              (visit (addresses am)))
        in fold (\<lambda>(oldest_id, _). remove_address oldest_id) (take excess oldest_ids) am)"

definition push_addresses :: "wire_api \<Rightarrow> visit \<Rightarrow> local_address list \<Rightarrow> address_man \<Rightarrow> address_man" where
  "push_addresses N visit as am = prune_addresses visit (fold (push_address N visit) as am)"

definition get_addresses_by_service :: "address_man \<Rightarrow> u64 \<Rightarrow> local_address list" where
  "get_addresses_by_service am service =
     (case good_peers_by_service am service of
        Some peer_ids \<Rightarrow> List.map_filter (addresses am) peer_ids
      | None \<Rightarrow> [])"

section \<open>Statistics\<close>

record network_stats =
  ns_new :: u64
  ns_tried :: u64

record connection_stats =
  st_ipv4 :: network_stats
  st_ipv6 :: network_stats
  st_onion :: network_stats
  st_i2p :: network_stats
  st_cjdns :: network_stats

definition network_stats_total :: "network_stats \<Rightarrow> u64" where
  "network_stats_total s = ns_new s + ns_tried s"

definition count_state :: "address_state \<Rightarrow> network_stats \<Rightarrow> network_stats" where
  "count_state st s =
     (case st of
        Banned _ \<Rightarrow> s
      | Tried _ \<Rightarrow> s\<lparr>ns_tried := ns_tried s + 1\<rparr>
      | Connected \<Rightarrow> s\<lparr>ns_tried := ns_tried s + 1\<rparr>
      | NeverTried \<Rightarrow> s\<lparr>ns_new := ns_new s + 1\<rparr>
      | Failed _ \<Rightarrow> s\<lparr>ns_new := ns_new s + 1\<rparr>)"

definition count_address :: "local_address \<Rightarrow> connection_stats \<Rightarrow> connection_stats" where
  "count_address a s =
     (let c = count_state (la_state a) in
      case sa_address (la_address a) of
        AddrIpv4 _ \<Rightarrow> s\<lparr>st_ipv4 := c (st_ipv4 s)\<rparr>
      | AddrIpv6 _ \<Rightarrow> s\<lparr>st_ipv6 := c (st_ipv6 s)\<rparr>
      | AddrTorV3 _ \<Rightarrow> s\<lparr>st_onion := c (st_onion s)\<rparr>
      | AddrI2p _ \<Rightarrow> s\<lparr>st_i2p := c (st_i2p s)\<rparr>
      | AddrCjdns _ \<Rightarrow> s\<lparr>st_cjdns := c (st_cjdns s)\<rparr>
      | _ \<Rightarrow> s)"

definition get_connection_stats :: "visit \<Rightarrow> address_man \<Rightarrow> connection_stats" where
  "get_connection_stats visit am =
     (let z = \<lparr>ns_new = 0, ns_tried = 0\<rparr>
      in fold count_address (map_values visit (addresses am))
           \<lparr>st_ipv4 = z, st_ipv6 = z, st_onion = z, st_i2p = z, st_cjdns = z\<rparr>)"

definition enough_addresses :: "wire_api \<Rightarrow> address_man \<Rightarrow> bool" where
  "enough_addresses N am =
     (if length (good_addresses am) < MIN_ADDRESSES then False
      else if length (get_addresses_by_service am (flag_compact_filters N)) < MIN_ADDRESSES_CBF then False
      else if length (get_addresses_by_service am UTREEXO) < MIN_ADDRESSES_UTREEXO then False
      else True)"

definition get_addresses_to_send :: "address_man \<Rightarrow> (addr_v2 \<times> u64 \<times> u64 \<times> u16) list" where
  "get_addresses_to_send am = List.map_filter (\<lambda>idx.
     map_option (\<lambda>a. (sa_address (la_address a), last_connected a, la_services a, sa_port (la_address a)))
       (addresses am idx)) (good_addresses am)"

section \<open>Selection\<close>

definition get_address_by_service :: "nat \<Rightarrow> address_man \<Rightarrow> u64 \<Rightarrow> (usize \<times> local_address) option" where
  "get_address_by_service r am service =
     (case good_peers_by_service am service of
        None \<Rightarrow> None
      | Some candidates \<Rightarrow> pick r (List.map_filter (\<lambda>idx.
          case addresses am idx of
            None \<Rightarrow> None
          | Some a \<Rightarrow> if la_state a \<noteq> Connected then Some (idx, a) else None) candidates))"

definition try_with_service :: "u64 \<Rightarrow> nat \<Rightarrow> address_man \<Rightarrow> u64 \<Rightarrow> (usize \<times> local_address) option" where
  "try_with_service now r am service =
     (case peers_by_service am service of
        None \<Rightarrow> None
      | Some peers \<Rightarrow>
         (case pick r (filter (\<lambda>x.
            case addresses am x of
              None \<Rightarrow> False
            | Some a \<Rightarrow> (case la_state a of
                Failed when \<Rightarrow> when + RETRY_TIME < now
              | Tried _ \<Rightarrow> True
              | NeverTried \<Rightarrow> True
              | _ \<Rightarrow> False)) peers) of
            None \<Rightarrow> None
          | Some peer \<Rightarrow> map_option (\<lambda>a. (peer, a)) (addresses am peer)))"

definition get_any_address :: "visit \<Rightarrow> nat \<Rightarrow> address_man \<Rightarrow> (usize \<times> local_address) option" where
  "get_any_address visit r am =
     (case pick r (visit (addresses am)) of
        None \<Rightarrow> None
      | Some peer \<Rightarrow> map_option (\<lambda>a. (peer, a)) (addresses am peer))"

definition get_random_address ::
  "visit \<Rightarrow> u64 \<Rightarrow> nat \<Rightarrow> nat \<Rightarrow> address_man \<Rightarrow> u64 \<Rightarrow> (usize \<times> local_address) option" where
  "get_random_address visit now r r' am service =
     (if visit (addresses am) = [] then None
      else case try_with_service now r am service of
        Some a \<Rightarrow> Some a
      | None \<Rightarrow> get_any_address visit r' am)"

text \<open>The loop of \<^verbatim>\<open>get_address_to_connect\<close>, with the three random numbers each iteration may draw.\<close>

fun connect_loop ::
  "visit \<Rightarrow> u64 \<Rightarrow> (nat \<times> nat \<times> nat) list \<Rightarrow> u64 \<Rightarrow> address_man \<Rightarrow> (usize \<times> local_address) option \<times> address_man" where
  "connect_loop visit now [] required am = (None, am)"
| "connect_loop visit now ((r1, r2, r3) # draws) required am =
     (case (case get_address_by_service r1 am required of
              Some p \<Rightarrow> Some p
            | None \<Rightarrow> get_random_address visit now r2 r3 am required) of
        None \<Rightarrow> (None, am)
      | Some (idx, peer) \<Rightarrow>
         (case la_state peer of
            NeverTried \<Rightarrow> (Some (idx, peer), am)
          | Tried _ \<Rightarrow> (Some (idx, peer), am)
          | Connected \<Rightarrow> connect_loop visit now draws required am
          | Failed when \<Rightarrow>
              if when + RETRY_TIME < now then (Some (idx, peer), am)
              else connect_loop visit now draws required
                (am\<lparr>good_peers_by_service := (case good_peers_by_service am required of
                       Some peers \<Rightarrow> (good_peers_by_service am)(required \<mapsto> retain_not idx peers)
                     | None \<Rightarrow> good_peers_by_service am),
                    good_addresses := retain_not idx (good_addresses am)\<rparr>)
          | Banned _ \<Rightarrow> connect_loop visit now draws required am))"

definition get_address_to_connect ::
  "visit \<Rightarrow> u64 \<Rightarrow> nat \<Rightarrow> (nat \<Rightarrow> nat \<times> nat \<times> nat) \<Rightarrow> u64 \<Rightarrow> bool \<Rightarrow> address_man
   \<Rightarrow> (usize \<times> local_address) option \<times> address_man" where
  "get_address_to_connect visit now r draws required feeler am =
     (if visit (addresses am) = [] then (None, am)
      else if feeler then
        (case get_any_address visit r am of
           None \<Rightarrow> (None, am)
         | Some (peer, a) \<Rightarrow>
            (case la_state a of
               Banned _ \<Rightarrow> (None, am)
             | Connected \<Rightarrow> (None, am)
             | _ \<Rightarrow> (Some (peer, a), am)))
      else connect_loop visit now (map draws [0 ..< 10]) required am)"

section \<open>Updates\<close>

definition rearrange_state :: "u64 \<Rightarrow> address_state \<Rightarrow> address_state" where
  "rearrange_state now st =
     (case st of
        Banned ban_time \<Rightarrow> if ban_time < now then NeverTried else st
      | Tried tried_time \<Rightarrow> if tried_time + ASSUME_STALE < now then NeverTried else st
      | Failed failed_time \<Rightarrow> if failed_time + ASSUME_STALE < now then NeverTried else st
      | _ \<Rightarrow> st)"

definition rearrange_buckets :: "u64 \<Rightarrow> address_man \<Rightarrow> address_man" where
  "rearrange_buckets now am = am\<lparr>addresses :=
     (\<lambda>idx. map_option (\<lambda>a. a\<lparr>la_state := rearrange_state now (la_state a)\<rparr>) (addresses am idx))\<rparr>"

definition push_good :: "usize \<Rightarrow> address_man \<Rightarrow> address_man" where
  "push_good idx am = (if idx \<notin> set (good_addresses am)
     then am\<lparr>good_addresses := good_addresses am @ [idx]\<rparr> else am)"

definition push_services :: "wire_api \<Rightarrow> usize \<Rightarrow> u64 list \<Rightarrow> address_man \<Rightarrow> address_man" where
  "push_services N idx services am =
     (case addresses am idx of
        None \<Rightarrow> am
      | Some a \<Rightarrow> fold (push_if_has_service N a) services am)"

definition update_set_state :: "wire_api \<Rightarrow> u64 \<Rightarrow> usize \<Rightarrow> address_state \<Rightarrow> address_man \<Rightarrow> address_man" where
  "update_set_state N now idx st am =
     (let am = am\<lparr>addresses := (addresses am)(idx := map_option (\<lambda>a. a\<lparr>la_state := st\<rparr>) (addresses am idx))\<rparr> in
      case st of
        Banned _ \<Rightarrow> am\<lparr>good_addresses := retain_not idx (good_addresses am)\<rparr>
      | Tried _ \<Rightarrow>
          push_services N idx [UTREEXO, UTREEXO_ARCHIVE, flag_none N, flag_compact_filters N] (push_good idx am)
      | NeverTried \<Rightarrow> am\<lparr>good_addresses := retain_not idx (good_addresses am)\<rparr>
      | Connected \<Rightarrow>
          push_services N idx [UTREEXO, flag_none N, flag_compact_filters N] (push_good idx
            (am\<lparr>addresses := (addresses am)(idx := map_option (\<lambda>a. a\<lparr>last_connected := now\<rparr>) (addresses am idx))\<rparr>))
      | Failed _ \<Rightarrow> am\<lparr>good_addresses := retain_not idx (good_addresses am),
          good_peers_by_service := retain_not_values idx (good_peers_by_service am)\<rparr>)"

definition add_peer_to_service :: "usize \<Rightarrow> u64 \<Rightarrow> address_man \<Rightarrow> address_man" where
  "add_peer_to_service idx service am =
     (case peers_by_service am service of
        Some peers \<Rightarrow> if idx \<in> set peers then am
          else am\<lparr>peers_by_service := (peers_by_service am)(service \<mapsto> peers @ [idx])\<rparr>
      | None \<Rightarrow> am\<lparr>peers_by_service := (peers_by_service am)(service \<mapsto> [idx])\<rparr>)"

definition remove_peer_from_service :: "usize \<Rightarrow> u64 \<Rightarrow> address_man \<Rightarrow> address_man" where
  "remove_peer_from_service idx service am =
     (case peers_by_service am service of
        Some peers \<Rightarrow> am\<lparr>peers_by_service := (peers_by_service am)(service \<mapsto> retain_not idx peers)\<rparr>
      | None \<Rightarrow> am)"

definition update_peer_for_service :: "wire_api \<Rightarrow> usize \<Rightarrow> u64 \<Rightarrow> address_man \<Rightarrow> address_man" where
  "update_peer_for_service N idx service am =
     (case addresses am idx of
        None \<Rightarrow> am
      | Some peer \<Rightarrow> if flag_has N (la_services peer) service then add_peer_to_service idx service am
          else remove_peer_from_service idx service am)"

definition update_peer_services_buckets :: "wire_api \<Rightarrow> usize \<Rightarrow> address_man \<Rightarrow> address_man" where
  "update_peer_services_buckets N idx am =
     update_peer_for_service N idx (flag_compact_filters N) (update_peer_for_service N idx UTREEXO am)"

definition update_set_service_flag :: "wire_api \<Rightarrow> usize \<Rightarrow> u64 \<Rightarrow> address_man \<Rightarrow> address_man" where
  "update_set_service_flag N idx flags am =
     (if \<not> flag_has N flags (flag_network_limited N) \<or> \<not> flag_has N flags (flag_witness N) then remove_address idx am
      else update_peer_services_buckets N idx
        (am\<lparr>addresses := (addresses am)(idx := map_option (\<lambda>a. a\<lparr>la_services := flags\<rparr>) (addresses am idx))\<rparr>))"

section \<open>Persistence\<close>

text \<open>What \<^verbatim>\<open>dump_peers\<close> writes to \<^verbatim>\<open>peers.json\<close>, and the effect of reading the two files back; a file
  that is missing or cannot be parsed is \<open>None\<close>. \<open>rnd\<close> draws the ids of entries without one.\<close>

definition dump_peers :: "visit \<Rightarrow> u64 \<Rightarrow> address_man \<Rightarrow> disk_local_address list" where
  "dump_peers visit now am = map (disk_from_local now) (map_values visit (addresses am))"

definition from_disk_all :: "(nat \<Rightarrow> usize) \<Rightarrow> disk_local_address list \<Rightarrow> local_address list" where
  "from_disk_all rnd ds = map (\<lambda>(i, d). local_from_disk (rnd i) d) (List.enumerate 0 ds)"

definition start_addr_man ::
  "wire_api \<Rightarrow> visit \<Rightarrow> (nat \<Rightarrow> usize) \<Rightarrow> disk_local_address list option \<Rightarrow> disk_local_address list option
   \<Rightarrow> address_man \<Rightarrow> local_address list \<times> address_man" where
  "start_addr_man N visit rnd peers anchors am =
     ((case anchors of Some ds \<Rightarrow> from_disk_all rnd ds | None \<Rightarrow> []),
      (case peers of Some ds \<Rightarrow> push_addresses N visit (from_disk_all rnd ds) am | None \<Rightarrow> am))"

text \<open>\<open>seeds\<close> is the parsed seed file of the network.\<close>

definition add_fixed_addresses ::
  "wire_api \<Rightarrow> visit \<Rightarrow> (nat \<Rightarrow> usize) \<Rightarrow> (network \<Rightarrow> disk_local_address list) \<Rightarrow> network
   \<Rightarrow> address_man \<Rightarrow> address_man" where
  "add_fixed_addresses N visit rnd seeds network am = push_addresses N visit (from_disk_all rnd (seeds network)) am"

end
