(* ===== verification/Address_Rules.thy ===== *)
theory Address_Rules
  imports Address_Man "HOL-Library.Multiset"
begin

text \<open>
  Properties of the address manager: an invariant that every operation keeps, what selection returns, and
  which addresses are dropped when the manager is full.
\<close>

section \<open>The invariant\<close>

text \<open>An iteration order visits every key once.\<close>

definition visit_ok :: "visit \<Rightarrow> bool" where
  "visit_ok visit \<longleftrightarrow> (\<forall>m. finite (dom m) \<longrightarrow> distinct (visit m) \<and> set (visit m) = dom m)"

text \<open>Every set of services has the services of \<^verbatim>\<open>ServiceFlags::NONE\<close>.\<close>

definition wire_laws :: "wire_api \<Rightarrow> bool" where
  "wire_laws N \<longleftrightarrow> (\<forall>s. flag_has N s (flag_none N))"

definition wanted_address :: "wire_api \<Rightarrow> address_man \<Rightarrow> local_address \<Rightarrow> bool" where
  "wanted_address N am a \<longleftrightarrow> flag_has N (la_services a) (flag_witness N) \<and> flag_has N (la_services a) (flag_network_limited N)
     \<and> is_net_reachable am a \<and> is_routable a"

definition indexed_services :: "wire_api \<Rightarrow> u64 set" where
  "indexed_services N = {UTREEXO, flag_none N, flag_compact_filters N}"

definition service_index_exact :: "wire_api \<Rightarrow> address_man \<Rightarrow> bool" where
  "service_index_exact N am \<longleftrightarrow> (\<forall>s \<in> indexed_services N. distinct (or_default (peers_by_service am) s)
     \<and> set (or_default (peers_by_service am) s) = {i. \<exists>a. addresses am i = Some a \<and> flag_has N (la_services a) s})"

definition am_inv :: "wire_api \<Rightarrow> address_man \<Rightarrow> bool" where
  "am_inv N am \<longleftrightarrow> finite (dom (addresses am))
     \<and> (\<forall>i a. addresses am i = Some a \<longrightarrow> la_id a = i \<and> wanted_address N am a)
     \<and> (\<forall>i j a b. addresses am i = Some a \<longrightarrow> addresses am j = Some b \<longrightarrow> la_address a = la_address b \<longrightarrow> i = j)
     \<and> service_index_exact N am"

inductive am_reachable :: "wire_api \<Rightarrow> visit \<Rightarrow> address_man \<Rightarrow> bool" for N visit where
  new: "am_reachable N visit (address_man_new limit nets)"
| push: "am_reachable N visit am \<Longrightarrow> am_reachable N visit (push_addresses N visit as am)"
| connect: "am_reachable N visit am \<Longrightarrow> am_reachable N visit (snd (get_address_to_connect visit now r draws service feeler am))"
| rearrange: "am_reachable N visit am \<Longrightarrow> am_reachable N visit (rearrange_buckets now am)"
| state: "am_reachable N visit am \<Longrightarrow> am_reachable N visit (update_set_state N now i st am)"
| flag: "am_reachable N visit am \<Longrightarrow> am_reachable N visit (update_set_service_flag N i flags am)"
| start: "am_reachable N visit am \<Longrightarrow> am_reachable N visit (snd (start_addr_man N visit rnd peers anchors am))"
| fixed: "am_reachable N visit am \<Longrightarrow> am_reachable N visit (add_fixed_addresses N visit rnd seeds network am)"

section \<open>Lists and maps\<close>

lemma set_retain_not [simp]: "set (retain_not i xs) = set xs - {i}"
  by (auto simp: retain_not_def)

lemma distinct_retain_not [simp]: "distinct xs \<Longrightarrow> distinct (retain_not i xs)"
  by (simp add: retain_not_def)

lemma or_default_retain [simp]: "or_default (retain_not_values i m) s = retain_not i (or_default m s)"
  by (simp add: or_default_def retain_not_values_def retain_not_def split: option.splits)

lemma or_default_upd [simp]: "or_default (m(s \<mapsto> xs)) t = (if t = s then xs else or_default m t)"
  by (simp add: or_default_def)

lemma visit_okD: "visit_ok visit \<Longrightarrow> finite (dom m) \<Longrightarrow> distinct (visit m)" "visit_ok visit \<Longrightarrow> finite (dom m) \<Longrightarrow> set (visit m) = dom m"
  by (simp_all add: visit_ok_def)

lemma set_map_filter_iff: "y \<in> set (List.map_filter f xs) \<longleftrightarrow> (\<exists>x \<in> set xs. f x = Some y)"
  by (induction xs) (auto simp: map_filter_simps split: option.splits)

lemma set_map_values: "visit_ok visit \<Longrightarrow> finite (dom m) \<Longrightarrow> set (map_values visit m) = ran m"
  by (fastforce simp: map_values_def set_map_filter_iff visit_okD ran_def dom_def)

lemma length_visit: "visit_ok visit \<Longrightarrow> finite (dom m) \<Longrightarrow> length (visit m) = card (dom m)"
  by (metis visit_okD distinct_card)

section \<open>Operations keep the invariant\<close>

lemma am_invI:
  assumes "finite (dom (addresses am))" and "\<And>i a. addresses am i = Some a \<Longrightarrow> la_id a = i \<and> wanted_address N am a"
    and "\<And>i j a b. addresses am i = Some a \<Longrightarrow> addresses am j = Some b \<Longrightarrow> la_address a = la_address b \<Longrightarrow> i = j"
    and "service_index_exact N am"
  shows "am_inv N am"
  using assms unfolding am_inv_def by blast

lemma am_invD:
  assumes "am_inv N am"
  shows "finite (dom (addresses am))" and "addresses am i = Some a \<Longrightarrow> la_id a = i"
    and "addresses am i = Some a \<Longrightarrow> wanted_address N am a"
    and "addresses am i = Some a \<Longrightarrow> addresses am j = Some b \<Longrightarrow> la_address a = la_address b \<Longrightarrow> i = j"
    and "service_index_exact N am"
  using assms unfolding am_inv_def by blast+

lemma push_if_fields [simp]:
  "addresses (push_if_has_service N a s am) = addresses am" "reachable (push_if_has_service N a s am) = reachable am"
  "max_size (push_if_has_service N a s am) = max_size am" "good_addresses (push_if_has_service N a s am) = good_addresses am"
  by (simp_all add: push_if_has_service_def Let_def)

lemma push_if_index:
  "or_default (peers_by_service (push_if_has_service N a s am)) t =
     (if t = s \<and> flag_has N (la_services a) s \<and> la_id a \<notin> set (or_default (peers_by_service am) s)
      then or_default (peers_by_service am) s @ [la_id a] else or_default (peers_by_service am) t)"
  by (auto simp: push_if_has_service_def Let_def)

lemma wanted_cong: "reachable am' = reachable am \<Longrightarrow> wanted_address N am' a = wanted_address N am a"
  by (simp add: wanted_address_def is_net_reachable_def split: addr_v2.splits)

lemma wanted_same:
  "la_address b = la_address a \<Longrightarrow> la_services b = la_services a \<Longrightarrow> wanted_address N am b = wanted_address N am a"
  by (simp add: wanted_address_def is_net_reachable_def is_routable_def)

lemma push_all_fields [simp]:
  "addresses (fold (push_if_has_service N a) ss am) = addresses am" "reachable (fold (push_if_has_service N a) ss am) = reachable am"
  "max_size (fold (push_if_has_service N a) ss am) = max_size am"
  by (induction ss arbitrary: am) simp_all

lemma push_all_index:
  "or_default (peers_by_service (fold (push_if_has_service N a) ss am)) t =
     (if t \<in> set ss \<and> flag_has N (la_services a) t \<and> la_id a \<notin> set (or_default (peers_by_service am) t)
      then or_default (peers_by_service am) t @ [la_id a] else or_default (peers_by_service am) t)"
  by (induction ss arbitrary: am) (auto simp: push_if_index)

text \<open>An update of the map that keeps ids, socket addresses and services.\<close>

definition same_peer :: "local_address \<Rightarrow> local_address \<Rightarrow> bool" where
  "same_peer a b \<longleftrightarrow> la_id b = la_id a \<and> la_address b = la_address a \<and> la_services b = la_services a"

definition relabelled :: "(usize \<rightharpoonup> local_address) \<Rightarrow> (usize \<rightharpoonup> local_address) \<Rightarrow> bool" where
  "relabelled m m' \<longleftrightarrow> (\<forall>i. rel_option same_peer (m i) (m' i))"

lemma same_peer_simps [simp]: "same_peer a a" "same_peer a (a\<lparr>la_state := st\<rparr>)" "same_peer a (a\<lparr>last_connected := t\<rparr>)"
  "same_peer a (a\<lparr>la_state := st, last_connected := t\<rparr>)"
  by (simp_all add: same_peer_def)

lemma relabelled_map: "(\<And>i a. same_peer a (f i a)) \<Longrightarrow> relabelled m (\<lambda>i. map_option (f i) (m i))"
  by (simp add: relabelled_def option.rel_map option.rel_refl_strong)

lemma relabelled_upd: "(\<And>a. same_peer a (f a)) \<Longrightarrow> relabelled m (m(i := map_option f (m i)))"
  by (simp add: relabelled_def option.rel_map option.rel_refl_strong)

lemma relabelledD:
  assumes "relabelled m m'"
  shows "dom m' = dom m" and "m' i = Some b \<Longrightarrow> \<exists>a. m i = Some a \<and> same_peer a b"
    and "m i = Some a \<Longrightarrow> \<exists>b. m' i = Some b \<and> same_peer a b"
proof -
  have r: "rel_option same_peer (m j) (m' j)" for j using assms by (simp add: relabelled_def)
  have "m' j \<noteq> None \<longleftrightarrow> m j \<noteq> None" for j using r [of j] by (auto simp: option.rel_sel)
  then show "dom m' = dom m" by (simp add: dom_def)
  show "m' i = Some b \<Longrightarrow> \<exists>a. m i = Some a \<and> same_peer a b" "m i = Some a \<Longrightarrow> \<exists>b. m' i = Some b \<and> same_peer a b"
    using r [of i] by (auto simp: option_rel_Some1 option_rel_Some2)
qed

lemma am_inv_relabel:
  assumes inv: "am_inv N am" and rel: "relabelled (addresses am) (addresses am')" and net: "reachable am' = reachable am"
    and idx: "\<And>s. s \<in> indexed_services N \<Longrightarrow> or_default (peers_by_service am') s = or_default (peers_by_service am) s"
  shows "am_inv N am'"
proof -
  note bw = relabelledD(2) [OF rel]
  have "la_id b = i \<and> wanted_address N am' b" if b: "addresses am' i = Some b" for i b
  proof -
    obtain a where a: "addresses am i = Some a" "same_peer a b" using bw [OF b] by blast
    then show ?thesis
      using am_invD(2,3) [OF inv a(1)] wanted_same [of b a N am] wanted_cong [OF net, of N b] by (simp add: same_peer_def)
  qed
  moreover have "i = j" if "addresses am' i = Some a" "addresses am' j = Some b" "la_address a = la_address b" for i j a b
    using bw [OF that(1)] bw [OF that(2)] that(3) am_invD(4) [OF inv] by (auto simp: same_peer_def)
  moreover have "(\<exists>a. addresses am' i = Some a \<and> flag_has N (la_services a) s) \<longleftrightarrow> (\<exists>a. addresses am i = Some a \<and> flag_has N (la_services a) s)" for i s
    using rel [unfolded relabelled_def, rule_format, of i]
    by (cases "addresses am i"; cases "addresses am' i") (simp_all add: same_peer_def)
  then have "service_index_exact N am'" using inv idx by (simp add: am_inv_def service_index_exact_def)
  ultimately show ?thesis using am_invD(1) [OF inv] relabelledD(1) [OF rel] by (intro am_invI) simp_all
qed

lemma push_address_inv:
  assumes v: "visit_ok visit" and inv: "am_inv N am"
  shows "am_inv N (push_address N visit a am)"
proof (cases "wanted_address N am a \<and> (\<forall>x \<in> ran (addresses am). la_address x \<noteq> la_address a) \<and> addresses am (la_id a) = None")
  case True
  let ?ss = "[UTREEXO, flag_none N, flag_compact_filters N]" and ?i = "la_id a"
  have fin: "finite (dom (addresses am))" using inv by (simp add: am_inv_def)
  obtain am1 where am1: "push_address N visit a am = fold (push_if_has_service N a) ?ss am1"
    "addresses am1 = (addresses am)(?i \<mapsto> a)" "reachable am1 = reachable am" "peers_by_service am1 = peers_by_service am"
    using True set_map_values [OF v fin] by (auto simp: push_address_def wanted_address_def list_ex_iff Let_def)
  let ?am = "fold (push_if_has_service N a) ?ss am1"
  have adr: "addresses ?am = (addresses am)(?i \<mapsto> a)" and net: "reachable ?am = reachable am" using am1 by simp_all
  have old: "set (or_default (peers_by_service am) s) = {i. \<exists>a. addresses am i = Some a \<and> flag_has N (la_services a) s}"
    "distinct (or_default (peers_by_service am) s)" if "s \<in> indexed_services N" for s
    using inv that by (simp_all add: am_inv_def service_index_exact_def)
  have exact: "service_index_exact N ?am"
    unfolding service_index_exact_def adr
  proof
    fix s assume s: "s \<in> indexed_services N"
    then have "s \<in> set ?ss" by (auto simp: indexed_services_def)
    moreover have "?i \<notin> set (or_default (peers_by_service am) s)" using old(1) [OF s] True by simp
    ultimately have "or_default (peers_by_service ?am) s =
        (if flag_has N (la_services a) s then or_default (peers_by_service am) s @ [?i] else or_default (peers_by_service am) s)"
      using push_all_index [of N a ?ss am1 s] am1(4) by simp
    then show "distinct (or_default (peers_by_service ?am) s) \<and> set (or_default (peers_by_service ?am) s)
        = {i. \<exists>b. ((addresses am)(?i \<mapsto> a)) i = Some b \<and> flag_has N (la_services b) s}"
      using old [OF s] \<open>?i \<notin> _\<close> True by auto
  qed
  have known: "la_id b = i \<and> wanted_address N ?am b" if "addresses ?am i = Some b" for i b
    using that am_invD(2,3) [OF inv] True unfolding adr wanted_cong [OF net] by (auto split: if_splits)
  have uniq: "i = j" if "addresses ?am i = Some b" "addresses ?am j = Some c" "la_address b = la_address c" for i j b c
  proof (cases "i = ?i \<or> j = ?i")
    case some: True
    have key: "k = ?i" if "((addresses am)(?i \<mapsto> a)) k = Some d" "la_address d = la_address a" for k d
      using that True by (auto simp: ran_def split: if_splits)
    from some show ?thesis
    proof
      assume i: "i = ?i"
      with that(1) have "b = a" by (simp add: am1(2))
      with that(2,3) have "j = ?i" by (intro key [of j c]) (simp_all add: am1(2))
      with i show ?thesis by simp
    next
      assume j: "j = ?i"
      with that(2) have "c = a" by (simp add: am1(2))
      with that(1,3) have "i = ?i" by (intro key [of i b]) (simp_all add: am1(2))
      with j show ?thesis by simp
    qed
  next
    case none: False
    show ?thesis
      by (rule am_invD(4) [OF inv _ _ that(3)]) (use none that(1,2) in \<open>simp_all add: am1(2)\<close>)
  qed
  have "finite (dom (addresses ?am))" using fin by (simp add: am1(2))
  then have "am_inv N ?am" by (rule am_invI) (erule known, erule (2) uniq, rule exact)
  then show ?thesis by (simp only: am1(1))
next
  case False
  have fin: "finite (dom (addresses am))" using inv by (simp add: am_inv_def)
  have "push_address N visit a am = am"
    using False set_map_values [OF v fin] by (auto simp: push_address_def wanted_address_def list_ex_iff)
  with inv show ?thesis by simp
qed

lemma remove_address_inv:
  assumes "am_inv N am"
  shows "am_inv N (remove_address i am)"
proof -
  note inv = am_invD [OF assms]
  have "wanted_address N (remove_address i am) = wanted_address N am"
    by (rule ext, rule wanted_cong) (simp add: remove_address_def)
  moreover have "service_index_exact N (remove_address i am)"
    using inv(5) by (auto simp: service_index_exact_def remove_address_def)
  moreover have old: "addresses am j = Some a" if "addresses (remove_address i am) j = Some a" for j a
    using that by (simp add: remove_address_def split: if_splits)
  moreover have "finite (dom (addresses (remove_address i am)))" using inv(1) by (simp add: remove_address_def)
  moreover have "la_id a = j \<and> wanted_address N (remove_address i am) a" if "addresses (remove_address i am) j = Some a" for j a
    using inv(2,3) [OF old [OF that]] calculation(1) by simp
  ultimately show ?thesis using inv(4) [OF old old] by (intro am_invI) blast+
qed

lemma remove_all_inv: "am_inv N am \<Longrightarrow> am_inv N (fold (\<lambda>(i, _). remove_address i) xs am)"
  by (induction xs arbitrary: am) (auto simp: remove_address_inv)

lemma push_addresses_inv: "visit_ok visit \<Longrightarrow> am_inv N am \<Longrightarrow> am_inv N (push_addresses N visit as am)"
proof -
  assume v: "visit_ok visit"
  have "am_inv N am \<Longrightarrow> am_inv N (fold (push_address N visit) as am)" for am
    by (induction as arbitrary: am) (simp_all add: push_address_inv [OF v])
  then show "am_inv N am \<Longrightarrow> am_inv N (push_addresses N visit as am)"
    by (simp add: push_addresses_def prune_addresses_def Let_def remove_all_inv)
qed

lemma push_services_fields [simp]:
  "addresses (push_services N i ss am) = addresses am" "reachable (push_services N i ss am) = reachable am"
  "max_size (push_services N i ss am) = max_size am"
  by (simp_all add: push_services_def split: option.splits)

lemma push_good_fields [simp]:
  "addresses (push_good i am) = addresses am" "reachable (push_good i am) = reachable am" "max_size (push_good i am) = max_size am"
  "peers_by_service (push_good i am) = peers_by_service am" "good_peers_by_service (push_good i am) = good_peers_by_service am"
  by (simp_all add: push_good_def)

text \<open>Pushing the services of a known address again changes nothing in an exact index.\<close>

lemma push_services_index:
  assumes inv: "am_inv N am" and s: "s \<in> indexed_services N"
  shows "or_default (peers_by_service (push_services N i ss am)) s = or_default (peers_by_service am) s"
proof (cases "addresses am i")
  case (Some a)
  have "la_id a = i" by (rule am_invD(2) [OF inv Some])
  with Some s have "flag_has N (la_services a) s \<Longrightarrow> la_id a \<in> set (or_default (peers_by_service am) s)"
    using am_invD(5) [OF inv] by (auto simp: service_index_exact_def)
  then show ?thesis using Some by (auto simp: push_services_def push_all_index)
qed (simp add: push_services_def)

lemma relabel_at_inv:
  assumes "am_inv N am" and "\<And>a. same_peer a (f a)"
  shows "am_inv N (am\<lparr>addresses := (addresses am)(i := map_option f (addresses am i))\<rparr>)"
  using relabelled_upd [OF assms(2)] by (intro am_inv_relabel [OF assms(1)]) simp_all

lemma update_set_state_inv:
  assumes inv: "am_inv N am"
  shows "am_inv N (update_set_state N now i st am)"
proof -
  let ?am1 = "am\<lparr>addresses := (addresses am)(i := map_option (\<lambda>a. a\<lparr>la_state := st\<rparr>) (addresses am i))\<rparr>"
  let ?am2 = "?am1\<lparr>addresses := (addresses ?am1)(i := map_option (\<lambda>a. a\<lparr>last_connected := now\<rparr>) (addresses ?am1 i))\<rparr>"
  have same: "am_inv N am'" if "am_inv N am0" "addresses am' = addresses am0" "reachable am' = reachable am0"
    "\<And>s. s \<in> indexed_services N \<Longrightarrow> or_default (peers_by_service am') s = or_default (peers_by_service am0) s" for am0 am'
    by (rule am_inv_relabel [OF that(1) _ that(3,4)]) (simp_all add: that(2) relabelled_def option.rel_refl)
  have one: "am_inv N ?am1" by (rule relabel_at_inv [OF inv]) simp
  have two: "am_inv N ?am2" by (rule relabel_at_inv [OF one]) simp
  have pushed: "am_inv N (push_services N i ss (push_good i am0))" if "am_inv N am0" for am0 ss
  proof -
    have "am_inv N (push_good i am0)" by (rule same [OF that]) simp_all
    from same [OF this _ _ push_services_index [OF this]] show ?thesis by simp
  qed
  have kept: "am_inv N (?am1\<lparr>good_addresses := xs\<rparr>)" "am_inv N (?am1\<lparr>good_addresses := xs, good_peers_by_service := m\<rparr>)" for xs m
    by (rule same [OF one]; simp)+
  show ?thesis
    using kept pushed [OF one] pushed [OF two] unfolding update_set_state_def Let_def by (cases st) (simp_all del: fun_upd_apply)
qed

lemma rearrange_buckets_inv: "am_inv N am \<Longrightarrow> am_inv N (rearrange_buckets now am)"
  by (rule am_inv_relabel) (simp_all add: rearrange_buckets_def relabelled_map)

lemma peer_for_service_fields [simp]:
  "addresses (update_peer_for_service N i s am) = addresses am" "reachable (update_peer_for_service N i s am) = reachable am"
  "max_size (update_peer_for_service N i s am) = max_size am"
  by (simp_all add: update_peer_for_service_def add_peer_to_service_def remove_peer_from_service_def split: option.splits)

lemma peer_for_service_index:
  "or_default (peers_by_service (update_peer_for_service N i s am)) t =
     (case addresses am i of
        None \<Rightarrow> or_default (peers_by_service am) t
      | Some a \<Rightarrow>
          if t \<noteq> s then or_default (peers_by_service am) t
          else if \<not> flag_has N (la_services a) s then retain_not i (or_default (peers_by_service am) s)
          else if i \<in> set (or_default (peers_by_service am) s) then or_default (peers_by_service am) s
          else or_default (peers_by_service am) s @ [i])"
  by (auto simp: update_peer_for_service_def add_peer_to_service_def remove_peer_from_service_def or_default_def retain_not_def
      split: option.splits)

lemma update_set_service_flag_inv:
  assumes law: "wire_laws N" and inv: "am_inv N am"
  shows "am_inv N (update_set_service_flag N i flags am)"
proof (cases "\<not> flag_has N flags (flag_network_limited N) \<or> \<not> flag_has N flags (flag_witness N) \<or> addresses am i = None")
  case True
  have "(addresses am)(i := None) = addresses am" if "addresses am i = None" using that by auto
  then show ?thesis using True remove_address_inv [OF inv] inv
    by (auto simp: update_set_service_flag_def update_peer_services_buckets_def update_peer_for_service_def)
next
  case False
  then obtain a where a: "addresses am i = Some a" by blast
  let ?am1 = "am\<lparr>addresses := (addresses am)(i := map_option (\<lambda>a. a\<lparr>la_services := flags\<rparr>) (addresses am i))\<rparr>"
  let ?am = "update_set_service_flag N i flags am"
  have am: "?am = update_peer_for_service N i (flag_compact_filters N) (update_peer_for_service N i UTREEXO ?am1)"
    using False by (simp add: update_set_service_flag_def update_peer_services_buckets_def)
  have adr: "addresses ?am = (addresses am)(i \<mapsto> a\<lparr>la_services := flags\<rparr>)" and net: "reachable ?am = reachable am"
    unfolding am by (simp_all add: a)
  have "service_index_exact N ?am"
    unfolding service_index_exact_def
  proof
    fix s assume s: "s \<in> indexed_services N"
    have old: "distinct (or_default (peers_by_service am) s)"
      "set (or_default (peers_by_service am) s) = {j. \<exists>b. addresses am j = Some b \<and> flag_has N (la_services b) s}"
      using am_invD(5) [OF inv] s by (simp_all add: service_index_exact_def)
    have "or_default (peers_by_service ?am) s =
        (if \<not> flag_has N flags s then retain_not i (or_default (peers_by_service am) s)
         else if i \<in> set (or_default (peers_by_service am) s) then or_default (peers_by_service am) s
         else or_default (peers_by_service am) s @ [i])"
    proof (cases "s = flag_none N")
      case True
      with law old(2) a have "i \<in> set (or_default (peers_by_service am) s)" "flag_has N flags s"
        by (simp_all add: wire_laws_def)
      then show ?thesis unfolding am by (auto simp: peer_for_service_index a)
    next
      case False
      with s have "s = UTREEXO \<or> s = flag_compact_filters N" by (simp add: indexed_services_def)
      then show ?thesis unfolding am by (auto simp: peer_for_service_index a retain_not_def)
    qed
    then show "distinct (or_default (peers_by_service ?am) s) \<and> set (or_default (peers_by_service ?am) s)
        = {j. \<exists>b. addresses ?am j = Some b \<and> flag_has N (la_services b) s}"
      using old unfolding adr by auto
  qed
  moreover have "finite (dom (addresses ?am))" unfolding adr using am_invD(1) [OF inv] by simp
  moreover have "la_id b = j \<and> wanted_address N ?am b" if "addresses ?am j = Some b" for j b
    using that am_invD(2,3) [OF inv] a False unfolding adr wanted_cong [OF net]
    by (auto simp: wanted_address_def is_net_reachable_def is_routable_def split: if_splits)
  moreover have orig: "\<exists>b0. addresses am j = Some b0 \<and> la_address b0 = la_address b" if "addresses ?am j = Some b" for j b
    using that a unfolding adr by (auto split: if_splits)
  moreover have "j = k" if "addresses ?am j = Some b" "addresses ?am k = Some c" "la_address b = la_address c" for j k b c
    using orig [OF that(1)] orig [OF that(2)] that(3) am_invD(4) [OF inv, of j _ k] by metis
  ultimately show ?thesis by (intro am_invI) blast+
qed

section \<open>Selection\<close>

definition available :: "u64 \<Rightarrow> local_address \<Rightarrow> bool" where
  "available now a \<longleftrightarrow> (case la_state a of
     NeverTried \<Rightarrow> True | Tried _ \<Rightarrow> True | Failed when \<Rightarrow> when + RETRY_TIME < now | _ \<Rightarrow> False)"

definition same_but_good :: "address_man \<Rightarrow> address_man \<Rightarrow> bool" where
  "same_but_good am am' \<longleftrightarrow> addresses am' = addresses am \<and> reachable am' = reachable am \<and> max_size am' = max_size am
     \<and> peers_by_service am' = peers_by_service am"

lemma pick_in: "pick r xs = Some x \<Longrightarrow> x \<in> set xs"
  by (auto simp: pick_def split: if_splits)

lemma selected_known:
  "get_address_by_service r am s = Some (i, a) \<Longrightarrow> addresses am i = Some a"
  "get_any_address visit r am = Some (i, a) \<Longrightarrow> addresses am i = Some a"
  "get_random_address visit now r r' am s = Some (i, a) \<Longrightarrow> addresses am i = Some a"
  by (auto simp: get_address_by_service_def get_any_address_def get_random_address_def try_with_service_def set_map_filter_iff
      split: option.splits if_splits dest!: pick_in)

lemma connect_loop_effect:
  "connect_loop visit now draws s am = (r, am') \<Longrightarrow>
     same_but_good am am' \<and> (\<forall>i a. r = Some (i, a) \<longrightarrow> addresses am i = Some a \<and> available now a)"
proof (induction draws arbitrary: am)
  case (Cons d draws)
  obtain r1 r2 r3 where d: "d = (r1, r2, r3)" by (cases d) auto
  let ?c = "case get_address_by_service r1 am s of Some p \<Rightarrow> Some p | None \<Rightarrow> get_random_address visit now r2 r3 am s"
  show ?case
  proof (cases ?c)
    case None
    then show ?thesis using Cons.prems by (simp add: d same_but_good_def)
  next
    case (Some p)
    then obtain i a where p: "p = (i, a)" and a: "addresses am i = Some a"
      by (cases p) (auto split: option.splits dest: selected_known)
    have next_am: ?thesis
      if "connect_loop visit now draws s (am\<lparr>good_peers_by_service := g, good_addresses := l\<rparr>) = (r, am')" for g l
      using Cons.IH [OF that] by (simp add: same_but_good_def)
    have again: ?thesis if "connect_loop visit now draws s am = (r, am')" using Cons.IH [OF that] .
    have here: ?thesis if "(Some (i, a), am) = (r, am')" "available now a"
      using that a by (auto simp: same_but_good_def)
    have "(\<exists>g l. connect_loop visit now draws s (am\<lparr>good_peers_by_service := g, good_addresses := l\<rparr>) = (r, am'))
        \<or> connect_loop visit now draws s am = (r, am') \<or> (Some (i, a), am) = (r, am') \<and> available now a"
      using Cons.prems Some unfolding d p by (cases "la_state a") (auto simp: available_def split: if_splits)
    then show ?thesis using next_am again here by blast
  qed
qed (simp add: same_but_good_def)

lemma same_but_good_inv: "am_inv N am \<Longrightarrow> same_but_good am am' \<Longrightarrow> am_inv N am'"
  by (rule am_inv_relabel) (simp_all add: same_but_good_def relabelled_def option.rel_refl)

lemma get_address_to_connect_effect:
  assumes "get_address_to_connect visit now r draws s feeler am = (res, am')"
  shows "same_but_good am am'"
    and "res = Some (i, a) \<Longrightarrow> addresses am i = Some a \<and> (if feeler then (\<forall>t. la_state a \<noteq> Banned t) \<and> la_state a \<noteq> Connected else available now a)"
  using assms connect_loop_effect [of visit now "map draws [0 ..< 10]" s am res am']
  by (auto simp: get_address_to_connect_def same_but_good_def dest: selected_known split: if_splits option.splits address_state.splits)

section \<open>Size\<close>

lemma remove_all_effect:
  "addresses (fold (\<lambda>(i, _). remove_address i) xs am) = addresses am |` (- fst ` set xs)"
  "max_size (fold (\<lambda>(i, _). remove_address i) xs am) = max_size am"
  by (induction xs arbitrary: am) (auto simp: remove_address_def restrict_map_def fun_eq_iff)

text \<open>The entries that pruning sorts: the keys of the map, each once, with their times.\<close>

definition ages :: "visit \<Rightarrow> address_man \<Rightarrow> (usize \<times> u64) list" where
  "ages visit am = sort_key snd (List.map_filter (\<lambda>i. map_option (\<lambda>a. (i, last_connected a)) (addresses am i)) (visit (addresses am)))"

lemma map_filter_keys:
  "set xs \<subseteq> dom m \<Longrightarrow> map fst (List.map_filter (\<lambda>i. map_option (\<lambda>a. (i, f a)) (m i)) xs) = xs"
  by (induction xs) (auto simp: map_filter_simps)

lemma ages_facts:
  assumes v: "visit_ok visit" and fin: "finite (dom (addresses am))"
  shows "distinct (map fst (ages visit am))" and "set (ages visit am) = {(i, last_connected a) | i a. addresses am i = Some a}"
    and "length (ages visit am) = card (dom (addresses am))" and "sorted (map snd (ages visit am))"
proof -
  let ?xs = "List.map_filter (\<lambda>i. map_option (\<lambda>a. (i, last_connected a)) (addresses am i)) (visit (addresses am))"
  have keys: "map fst ?xs = visit (addresses am)" using visit_okD(2) [OF v fin] by (intro map_filter_keys) simp
  then have d: "distinct (map fst ?xs)" using visit_okD(1) [OF v fin] by simp
  have ms: "mset (ages visit am) = mset ?xs" by (simp add: ages_def)
  then have "mset (map fst (ages visit am)) = mset (map fst ?xs)" by simp
  from mset_eq_imp_distinct_iff [OF this] d show "distinct (map fst (ages visit am))" by simp
  show "length (ages visit am) = card (dom (addresses am))"
    using arg_cong [OF keys, of length] length_visit [OF v fin] by (simp add: ages_def)
  show "sorted (map snd (ages visit am))" by (simp add: ages_def)
  show "set (ages visit am) = {(i, last_connected a) | i a. addresses am i = Some a}"
    using visit_okD(2) [OF v fin] by (fastforce simp: ages_def set_map_filter_iff)
qed

lemma prune_effect:
  assumes v: "visit_ok visit" and fin: "finite (dom (addresses am))"
  shows "addresses (prune_addresses visit am) = addresses am |` (- fst ` set (take (card (dom (addresses am)) - unat (max_size am)) (ages visit am)))"
    and "max_size (prune_addresses visit am) = max_size am"
  using remove_all_effect [of "take (card (dom (addresses am)) - unat (max_size am)) (ages visit am)" am] length_visit [OF v fin]
  by (auto simp: prune_addresses_def ages_def Let_def)

lemma prune_size:
  assumes v: "visit_ok visit" and fin: "finite (dom (addresses am))"
  shows "card (dom (addresses (prune_addresses visit am))) \<le> unat (max_size am)"
proof -
  let ?n = "card (dom (addresses am)) - unat (max_size am)"
  note ages = ages_facts [OF v fin]
  have "dom (addresses (prune_addresses visit am)) = dom (addresses am) - fst ` set (take ?n (ages visit am))"
    unfolding prune_effect(1) [OF v fin] by auto
  moreover have "fst ` set (take ?n (ages visit am)) \<subseteq> dom (addresses am)"
    using set_take_subset [of ?n "ages visit am"] ages(2) by auto
  moreover have "card (fst ` set (take ?n (ages visit am))) = ?n"
    using distinct_card [OF distinct_take [OF ages(1)], of ?n] ages(3) by (simp add: take_map)
  ultimately show ?thesis using fin by (simp add: card_Diff_subset finite_subset)
qed

lemma prune_oldest:
  assumes v: "visit_ok visit" and fin: "finite (dom (addresses am))"
    and a: "addresses am i = Some a" "addresses (prune_addresses visit am) i = None"
    and b: "addresses (prune_addresses visit am) j = Some b"
  shows "last_connected a \<le> last_connected b"
proof -
  let ?n = "card (dom (addresses am)) - unat (max_size am)" and ?xs = "ages visit am"
  note ages = ages_facts [OF v fin] and eff = prune_effect(1) [OF v fin]
  have fstI: "(k, last_connected c) \<in> set ys" if "k \<in> fst ` set ys" "addresses am k = Some c" "set ys \<subseteq> set ?xs" for k c ys
    using that ages(2) by (fastforce simp: subset_iff)
  have "i \<in> fst ` set (take ?n ?xs)" using a unfolding eff by (auto simp: restrict_map_def split: if_splits)
  from fstI [OF this a(1) set_take_subset] have old: "(i, last_connected a) \<in> set (take ?n ?xs)" .
  have "addresses am j = Some b" and "j \<notin> fst ` set (take ?n ?xs)" using b unfolding eff by (auto simp: restrict_map_def split: if_splits)
  moreover from this(1) have "(j, last_connected b) \<in> set (take ?n ?xs) \<union> set (drop ?n ?xs)"
    using ages(2) by (simp flip: set_append)
  ultimately have new: "(j, last_connected b) \<in> set (drop ?n ?xs)" by force
  have "sorted (map snd (take ?n ?xs) @ map snd (drop ?n ?xs))" using ages(4) by (simp flip: map_append)
  then show ?thesis using old new by (force simp: sorted_append)
qed

lemma push_address_fields:
  "max_size (push_address N visit a am) = max_size am" "dom (addresses (push_address N visit a am)) \<subseteq> insert (la_id a) (dom (addresses am))"
  by (auto simp: push_address_def Let_def split: if_splits)

lemma push_address_finite: "finite (dom (addresses am)) \<Longrightarrow> finite (dom (addresses (push_address N visit a am)))"
  using finite_subset [OF push_address_fields(2)] by simp

lemma push_loop_fields:
  "max_size (fold (push_address N visit) as am) = max_size am"
  "finite (dom (addresses am)) \<Longrightarrow> finite (dom (addresses (fold (push_address N visit) as am)))"
  by (induction as arbitrary: am) (simp_all add: push_address_fields(1) push_address_finite)

lemma push_addresses_bound:
  assumes v: "visit_ok visit" and inv: "am_inv N am"
  shows "card (dom (addresses (push_addresses N visit as am))) \<le> unat (max_size (push_addresses N visit as am))"
proof -
  have "finite (dom (addresses (fold (push_address N visit) as am)))" by (rule push_loop_fields(2) [OF am_invD(1) [OF inv]])
  from prune_size [OF v this] prune_effect(2) [OF v this] show ?thesis by (simp add: push_addresses_def)
qed

lemma update_set_state_dom:
  "dom (addresses (update_set_state N now i st am)) = dom (addresses am)" "max_size (update_set_state N now i st am) = max_size am"
  by (cases st; auto simp: update_set_state_def Let_def dom_def split: if_splits)+

lemma update_set_service_flag_dom:
  assumes "finite (dom (addresses am))"
  shows "card (dom (addresses (update_set_service_flag N i flags am))) \<le> card (dom (addresses am))"
    and "max_size (update_set_service_flag N i flags am) = max_size am"
proof -
  have "dom (addresses (update_set_service_flag N i flags am)) \<subseteq> dom (addresses am)"
    by (auto simp: update_set_service_flag_def update_peer_services_buckets_def remove_address_def dom_def split: if_splits)
  from card_mono [OF assms this] show "card (dom (addresses (update_set_service_flag N i flags am))) \<le> card (dom (addresses am))" .
  show "max_size (update_set_service_flag N i flags am) = max_size am"
    by (simp add: update_set_service_flag_def update_peer_services_buckets_def remove_address_def)
qed

section \<open>Examples\<close>

definition demo_wire :: wire_api where
  "demo_wire = \<lparr>flag_none = 0, flag_witness = 8, flag_compact_filters = 64, flag_network_limited = 1024,
     flag_has = (\<lambda>s f. s AND f = f)\<rparr>"

definition demo_visit :: visit where
  "demo_visit m = sorted_list_of_set (dom m)"

definition demo_peer :: "usize \<Rightarrow> u64 \<Rightarrow> address_state \<Rightarrow> local_address" where
  "demo_peer i t st = \<lparr>la_address = \<lparr>sa_address = AddrIpv4 (Ipv4Addr 8 8 8 (ucast i)), sa_port = 8333\<rparr>, last_connected = t,
     la_state = st, la_services = 1024 + 8, la_id = i\<rparr>"

lemma demo_wire_laws: "wire_laws demo_wire"
  by (simp add: wire_laws_def demo_wire_def)

lemma demo_visit_ok: "visit_ok demo_visit"
  by (simp add: visit_ok_def demo_visit_def)

lemma demo_push:
  assumes "addresses am i = None" and "\<And>b. b \<in> ran (addresses am) \<Longrightarrow> la_address b \<noteq> la_address (demo_peer i t st)"
    and "finite (dom (addresses am))" and "IPv4 \<in> reachable am"
  shows "addresses (push_address demo_wire demo_visit (demo_peer i t st) am) = (addresses am)(i \<mapsto> demo_peer i t st)"
  using assms set_map_values [OF demo_visit_ok assms(3)]
  by (auto simp: push_address_def list_ex_iff is_net_reachable_def is_routable_def demo_wire_def demo_peer_def Let_def)

definition demo_am :: address_man where
  "demo_am = \<lparr>addresses = [1 \<mapsto> demo_peer 1 5 NeverTried], good_addresses = [], good_peers_by_service = Map.empty,
     peers_by_service = [0 \<mapsto> [1]], max_size = 10, reachable = {IPv4}\<rparr>"

lemma demo_connect:
  "get_address_to_connect demo_visit 100 0 (\<lambda>_. (0, 0, 0)) 0 False demo_am = (Some (1, demo_peer 1 5 NeverTried), demo_am)"
proof -
  have "map (\<lambda>_. (0, 0, 0)) [0 ..< 10] = (0, 0, 0) # map (\<lambda>_. (0 :: nat, 0 :: nat, 0 :: nat)) [1 ..< 10]"
    by (simp add: upt_conv_Cons)
  then show ?thesis
    by (simp add: get_address_to_connect_def demo_am_def demo_visit_def get_address_by_service_def get_random_address_def
        try_with_service_def pick_def demo_peer_def)
qed

definition demo_full :: address_man where
  "demo_full = fold (push_address demo_wire demo_visit) [demo_peer 1 5 NeverTried, demo_peer 2 7 NeverTried]
     (address_man_new (Some 1) [IPv4])"

lemma demo_full_addresses:
  "addresses demo_full = [1 \<mapsto> demo_peer 1 5 NeverTried, 2 \<mapsto> demo_peer 2 7 NeverTried]" "max_size demo_full = 1"
proof -
  let ?am = "push_address demo_wire demo_visit (demo_peer 1 5 NeverTried) (address_man_new (Some 1) [IPv4])"
  have one: "addresses ?am = [1 \<mapsto> demo_peer 1 5 NeverTried]"
    by (subst demo_push) (simp_all add: address_man_new_def)
  have net: "reachable ?am = {IPv4}" by (simp add: push_address_def address_man_new_def Let_def)
  have ran: "ran (addresses ?am) = {demo_peer 1 5 NeverTried}" unfolding one by (auto simp: ran_def)
  have "addresses (push_address demo_wire demo_visit (demo_peer 2 7 NeverTried) ?am) = (addresses ?am)(2 \<mapsto> demo_peer 2 7 NeverTried)"
    by (rule demo_push) (simp_all add: one net ran, simp add: demo_peer_def)
  then show "addresses demo_full = [1 \<mapsto> demo_peer 1 5 NeverTried, 2 \<mapsto> demo_peer 2 7 NeverTried]"
    by (simp add: demo_full_def one)
  show "max_size demo_full = 1" unfolding demo_full_def push_loop_fields(1) by (simp add: address_man_new_def)
qed

lemma demo_pruned:
  "addresses (prune_addresses demo_visit demo_full) = [2 \<mapsto> demo_peer 2 7 NeverTried]"
proof -
  have fin: "finite (dom (addresses demo_full))" by (simp add: demo_full_addresses)
  have "dom (addresses demo_full) = {1, 2}" by (auto simp: demo_full_addresses split: if_splits)
  moreover have "sorted_list_of_set {1, 2 :: usize} = [1, 2]" by simp
  ultimately have "ages demo_visit demo_full = [(1, 5), (2, 7)]"
    by (simp add: ages_def demo_visit_def demo_full_addresses map_filter_simps demo_peer_def)
  with \<open>dom _ = _\<close> show ?thesis
    unfolding prune_effect(1) [OF demo_visit_ok fin] by (auto simp: demo_full_addresses restrict_map_def fun_eq_iff)
qed

section \<open>Properties\<close>

text \<open>C36. Every reachable address manager is well-formed: addresses are stored under their ids, no socket address is
  stored twice, every stored address is routable, of a reachable network and has the services the node
  requires, the index of peers by service lists exactly the known peers with that service, each once, and
  there are never more addresses than the limit.\<close>

theorem address_man_invariant:
  assumes law: "wire_laws N" and v: "visit_ok visit" and "am_reachable N visit am"
  shows "am_inv N am \<and> card (dom (addresses am)) \<le> unat (max_size am)"
  using assms(3)
proof induction
  case (new limit nets)
  show ?case by (auto simp: am_inv_def service_index_exact_def address_man_new_def or_default_def)
next
  case (push am as)
  then show ?case using push_addresses_bound [OF v, of N am as] push_addresses_inv [OF v, of N am as] by simp
next
  case (connect am now r draws service feeler)
  have same: "same_but_good am (snd (get_address_to_connect visit now r draws service feeler am))"
    by (rule get_address_to_connect_effect(1) [OF surjective_pairing])
  from connect.IH same_but_good_inv [OF _ same, of N] same show ?case by (simp add: same_but_good_def)
next
  case (rearrange am now)
  then show ?case using rearrange_buckets_inv [of N am now] by (simp add: rearrange_buckets_def dom_def)
next
  case (state am now i st)
  then show ?case using update_set_state_inv [of N am now i st] by (simp add: update_set_state_dom)
next
  case (flag am i flags)
  then show ?case
    using update_set_service_flag_inv [OF law, of am i flags] update_set_service_flag_dom [OF am_invD(1), of N am N i flags] by simp
next
  case (start am rnd peers anchors)
  then show ?case
    using push_addresses_bound [OF v, of N am] push_addresses_inv [OF v, of N am] by (simp add: start_addr_man_def split: option.splits)
next
  case (fixed am rnd seeds network)
  then show ?case
    using push_addresses_bound [OF v, of N am] push_addresses_inv [OF v, of N am] by (simp add: add_fixed_addresses_def)
qed

theorem address_man_invariant_witness:
  "am_inv demo_wire (push_addresses demo_wire demo_visit [demo_peer 1 5 NeverTried, demo_peer 2 7 NeverTried] (address_man_new (Some 1) [IPv4]))
    \<and> card (dom (addresses (push_addresses demo_wire demo_visit [demo_peer 1 5 NeverTried, demo_peer 2 7 NeverTried] (address_man_new (Some 1) [IPv4])))) \<le> 1"
  using address_man_invariant [OF demo_wire_laws demo_visit_ok am_reachable.push [OF am_reachable.new],
      of "[demo_peer 1 5 NeverTried, demo_peer 2 7 NeverTried]" "Some 1" "[IPv4]"] demo_pruned
  by (simp add: push_addresses_def demo_full_def)



text \<open>C38. When addresses are pushed to a full manager, the ones that are dropped were heard of no later than any
  that is kept.\<close>

theorem pruning_drops_oldest:
  assumes "visit_ok visit" and "finite (dom (addresses am))"
    and "addresses (fold (push_address N visit) as am) i = Some a" and "addresses (push_addresses N visit as am) i = None"
    and "addresses (push_addresses N visit as am) j = Some b"
  shows "last_connected a \<le> last_connected b"
  by (rule prune_oldest [OF assms(1) push_loop_fields(2) [OF assms(2)] assms(3)])
    (use assms(4,5) in \<open>simp_all add: push_addresses_def\<close>)

theorem pruning_drops_oldest_witness: "last_connected (demo_peer 1 5 NeverTried) \<le> last_connected (demo_peer 2 7 NeverTried)"
  by (rule pruning_drops_oldest [of demo_visit "address_man_new (Some 1) [IPv4]" demo_wire
        "[demo_peer 1 5 NeverTried, demo_peer 2 7 NeverTried]" 1 _ 2])
    (use demo_visit_ok demo_pruned demo_full_addresses in \<open>simp_all add: address_man_new_def push_addresses_def demo_full_def\<close>)

end
