(* ===== verification/Onion.thy ===== *)
theory Onion
  imports Net_Address
begin

text \<open>
  Tor onion-service addresses (\<^verbatim>\<open>onion.rs\<close>): base32 text to bytes and back, the checksum, and the
  conversions from keys. A Rust string is the list of its UTF-8 bytes, written as characters; the length,
  the prefix tests and the replacement of the source work on these bytes. SHA3-256 is the argument
  \<open>sha3_256\<close>. Where the source would panic the result is \<open>None\<close>.
\<close>

section \<open>Definitions\<close>

definition BASE32_ALPHABET :: string where
  "BASE32_ALPHABET = ''abcdefghijklmnopqrstuvwxyz234567''"

definition ONION_SUFFIX :: string where
  "ONION_SUFFIX = ''.onion''"

definition ONION_ENCODING_VERSION :: u8 where
  "ONION_ENCODING_VERSION = 3"

definition PUBKEY_LENGTH :: nat where
  "PUBKEY_LENGTH = 32"

definition CHECKSUM_LENGTH :: nat where
  "CHECKSUM_LENGTH = 2"

definition CHUNK_LENGTH_BYTES :: nat where
  "CHUNK_LENGTH_BYTES = 5"

record onion_v3_addr =
  on_pubkey :: bytes
  on_version :: u8

datatype base32_decode_error =
    Base32InvalidLength
  | InvalidBase32Character char
  | NotAsciiString

datatype onion_address_decode_error =
    OnionBase32 base32_decode_error
  | MissingDotOnion
  | OnionInvalidChecksum
  | InvalidOnionVersion
  | OnionInvalidLength

definition onion_pubkey_try_from :: "bytes \<Rightarrow> bytes option" where
  "onion_pubkey_try_from v = (if length v \<noteq> PUBKEY_LENGTH then None else Some v)"

definition onion_from_slice :: "bytes \<Rightarrow> onion_v3_addr option" where
  "onion_from_slice key = map_option (\<lambda>k. \<lparr>on_pubkey = k, on_version = ONION_ENCODING_VERSION\<rparr>) (onion_pubkey_try_from key)"

definition onion_from_addr_v2 :: "addr_v2 \<Rightarrow> onion_v3_addr option" where
  "onion_from_addr_v2 a =
     (case a of
        AddrTorV3 key \<Rightarrow> map_option (\<lambda>k. \<lparr>on_pubkey = k, on_version = ONION_ENCODING_VERSION\<rparr>) (onion_pubkey_try_from key)
      | _ \<Rightarrow> None)"

definition onion_checksum :: "(bytes \<Rightarrow> bytes) \<Rightarrow> onion_v3_addr \<Rightarrow> bytes" where
  "onion_checksum sha3_256 a =
     take CHECKSUM_LENGTH (sha3_256 (map of_char ''.onion checksum'' @ on_pubkey a @ [on_version a]))"

section \<open>Base32\<close>

function b32_encode_loop :: "u64 \<Rightarrow> nat \<Rightarrow> nat \<Rightarrow> string" where
  "b32_encode_loop w offset tot =
     (if tot > 0 then
        let remainder = ucast (drop_bit offset (w AND push_bit offset 31)) :: u8 in
        BASE32_ALPHABET ! unat remainder # b32_encode_loop w (offset - CHUNK_LENGTH_BYTES) (tot - CHUNK_LENGTH_BYTES)
      else [])"
  by pat_completeness auto
termination
  by (relation "measure (\<lambda>(_, _, tot). tot)") (simp_all add: CHUNK_LENGTH_BYTES_def)

declare b32_encode_loop.simps [simp del]

definition b32_encode_chunk :: "bytes \<Rightarrow> u8 \<Rightarrow> string option" where
  "b32_encode_chunk chunk tot =
     (if length chunk \<noteq> CHUNK_LENGTH_BYTES then None
      else let padded_chunk = chunk @ replicate (8 - CHUNK_LENGTH_BYTES) 0;
               chunk_as_u64 = of_nat (be_value padded_chunk) :: u64
           in Some (b32_encode_loop chunk_as_u64 (64 - CHUNK_LENGTH_BYTES) (unat tot)))"

text \<open>\<^verbatim>\<open>slice::chunks\<close>: the last chunk may be shorter.\<close>

function slice_chunks :: "nat \<Rightarrow> 'a list \<Rightarrow> 'a list list" where
  "slice_chunks n xs = (if n = 0 \<or> xs = [] then [] else take n xs # slice_chunks n (drop n xs))"
  by pat_completeness auto
termination
  by (relation "measure (\<lambda>(_, xs). length xs)") auto

declare slice_chunks.simps [simp del]

fun b32_encode_chunks :: "bytes list \<Rightarrow> string option" where
  "b32_encode_chunks [] = Some []"
| "b32_encode_chunks (chunk # rest) =
     Option.bind (b32_encode_chunk chunk (of_nat (length chunk * 8))) (\<lambda>s.
     map_option (\<lambda>t. s @ t) (b32_encode_chunks rest))"

definition b32_encode :: "(bytes \<Rightarrow> bytes) \<Rightarrow> onion_v3_addr \<Rightarrow> string option" where
  "b32_encode sha3_256 a =
     b32_encode_chunks (slice_chunks CHUNK_LENGTH_BYTES (on_pubkey a @ onion_checksum sha3_256 a @ [on_version a]))"

definition as_human_readable :: "(bytes \<Rightarrow> bytes) \<Rightarrow> onion_v3_addr \<Rightarrow> string option" where
  "as_human_readable sha3_256 a = map_option (\<lambda>s. s @ ONION_SUFFIX) (b32_encode sha3_256 a)"

definition is_ascii :: "char \<Rightarrow> bool" where
  "is_ascii c \<longleftrightarrow> (of_char c :: nat) < 128"

fun position_from :: "nat \<Rightarrow> string \<Rightarrow> char \<Rightarrow> nat option" where
  "position_from n [] ch = None"
| "position_from n (c # cs) ch = (if c = ch then Some n else position_from (Suc n) cs ch)"

definition b32_get_char_value :: "char \<Rightarrow> nat option" where
  "b32_get_char_value ch = position_from 0 BASE32_ALPHABET ch"

text \<open>The offset starts at 59 and drops by 5 for each of the eight characters of a chunk.\<close>

fun b32_decode_loop :: "string \<Rightarrow> nat \<Rightarrow> u64 \<Rightarrow> base32_decode_error + u64" where
  "b32_decode_loop [] offset acc = Inr acc"
| "b32_decode_loop (ch # chs) offset acc =
     bindE (reject_if (\<not> is_ascii ch) (InvalidBase32Character ch)) (\<lambda>_.
     bindE (ok_or (InvalidBase32Character ch) (b32_get_char_value ch)) (\<lambda>val.
     b32_decode_loop chs (offset - CHUNK_LENGTH_BYTES) (acc OR push_bit offset (of_nat val))))"

definition b32_decode_chunk :: "string \<Rightarrow> base32_decode_error + bytes" where
  "b32_decode_chunk chunk =
     bindE (b32_decode_loop chunk (64 - CHUNK_LENGTH_BYTES) 0) (\<lambda>acc.
     Inr (take CHUNK_LENGTH_BYTES (rev (to_le_bytes 8 (unat acc)))))"

fun b32_decode_chunks :: "nat \<Rightarrow> string \<Rightarrow> base32_decode_error + bytes" where
  "b32_decode_chunks 0 value = Inr []"
| "b32_decode_chunks (Suc n) value =
     bindE (b32_decode_chunk (take 8 value)) (\<lambda>decoded.
     bindE (b32_decode_chunks n (drop 8 value)) (\<lambda>rest. Inr (decoded @ rest)))"

definition b32_decode :: "string \<Rightarrow> base32_decode_error + bytes" where
  "b32_decode value =
     bindE (reject_if (\<not> list_all is_ascii value) NotAsciiString) (\<lambda>_.
     bindE (reject_if (value = [] \<or> length value mod 8 \<noteq> 0) Base32InvalidLength) (\<lambda>_.
     b32_decode_chunks (length value div 8) value))"

text \<open>\<^verbatim>\<open>str::ends_with\<close> and \<^verbatim>\<open>str::replace\<close> with the empty string, for the onion suffix.\<close>

definition ends_with_onion :: "string \<Rightarrow> bool" where
  "ends_with_onion s \<longleftrightarrow> length ONION_SUFFIX \<le> length s \<and> drop (length s - length ONION_SUFFIX) s = ONION_SUFFIX"

function replace_onion :: "string \<Rightarrow> string" where
  "replace_onion s =
     (case s of
        [] \<Rightarrow> []
      | c # cs \<Rightarrow> if take 6 s = ONION_SUFFIX then replace_onion (drop 5 cs) else c # replace_onion cs)"
  by pat_completeness auto
termination
  by (relation "measure length") auto

declare replace_onion.simps [simp del]

definition onion_address_from_b32 :: "(bytes \<Rightarrow> bytes) \<Rightarrow> string \<Rightarrow> onion_address_decode_error + onion_v3_addr" where
  "onion_address_from_b32 sha3_256 address =
     bindE (reject_if (\<not> ends_with_onion address) MissingDotOnion) (\<lambda>_.
     bindE (map_err OnionBase32 (b32_decode (replace_onion address))) (\<lambda>decoded_bytes.
     bindE (reject_if (length decoded_bytes \<noteq> 35) OnionInvalidLength) (\<lambda>_.
     let pubkey = take 32 decoded_bytes; checksum = take 2 (drop 32 decoded_bytes); version = decoded_bytes ! 34 in
     bindE (reject_if (version \<noteq> ONION_ENCODING_VERSION) InvalidOnionVersion) (\<lambda>_.
     let onion_address = \<lparr>on_pubkey = pubkey, on_version = version\<rparr> in
     bindE (reject_if (onion_checksum sha3_256 onion_address \<noteq> checksum) OnionInvalidChecksum) (\<lambda>_.
     Inr onion_address)))))"

definition onion_into_bytes :: "onion_v3_addr \<Rightarrow> bytes" where
  "onion_into_bytes a = on_pubkey a"

section \<open>The alphabet\<close>

lemma alphabet: "distinct BASE32_ALPHABET" "length BASE32_ALPHABET = 32" "list_all is_ascii BASE32_ALPHABET" "CHR ''.'' \<notin> set BASE32_ALPHABET"
  by (simp_all add: BASE32_ALPHABET_def is_ascii_def)

lemma position_from_SomeD: "position_from n xs c = Some v \<Longrightarrow> n \<le> v \<and> v - n < length xs \<and> xs ! (v - n) = c"
  by (induction n xs c rule: position_from.induct) (auto simp: nth_Cons' split: if_splits)

lemma position_from_nth: "distinct xs \<Longrightarrow> i < length xs \<Longrightarrow> position_from n xs (xs ! i) = Some (n + i)"
proof (induction xs arbitrary: n i)
  case Nil
  then show ?case by simp
next
  case (Cons x xs)
  then show ?case by (cases i) auto
qed

lemma char_value_iff: "b32_get_char_value c = Some v \<longleftrightarrow> v < 32 \<and> c = BASE32_ALPHABET ! v"
  using position_from_SomeD [of 0 BASE32_ALPHABET c v] position_from_nth [OF alphabet(1), of v 0] alphabet(2)
  by (auto simp: b32_get_char_value_def)

lemma alphabet_nth_ascii: "v < 32 \<Longrightarrow> is_ascii (BASE32_ALPHABET ! v) \<and> BASE32_ALPHABET ! v \<noteq> CHR ''.''"
  using alphabet by (metis list_all_length nth_mem)

section \<open>Eight digits of five bits\<close>

text \<open>The digits of a word from the top, and the word with given digits.\<close>

definition digits :: "u64 \<Rightarrow> nat list" where
  "digits w = map (\<lambda>off. unat (drop_bit off w AND 31)) [59, 54, 49, 44, 39, 34, 29, 24]"

fun pack :: "nat \<Rightarrow> nat list \<Rightarrow> u64" where
  "pack off [] = 0"
| "pack off (v # vs) = push_bit off (of_nat v) OR pack (off - 5) vs"

lemma bit_31: "bit (31 :: int) n \<longleftrightarrow> n < 5"
proof -
  have "(31 :: int) = mask 5" by (simp add: mask_eq_exp_minus_1)
  then show ?thesis by (simp only: bit_mask_iff) simp
qed

lemma digits_bound: "v \<in> set (digits w) \<Longrightarrow> v < 32" "length (digits w) = 8"
proof -
  have "unat (u AND 31 :: u64) < 32" for u :: u64
    using word_and_le1 [of u 31] by (simp add: word_le_nat_alt)
  then show "v \<in> set (digits w) \<Longrightarrow> v < 32" by (auto simp: digits_def)
qed (simp add: digits_def)

lemma bit_piece: "n < 64 \<Longrightarrow> bit (push_bit off (drop_bit off w AND 31) :: u64) n \<longleftrightarrow> off \<le> n \<and> n < off + 5 \<and> bit w n"
  by (auto simp: bit_simps bit_31)

lemma pack_digits:
  assumes "take_bit 24 w = 0"
  shows "pack 59 (digits w) = w"
proof (rule bit_word_eqI)
  fix n assume "n < LENGTH(64)"
  then have n: "n < 64" by simp
  have low: "\<not> bit w n" if "n < 24" using assms that by (metis bit_0_eq bit_take_bit_iff bot_apply bot_bool_def)
  have "pack 59 (digits w) = push_bit 59 (drop_bit 59 w AND 31) OR (push_bit 54 (drop_bit 54 w AND 31) OR
      (push_bit 49 (drop_bit 49 w AND 31) OR (push_bit 44 (drop_bit 44 w AND 31) OR (push_bit 39 (drop_bit 39 w AND 31) OR
      (push_bit 34 (drop_bit 34 w AND 31) OR (push_bit 29 (drop_bit 29 w AND 31) OR push_bit 24 (drop_bit 24 w AND 31)))))))"
    by (simp add: digits_def)
  then show "bit (pack 59 (digits w)) n = bit w n"
    using n low by (simp only: bit_or_iff bit_piece [OF n]) linarith
qed

lemma bit_digit:
  assumes "v < 32"
  shows "n < 64 \<Longrightarrow> bit (push_bit off (of_nat v) :: u64) n \<longleftrightarrow> off \<le> n \<and> n < off + 5 \<and> bit v (n - off)"
proof -
  have "\<not> bit v k" if "5 \<le> k" for k
  proof -
    have "take_bit 5 v = v" using assms by (simp add: take_bit_nat_eq_self)
    then show ?thesis using that by (metis bit_take_bit_iff leD)
  qed
  then show "n < 64 \<Longrightarrow> bit (push_bit off (of_nat v) :: u64) n \<longleftrightarrow> off \<le> n \<and> n < off + 5 \<and> bit v (n - off)"
    by (auto simp: bit_push_bit_iff bit_of_nat_iff) (metis le_diff_conv2 add.commute not_less)
qed

lemma digitI:
  assumes "v < 32" and "\<And>k. k < 5 \<Longrightarrow> off + k < 64 \<and> (bit w (off + k) \<longleftrightarrow> bit v k)"
  shows "unat (drop_bit off w AND 31 :: u64) = v"
proof -
  have "drop_bit off w AND 31 = (of_nat v :: u64)"
  proof (rule bit_word_eqI)
    fix n assume "n < LENGTH(64)"
    then show "bit (drop_bit off w AND 31) n = bit (of_nat v :: u64) n"
      using assms bit_digit [OF assms(1), of n 0] by (auto simp: bit_simps bit_31)
  qed
  then show ?thesis using assms(1) by (simp add: unat_of_nat)
qed

lemma digits_pack:
  assumes "length vs = 8" and "\<forall>v \<in> set vs. v < 32"
  shows "digits (pack 59 vs) = vs" and "take_bit 24 (pack 59 vs) = 0"
proof -
  obtain v0 v1 v2 v3 v4 v5 v6 v7 where vs: "vs = [v0, v1, v2, v3, v4, v5, v6, v7]"
    using assms(1) by (auto simp: numeral_eq_Suc length_Suc_conv)
  have v: "v0 < 32" "v1 < 32" "v2 < 32" "v3 < 32" "v4 < 32" "v5 < 32" "v6 < 32" "v7 < 32" using assms(2) vs by auto
  note bits = bit_or_iff bit_digit [OF v(1)] bit_digit [OF v(2)] bit_digit [OF v(3)] bit_digit [OF v(4)]
    bit_digit [OF v(5)] bit_digit [OF v(6)] bit_digit [OF v(7)] bit_digit [OF v(8)]
  have w: "pack 59 vs = push_bit 59 (of_nat v0) OR (push_bit 54 (of_nat v1) OR (push_bit 49 (of_nat v2) OR
      (push_bit 44 (of_nat v3) OR (push_bit 39 (of_nat v4) OR (push_bit 34 (of_nat v5) OR
      (push_bit 29 (of_nat v6) OR push_bit 24 (of_nat v7)))))))"
    by (simp add: vs)
  have "unat (drop_bit 59 (pack 59 vs) AND 31) = v0" by (rule digitI [OF v(1)]) (simp add: w bits)
  moreover have "unat (drop_bit 54 (pack 59 vs) AND 31) = v1" by (rule digitI [OF v(2)]) (simp add: w bits)
  moreover have "unat (drop_bit 49 (pack 59 vs) AND 31) = v2" by (rule digitI [OF v(3)]) (simp add: w bits)
  moreover have "unat (drop_bit 44 (pack 59 vs) AND 31) = v3" by (rule digitI [OF v(4)]) (simp add: w bits)
  moreover have "unat (drop_bit 39 (pack 59 vs) AND 31) = v4" by (rule digitI [OF v(5)]) (simp add: w bits)
  moreover have "unat (drop_bit 34 (pack 59 vs) AND 31) = v5" by (rule digitI [OF v(6)]) (simp add: w bits)
  moreover have "unat (drop_bit 29 (pack 59 vs) AND 31) = v6" by (rule digitI [OF v(7)]) (simp add: w bits)
  moreover have "unat (drop_bit 24 (pack 59 vs) AND 31) = v7" by (rule digitI [OF v(8)]) (simp add: w bits)
  ultimately show "digits (pack 59 vs) = vs" by (simp add: digits_def vs)
  show "take_bit 24 (pack 59 vs) = 0"
    by (rule bit_word_eqI) (simp add: w bit_take_bit_iff bits)
qed

section \<open>A chunk\<close>

lemma digit_cast: "unat (ucast (u AND 31) :: u8) = unat (u AND 31 :: u64)"
  using word_and_le1 [of u 31] by (simp add: word_le_nat_alt unsigned_ucast_eq unsigned_take_bit_eq take_bit_nat_eq_self)

lemma encode_loop_digits: "b32_encode_loop w 59 40 = map (\<lambda>v. BASE32_ALPHABET ! v) (digits w)"
  by (simp add: b32_encode_loop.simps CHUNK_LENGTH_BYTES_def digits_def digit_cast Let_def)

text \<open>The eight bytes of a word whose last three are zero.\<close>

lemma padded_bytes:
  assumes "length bs = 5"
  shows "take_bit 24 (of_nat (be_value (bs @ [0, 0, 0])) :: u64) = 0"
    and "rev (to_le_bytes 8 (unat (of_nat (be_value (bs @ [0, 0, 0])) :: u64))) = bs @ [0, 0, 0]"
proof -
  have "le_value (0 # 0 # 0 # rev bs) = 2 ^ 24 * le_value (rev bs)" by simp
  then have v: "be_value (bs @ [0, 0, 0]) = 2 ^ 24 * le_value (rev bs)" by (simp add: be_value_def)
  have "le_value (rev (bs @ [0, 0, 0])) < 256 ^ length (rev (bs @ [0, 0, 0]))" by (rule le_value_less)
  then have b: "be_value (bs @ [0, 0, 0]) < 2 ^ 64" using assms by (simp add: be_value_def)
  have "take_bit 24 (be_value (bs @ [0, 0, 0])) = 0" using v by (simp add: take_bit_eq_mod)
  then show "take_bit 24 (of_nat (be_value (bs @ [0, 0, 0])) :: u64) = 0" by (simp add: take_bit_of_nat)
  have "unat (of_nat (be_value (bs @ [0, 0, 0])) :: u64) = be_value (bs @ [0, 0, 0])" using b by (simp add: unat_of_nat)
  moreover have "to_le_bytes 8 (be_value (bs @ [0, 0, 0])) = rev (bs @ [0, 0, 0])"
    using to_le_bytes_le_value [of "rev (bs @ [0, 0, 0])"] assms by (simp add: be_value_def)
  ultimately show "rev (to_le_bytes 8 (unat (of_nat (be_value (bs @ [0, 0, 0])) :: u64))) = bs @ [0, 0, 0]" by simp
qed

lemma padded_word:
  fixes w :: u64
  assumes "take_bit 24 w = 0"
  shows "of_nat (be_value (take 5 (rev (to_le_bytes 8 (unat w))) @ [0, 0, 0])) = w"
proof -
  have "unat w mod 2 ^ 24 = 0" using assms by (metis take_bit_eq_mod unsigned_0 unsigned_take_bit_eq)
  then obtain q where q: "unat w = 2 ^ 24 * q" by (auto simp: mod_eq_0_iff_dvd elim: dvdE)
  then have "to_le_bytes 8 (unat w) = to_le_bytes (Suc (Suc (Suc 5))) (256 * (256 * (256 * q)))" by simp
  then have "to_le_bytes 8 (unat w) = [0, 0, 0] @ to_le_bytes 5 q" by (simp only: to_le_bytes.simps) simp
  then have "take 5 (rev (to_le_bytes 8 (unat w))) @ [0, 0, 0] = rev (to_le_bytes 8 (unat w))" by simp
  moreover have "be_value (rev (to_le_bytes 8 (unat w))) = unat w"
    using unsigned_less [of w, where ?'a = nat] by (simp add: be_value_def le_value_to_le_bytes)
  ultimately show ?thesis by simp
qed

lemma decode_loop_Inr:
  "b32_decode_loop chs off acc = Inr w \<longleftrightarrow>
     (\<exists>vs. (\<forall>v \<in> set vs. v < 32) \<and> chs = map (\<lambda>v. BASE32_ALPHABET ! v) vs \<and> w = acc OR pack off vs)"
proof (induction chs off acc rule: b32_decode_loop.induct)
  case (1 off acc)
  then show ?case by auto
next
  case (2 ch chs off acc)
  show ?case
  proof (cases "b32_get_char_value ch")
    case None
    then have "ch \<noteq> BASE32_ALPHABET ! v" if "v < 32" for v using that char_value_iff [of ch v] by simp
    with None show ?thesis by (fastforce simp: Cons_eq_map_conv ok_or_def res_simps)
  next
    case (Some v)
    then have v: "v < 32" "ch = BASE32_ALPHABET ! v" by (simp_all add: char_value_iff)
    then have uniq: "u < 32 \<Longrightarrow> ch = BASE32_ALPHABET ! u \<Longrightarrow> u = v" for u
      using Some char_value_iff [of ch u] by simp
    from v alphabet_nth_ascii have "is_ascii ch" by simp
    with Some have "b32_decode_loop (ch # chs) off acc = b32_decode_loop chs (off - 5) (acc OR push_bit off (of_nat v))"
      by (simp add: CHUNK_LENGTH_BYTES_def)
    also have "\<dots> = Inr w \<longleftrightarrow> (\<exists>vs. (\<forall>v \<in> set vs. v < 32) \<and> chs = map (\<lambda>v. BASE32_ALPHABET ! v) vs
        \<and> w = (acc OR push_bit off (of_nat v)) OR pack (off - 5) vs)"
      using 2 [of "()" v] Some \<open>is_ascii ch\<close> by (simp add: CHUNK_LENGTH_BYTES_def ok_or_def)
    also have "\<dots> \<longleftrightarrow> (\<exists>vs. (\<forall>v \<in> set vs. v < 32) \<and> ch # chs = map (\<lambda>v. BASE32_ALPHABET ! v) vs \<and> w = acc OR pack off vs)"
      (is "?l \<longleftrightarrow> ?r")
    proof
      assume ?l
      then obtain vs where "\<forall>v \<in> set vs. v < 32" "chs = map (\<lambda>v. BASE32_ALPHABET ! v) vs"
        "w = (acc OR push_bit off (of_nat v)) OR pack (off - 5) vs" by blast
      with v show ?r by (intro exI [of _ "v # vs"]) (simp add: or.assoc)
    next
      assume ?r
      then obtain u us where us: "\<forall>v \<in> set (u # us). v < 32" "ch = BASE32_ALPHABET ! u" "chs = map (\<lambda>v. BASE32_ALPHABET ! v) us"
        "w = acc OR pack off (u # us)" by (auto simp: Cons_eq_map_conv)
      moreover have "u = v" by (rule uniq) (use us in simp_all)
      ultimately show ?l by (intro exI [of _ us]) (simp add: or.assoc)
    qed
    finally show ?thesis .
  qed
qed

lemma encode_chunk_eq:
  "b32_encode_chunk bs 40 =
     (if length bs = 5 then Some (map (\<lambda>v. BASE32_ALPHABET ! v) (digits (of_nat (be_value (bs @ [0, 0, 0]))))) else None)"
proof -
  have "replicate 3 (0 :: u8) = [0, 0, 0]" by (simp add: numeral_3_eq_3)
  then show ?thesis using encode_loop_digits by (simp add: b32_encode_chunk_def CHUNK_LENGTH_BYTES_def)
qed

lemma decode_chunk_exact:
  assumes "length s = 8"
  shows "b32_decode_chunk s = Inr bs \<longleftrightarrow> b32_encode_chunk bs 40 = Some s"
proof
  assume "b32_decode_chunk s = Inr bs"
  then obtain w where w: "b32_decode_loop s 59 0 = Inr w" and bs: "bs = take 5 (rev (to_le_bytes 8 (unat w)))"
    by (auto simp: b32_decode_chunk_def CHUNK_LENGTH_BYTES_def res_simps)
  from w obtain vs where vs: "\<forall>v \<in> set vs. v < 32" "s = map (\<lambda>v. BASE32_ALPHABET ! v) vs" "w = pack 59 vs"
    by (auto simp: decode_loop_Inr)
  with assms have "digits w = vs" "take_bit 24 w = 0" using digits_pack [of vs] by simp_all
  then show "b32_encode_chunk bs 40 = Some s"
    using padded_word [of w] vs(2) by (simp add: encode_chunk_eq bs)
next
  assume enc: "b32_encode_chunk bs 40 = Some s"
  let ?w = "of_nat (be_value (bs @ [0, 0, 0])) :: u64"
  from enc have len: "length bs = 5" and s: "s = map (\<lambda>v. BASE32_ALPHABET ! v) (digits ?w)"
    by (simp_all add: encode_chunk_eq split: if_splits)
  have "b32_decode_loop s 59 0 = Inr ?w"
    unfolding decode_loop_Inr using s digits_bound(1) pack_digits [OF padded_bytes(1) [OF len]]
    by (intro exI [of _ "digits ?w"]) simp
  then show "b32_decode_chunk s = Inr bs"
    using padded_bytes(2) [OF len] len by (simp add: b32_decode_chunk_def CHUNK_LENGTH_BYTES_def)
qed

lemma encode_chunk_shape:
  assumes "b32_encode_chunk bs 40 = Some s"
  shows "length bs = 5 \<and> length s = 8 \<and> (\<forall>c \<in> set s. is_ascii c \<and> c \<noteq> CHR ''.'')"
proof -
  obtain w where s: "length bs = 5" "s = map (\<lambda>v. BASE32_ALPHABET ! v) (digits w)"
    using assms by (auto simp: encode_chunk_eq split: if_splits)
  have "\<forall>v \<in> set (digits w). is_ascii (BASE32_ALPHABET ! v) \<and> BASE32_ALPHABET ! v \<noteq> CHR ''.''"
    using digits_bound(1) alphabet_nth_ascii by blast
  then show ?thesis using s digits_bound(2) by (simp add: ball_simps)
qed

section \<open>Payloads and addresses\<close>

lemma slice_chunks_step: "length b = 5 \<Longrightarrow> slice_chunks 5 (b @ bs) = b # slice_chunks 5 bs"
  by (subst slice_chunks.simps) auto

lemma decode_chunks_exact:
  "length s = 8 * n \<Longrightarrow> b32_decode_chunks n s = Inr bs \<longleftrightarrow> length bs = 5 * n \<and> b32_encode_chunks (slice_chunks 5 bs) = Some s"
proof (induction n arbitrary: s bs)
  case 0
  then show ?case by (auto simp: slice_chunks.simps)
next
  case (Suc n)
  have len: "length (take 8 s) = 8" "length (drop 8 s) = 8 * n" using Suc.prems by simp_all
  have "b32_decode_chunks (Suc n) s = Inr bs \<longleftrightarrow>
     (\<exists>b r. bs = b @ r \<and> b32_encode_chunk b 40 = Some (take 8 s) \<and> length r = 5 * n \<and> b32_encode_chunks (slice_chunks 5 r) = Some (drop 8 s))"
    using decode_chunk_exact [OF len(1)] Suc.IH [OF len(2)] by (auto simp: res_simps)
  also have "\<dots> \<longleftrightarrow> length bs = 5 * Suc n \<and> b32_encode_chunks (slice_chunks 5 bs) = Some s" (is "?l \<longleftrightarrow> ?r")
  proof
    assume ?l
    then show ?r using encode_chunk_shape by (force simp: slice_chunks_step)
  next
    assume r: ?r
    define b r' where "b = take 5 bs" "r' = drop 5 bs"
    then have bs: "bs = b @ r'" "length b = 5" "length r' = 5 * n" using r by simp_all
    with r obtain s1 s2 where "b32_encode_chunk b 40 = Some s1" "b32_encode_chunks (slice_chunks 5 r') = Some s2" "s = s1 @ s2"
      by (auto simp: slice_chunks_step bind_eq_Some_conv)
    with bs encode_chunk_shape [of b s1] show ?l by auto
  qed
  finally show ?case .
qed

lemma encode_chunks_shape:
  "length bs = 5 * n \<Longrightarrow> \<exists>s. b32_encode_chunks (slice_chunks 5 bs) = Some s \<and> length s = 8 * n \<and> (\<forall>c \<in> set s. is_ascii c \<and> c \<noteq> CHR ''.'')"
proof (induction n arbitrary: bs)
  case 0
  then show ?case by (simp add: slice_chunks.simps)
next
  case (Suc n)
  define b r where "b = take 5 bs" "r = drop 5 bs"
  then have bs: "bs = b @ r" "length b = 5" "length r = 5 * n" using Suc.prems by simp_all
  from Suc.IH [OF bs(3)] obtain s where s: "b32_encode_chunks (slice_chunks 5 r) = Some s" "length s = 8 * n"
    "\<forall>c \<in> set s. is_ascii c \<and> c \<noteq> CHR ''.''" by blast
  obtain t where t: "b32_encode_chunk b 40 = Some t" using bs(2) by (simp add: encode_chunk_eq)
  from encode_chunk_shape [OF t] s bs t show ?case by (auto simp: slice_chunks_step)
qed

lemma payload_length:
  assumes "length (on_pubkey a) = 32" and "\<forall>x. length (sha x) = 32"
  shows "length (on_pubkey a @ onion_checksum sha a @ [on_version a]) = 5 * 7"
  using assms by (simp add: onion_checksum_def CHECKSUM_LENGTH_def)

lemma replace_onion_dotless: "CHR ''.'' \<notin> set s \<Longrightarrow> replace_onion (s @ ONION_SUFFIX) = s"
proof (induction s)
  case Nil
  show ?case by (simp add: replace_onion.simps ONION_SUFFIX_def)
next
  case (Cons c s)
  then have "take 6 (c # s @ ONION_SUFFIX) \<noteq> ONION_SUFFIX" by (auto simp: ONION_SUFFIX_def)
  with Cons show ?case by (subst replace_onion.simps) simp
qed

lemma decode_payload:
  "b32_decode s = Inr bs \<and> length bs = 35 \<longleftrightarrow> length bs = 35 \<and> b32_encode_chunks (slice_chunks 5 bs) = Some s"
proof
  assume l: "b32_decode s = Inr bs \<and> length bs = 35"
  then have "b32_decode_chunks (length s div 8) s = Inr bs" "length s = 8 * (length s div 8)"
    by (auto simp: b32_decode_def res_simps split: if_splits)
  with decode_chunks_exact [OF this(2), of bs] l show "length bs = 35 \<and> b32_encode_chunks (slice_chunks 5 bs) = Some s" by simp
next
  assume r: "length bs = 35 \<and> b32_encode_chunks (slice_chunks 5 bs) = Some s"
  then have len: "length s = 8 * 7" "\<forall>c \<in> set s. is_ascii c" using encode_chunks_shape [of bs 7] by auto
  with r decode_chunks_exact [OF len(1), of bs] show "b32_decode s = Inr bs \<and> length bs = 35"
    by (cases s) (auto simp: b32_decode_def list_all_iff)
qed

lemma bytes_split: "length bs = 35 \<Longrightarrow> bs = take 32 bs @ take 2 (drop 32 bs) @ [bs ! 34]"
proof (rule nth_equalityI)
  fix i assume "length bs = 35" "i < length bs"
  then consider "i < 32" | "i = 32" | "i = 33" | "i = 34" by fastforce
  then show "bs ! i = (take 32 bs @ take 2 (drop 32 bs) @ [bs ! 34]) ! i"
    using \<open>length bs = 35\<close> by cases (simp_all add: nth_append)
qed simp

lemma from_b32_exact:
  assumes sha: "\<forall>x. length (sha3_256 x) = 32"
  shows "onion_address_from_b32 sha3_256 s = Inr a \<longleftrightarrow>
     ends_with_onion s \<and> length (on_pubkey a) = 32 \<and> on_version a = ONION_ENCODING_VERSION
     \<and> as_human_readable sha3_256 a = Some (replace_onion s @ ONION_SUFFIX)"
proof
  assume "onion_address_from_b32 sha3_256 s = Inr a"
  then obtain bs where bs: "b32_decode (replace_onion s) = Inr bs \<and> length bs = 35" "ends_with_onion s"
    "bs ! 34 = ONION_ENCODING_VERSION" "a = \<lparr>on_pubkey = take 32 bs, on_version = bs ! 34\<rparr>"
    "onion_checksum sha3_256 a = take 2 (drop 32 bs)"
    by (auto simp: onion_address_from_b32_def Let_def res_simps split: if_splits)
  then have "on_pubkey a @ onion_checksum sha3_256 a @ [on_version a] = bs" using bytes_split [of bs] by simp
  with bs show "ends_with_onion s \<and> length (on_pubkey a) = 32 \<and> on_version a = ONION_ENCODING_VERSION
     \<and> as_human_readable sha3_256 a = Some (replace_onion s @ ONION_SUFFIX)"
    by (auto simp: decode_payload as_human_readable_def b32_encode_def CHUNK_LENGTH_BYTES_def)
next
  assume r: "ends_with_onion s \<and> length (on_pubkey a) = 32 \<and> on_version a = ONION_ENCODING_VERSION
     \<and> as_human_readable sha3_256 a = Some (replace_onion s @ ONION_SUFFIX)"
  define bs where "bs = on_pubkey a @ onion_checksum sha3_256 a @ [on_version a]"
  have len: "length bs = 35" "length (onion_checksum sha3_256 a) = 2"
    using r sha by (simp_all add: bs_def onion_checksum_def CHECKSUM_LENGTH_def)
  with r have "b32_decode (replace_onion s) = Inr bs"
    using decode_payload [of "replace_onion s" bs] by (auto simp: as_human_readable_def b32_encode_def CHUNK_LENGTH_BYTES_def bs_def)
  moreover have "take 32 bs = on_pubkey a" "take 2 (drop 32 bs) = onion_checksum sha3_256 a" "bs ! 34 = on_version a"
    using r len by (simp_all add: bs_def nth_append)
  moreover obtain key where "a = \<lparr>on_pubkey = key, on_version = ONION_ENCODING_VERSION\<rparr>" using r by (cases a) simp
  ultimately show "onion_address_from_b32 sha3_256 s = Inr a"
    using r len by (simp add: onion_address_from_b32_def Let_def)
qed

lemma readable_parses:
  assumes sha: "\<forall>x. length (sha3_256 x) = 32" and a: "length (on_pubkey a) = 32" "on_version a = ONION_ENCODING_VERSION"
  shows "\<exists>s. as_human_readable sha3_256 a = Some s \<and> length s = 62 \<and> onion_address_from_b32 sha3_256 s = Inr a"
proof -
  obtain p where p: "b32_encode_chunks (slice_chunks 5 (on_pubkey a @ onion_checksum sha3_256 a @ [on_version a])) = Some p"
    "length p = 56" "CHR ''.'' \<notin> set p"
    using encode_chunks_shape [OF payload_length [OF a(1) sha]] by auto
  then have "as_human_readable sha3_256 a = Some (p @ ONION_SUFFIX)"
    by (simp add: as_human_readable_def b32_encode_def CHUNK_LENGTH_BYTES_def)
  moreover have "ends_with_onion (p @ ONION_SUFFIX)" by (simp add: ends_with_onion_def)
  moreover note replace_onion_dotless [OF p(3)]
  ultimately show ?thesis using a p(2) by (simp add: from_b32_exact [OF sha]) (simp add: ONION_SUFFIX_def)
qed

section \<open>Properties\<close>

text \<open>C39. A text is read as an onion address exactly if it ends in \<^verbatim>\<open>.onion\<close> and is, once every occurrence
  of \<^verbatim>\<open>.onion\<close> in it is removed, the payload with which that address is printed; the address then has a
  32-byte key and version 3. Every 32-byte key gives an address whose printed text is 62 bytes long and
  is read back as the same address.\<close>

theorem onion_text_roundtrip:
  assumes "\<forall>x. length (sha3_256 x) = 32"
  shows "(\<forall>s a. onion_address_from_b32 sha3_256 s = Inr a \<longleftrightarrow>
      ends_with_onion s \<and> length (on_pubkey a) = 32 \<and> on_version a = ONION_ENCODING_VERSION
      \<and> as_human_readable sha3_256 a = Some (replace_onion s @ ONION_SUFFIX))
    \<and> (\<forall>key. length key = 32 \<longrightarrow> (\<exists>a s. onion_from_addr_v2 (AddrTorV3 key) = Some a \<and> as_human_readable sha3_256 a = Some s
        \<and> length s = 62 \<and> onion_address_from_b32 sha3_256 s = Inr a \<and> onion_into_bytes a = key))"
proof (intro conjI allI impI)
  show "onion_address_from_b32 sha3_256 s = Inr a \<longleftrightarrow> ends_with_onion s \<and> length (on_pubkey a) = 32
      \<and> on_version a = ONION_ENCODING_VERSION \<and> as_human_readable sha3_256 a = Some (replace_onion s @ ONION_SUFFIX)" for s a
    by (rule from_b32_exact [OF assms])
  fix key :: bytes assume "length key = 32"
  then show "\<exists>a s. onion_from_addr_v2 (AddrTorV3 key) = Some a \<and> as_human_readable sha3_256 a = Some s
        \<and> length s = 62 \<and> onion_address_from_b32 sha3_256 s = Inr a \<and> onion_into_bytes a = key"
    using readable_parses [OF assms, of "\<lparr>on_pubkey = key, on_version = ONION_ENCODING_VERSION\<rparr>"]
    by (simp add: onion_from_addr_v2_def onion_pubkey_try_from_def PUBKEY_LENGTH_def onion_into_bytes_def)
qed

theorem onion_text_roundtrip_witness:
  "\<exists>a s. onion_from_addr_v2 (AddrTorV3 (replicate 32 7)) = Some a \<and> as_human_readable (\<lambda>_. replicate 32 0) a = Some s
     \<and> onion_address_from_b32 (\<lambda>_. replicate 32 0) s = Inr a \<and> onion_address_from_b32 (\<lambda>_. replicate 32 0) (ONION_SUFFIX @ s) = Inr a"
proof -
  let ?sha = "\<lambda>_ :: bytes. replicate 32 0 :: bytes"
  have sha: "\<forall>x. length (?sha x) = 32" by simp
  obtain a s where a: "onion_from_addr_v2 (AddrTorV3 (replicate 32 7)) = Some a" "as_human_readable ?sha a = Some s"
    "onion_address_from_b32 ?sha s = Inr a"
    using conjunct2 [OF onion_text_roundtrip [OF sha], THEN spec, of "replicate 32 7"] by auto
  have "replace_onion (ONION_SUFFIX @ s) = replace_onion s" by (subst replace_onion.simps) (simp add: ONION_SUFFIX_def)
  moreover have "ends_with_onion s" using a(3) onion_text_roundtrip [OF sha] by blast
  then have "ends_with_onion (ONION_SUFFIX @ s)" by (simp add: ends_with_onion_def)
  ultimately have "onion_address_from_b32 ?sha (ONION_SUFFIX @ s) = Inr a"
    using a(3) onion_text_roundtrip [OF sha] by simp
  with a show ?thesis by blast
qed

end
