(* ===== verification/Descriptor.thy ===== *)
theory Descriptor
  imports Chain_Params
begin

text \<open>
  Extended public keys and output descriptors of the watch-only wallet (\<^verbatim>\<open>descriptor/slip132.rs\<close> and
  \<^verbatim>\<open>descriptor/mod.rs\<close>). Base58, BIP32 keys and miniscript descriptors are third-party: the fields of
  \<open>key_api\<close>, whose errors are their texts. Slicing a decoded key of fewer than
  four bytes panics: \<open>SlipPanic\<close>.
\<close>

section \<open>Third-party keys and descriptors\<close>

record ('x, 'k) key_api =
  base58_decode_check :: "string \<Rightarrow> string + bytes"
  xpub_decode :: "bytes \<Rightarrow> string + 'x"
  xpub_text :: "'x \<Rightarrow> string"
  desc_from_str :: "string \<Rightarrow> string + 'k"
  desc_text :: "'k \<Rightarrow> string"
  desc_sanity_check :: "'k \<Rightarrow> string + unit"
  desc_into_single :: "'k \<Rightarrow> string + 'k list"
  desc_has_wildcard :: "'k \<Rightarrow> bool"
  desc_script_at :: "'k \<Rightarrow> u32 \<Rightarrow> string + bytes"

section \<open>Extended keys\<close>

datatype slip132_error = Base58 string | Bip32 string | UnknownSlip32Prefix | XprivUnsupported | XpubMultisigUnsupported | SlipPanic string

datatype descriptor_error =
    XpubParseError slip132_error
  | XpubNetworkMismatch string
  | MiniscriptError string
  | DeriveDescriptorError string

definition VERSION_MAGIC_XPUB :: bytes where
  "VERSION_MAGIC_XPUB = [0x04, 0x88, 0xB2, 0x1E]"

definition VERSION_MAGIC_XPRV :: bytes where
  "VERSION_MAGIC_XPRV = [0x04, 0x88, 0xAD, 0xE4]"

definition VERSION_MAGIC_YPUB :: bytes where
  "VERSION_MAGIC_YPUB = [0x04, 0x9D, 0x7C, 0xB2]"

definition VERSION_MAGIC_YPRV :: bytes where
  "VERSION_MAGIC_YPRV = [0x04, 0x9D, 0x78, 0x78]"

definition VERSION_MAGIC_ZPUB :: bytes where
  "VERSION_MAGIC_ZPUB = [0x04, 0xB2, 0x47, 0x46]"

definition VERSION_MAGIC_ZPRV :: bytes where
  "VERSION_MAGIC_ZPRV = [0x04, 0xB2, 0x43, 0x0C]"

definition VERSION_MAGIC_YPUB_MULTISIG :: bytes where
  "VERSION_MAGIC_YPUB_MULTISIG = [0x02, 0x95, 0xB4, 0x3F]"

definition VERSION_MAGIC_YPRV_MULTISIG :: bytes where
  "VERSION_MAGIC_YPRV_MULTISIG = [0x02, 0x95, 0xB0, 0x05]"

definition VERSION_MAGIC_ZPUB_MULTISIG :: bytes where
  "VERSION_MAGIC_ZPUB_MULTISIG = [0x02, 0xAA, 0x7E, 0xD3]"

definition VERSION_MAGIC_ZPRV_MULTISIG :: bytes where
  "VERSION_MAGIC_ZPRV_MULTISIG = [0x02, 0xAA, 0x7A, 0x99]"

definition VERSION_MAGIC_TPUB :: bytes where
  "VERSION_MAGIC_TPUB = [0x04, 0x35, 0x87, 0xCF]"

definition VERSION_MAGIC_TPRV :: bytes where
  "VERSION_MAGIC_TPRV = [0x04, 0x35, 0x83, 0x94]"

definition VERSION_MAGIC_UPUB :: bytes where
  "VERSION_MAGIC_UPUB = [0x04, 0x4A, 0x52, 0x62]"

definition VERSION_MAGIC_UPRV :: bytes where
  "VERSION_MAGIC_UPRV = [0x04, 0x4A, 0x4E, 0x28]"

definition VERSION_MAGIC_VPUB :: bytes where
  "VERSION_MAGIC_VPUB = [0x04, 0x5F, 0x1C, 0xF6]"

definition VERSION_MAGIC_VPRV :: bytes where
  "VERSION_MAGIC_VPRV = [0x04, 0x5F, 0x18, 0xBC]"

definition VERSION_MAGIC_UPUB_MULTISIG :: bytes where
  "VERSION_MAGIC_UPUB_MULTISIG = [0x02, 0x42, 0x89, 0xEF]"

definition VERSION_MAGIC_UPRV_MULTISIG :: bytes where
  "VERSION_MAGIC_UPRV_MULTISIG = [0x02, 0x42, 0x85, 0xB5]"

definition VERSION_MAGIC_VPUB_MULTISIG :: bytes where
  "VERSION_MAGIC_VPUB_MULTISIG = [0x02, 0x57, 0x54, 0x83]"

definition VERSION_MAGIC_VPRV_MULTISIG :: bytes where
  "VERSION_MAGIC_VPRV_MULTISIG = [0x02, 0x57, 0x50, 0x48]"

definition validate_slip132_prefix :: "bytes \<Rightarrow> slip132_error + unit" where
  "validate_slip132_prefix p =
     (if p \<in> {VERSION_MAGIC_XPUB, VERSION_MAGIC_YPUB, VERSION_MAGIC_ZPUB, VERSION_MAGIC_TPUB, VERSION_MAGIC_UPUB, VERSION_MAGIC_VPUB}
      then Inr ()
      else if p \<in> {VERSION_MAGIC_XPRV, VERSION_MAGIC_YPRV, VERSION_MAGIC_ZPRV, VERSION_MAGIC_TPRV, VERSION_MAGIC_UPRV, VERSION_MAGIC_VPRV}
      then Inl XprivUnsupported
      else if p \<in> {VERSION_MAGIC_YPUB_MULTISIG, VERSION_MAGIC_ZPUB_MULTISIG, VERSION_MAGIC_UPUB_MULTISIG, VERSION_MAGIC_VPUB_MULTISIG,
                   VERSION_MAGIC_YPRV_MULTISIG, VERSION_MAGIC_ZPRV_MULTISIG, VERSION_MAGIC_UPRV_MULTISIG, VERSION_MAGIC_VPRV_MULTISIG}
      then Inl XpubMultisigUnsupported
      else Inl UnknownSlip32Prefix)"

definition extract_slip132_prefix :: "('x, 'k) key_api \<Rightarrow> string \<Rightarrow> slip132_error + bytes" where
  "extract_slip132_prefix K s =
     bindE (map_err Base58 (base58_decode_check K s)) (\<lambda>data.
     bindE (reject_if (length data < 4) (SlipPanic ''range end index 4 out of range'')) (\<lambda>_.
     let prefix = take 4 data in
     bindE (validate_slip132_prefix prefix) (\<lambda>_. Inr prefix)))"

definition from_slip132_str :: "('x, 'k) key_api \<Rightarrow> string \<Rightarrow> slip132_error + 'x" where
  "from_slip132_str K s =
     bindE (map_err Base58 (base58_decode_check K s)) (\<lambda>data.
     bindE (extract_slip132_prefix K s) (\<lambda>prefix.
     bindE (if prefix \<in> {VERSION_MAGIC_XPUB, VERSION_MAGIC_YPUB, VERSION_MAGIC_ZPUB} then Inr VERSION_MAGIC_XPUB
            else if prefix \<in> {VERSION_MAGIC_TPUB, VERSION_MAGIC_UPUB, VERSION_MAGIC_VPUB} then Inr VERSION_MAGIC_TPUB
            else Inl UnknownSlip32Prefix) (\<lambda>bip44_prefix.
     map_err Bip32 (xpub_decode K (bip44_prefix @ drop 4 data)))))"

definition generate_descriptor_from_xpub :: "('x, 'k) key_api \<Rightarrow> string \<Rightarrow> bool \<Rightarrow> slip132_error + string" where
  "generate_descriptor_from_xpub K s internal =
     (let index = if internal then ''1'' else ''0'' in
     bindE (from_slip132_str K s) (\<lambda>xpub.
     bindE (extract_slip132_prefix K s) (\<lambda>prefix.
     let path = xpub_text K xpub @ ''/'' @ index @ ''/*'' in
     if prefix \<in> {VERSION_MAGIC_XPUB, VERSION_MAGIC_TPUB} then Inr (''pkh('' @ path @ '')'')
     else if prefix \<in> {VERSION_MAGIC_YPUB, VERSION_MAGIC_UPUB} then Inr (''sh(wpkh('' @ path @ ''))'')
     else if prefix \<in> {VERSION_MAGIC_ZPUB, VERSION_MAGIC_VPUB} then Inr (''wpkh('' @ path @ '')'')
     else Inl UnknownSlip32Prefix)))"

definition is_xpub_mainnet :: "('x, 'k) key_api \<Rightarrow> string \<Rightarrow> slip132_error + bool" where
  "is_xpub_mainnet K s =
     bindE (extract_slip132_prefix K s) (\<lambda>prefix.
     if prefix \<in> {VERSION_MAGIC_XPUB, VERSION_MAGIC_YPUB, VERSION_MAGIC_ZPUB} then Inr True
     else if prefix \<in> {VERSION_MAGIC_TPUB, VERSION_MAGIC_UPUB, VERSION_MAGIC_VPUB} then Inr False
     else Inl UnknownSlip32Prefix)"

section \<open>Descriptors\<close>

definition parse_xpub :: "('x, 'k) key_api \<Rightarrow> string \<Rightarrow> network \<Rightarrow> descriptor_error + string list" where
  "parse_xpub K xpub net =
     bindE (map_err XpubParseError (is_xpub_mainnet K xpub)) (\<lambda>xpub_is_mainnet.
     let net_is_test = net \<noteq> Bitcoin in
     bindE (reject_if ((xpub_is_mainnet \<and> net_is_test) \<or> (\<not> xpub_is_mainnet \<and> \<not> net_is_test)) (XpubNetworkMismatch xpub)) (\<lambda>_.
     bindE (map_err XpubParseError (generate_descriptor_from_xpub K xpub False)) (\<lambda>external_desc.
     bindE (map_err XpubParseError (generate_descriptor_from_xpub K xpub True)) (\<lambda>internal_desc.
     bindE (map_err MiniscriptError (desc_from_str K external_desc)) (\<lambda>ext.
     bindE (map_err MiniscriptError (desc_from_str K internal_desc)) (\<lambda>int.
     Inr [desc_text K ext, desc_text K int]))))))"

definition parse_and_split_descriptor :: "('x, 'k) key_api \<Rightarrow> string \<Rightarrow> descriptor_error + 'k list" where
  "parse_and_split_descriptor K s =
     bindE (map_err MiniscriptError (desc_from_str K s)) (\<lambda>d.
     bindE (map_err MiniscriptError (desc_sanity_check K d)) (\<lambda>_.
     map_err MiniscriptError (desc_into_single K d)))"

definition has_wildcard :: "('x, 'k) key_api \<Rightarrow> string \<Rightarrow> descriptor_error + bool" where
  "has_wildcard K s = bindE (map_err MiniscriptError (desc_from_str K s)) (\<lambda>d. Inr (desc_has_wildcard K d))"

text \<open>\<^verbatim>\<open>for i in index..index + quantity\<close>: the end wraps around and the range is then empty.\<close>

definition derive_addresses_from_parsed_descriptor :: "('x, 'k) key_api \<Rightarrow> 'k \<Rightarrow> u32 \<Rightarrow> u32 \<Rightarrow> descriptor_error + script list" where
  "derive_addresses_from_parsed_descriptor K d index quantity =
     foldE (\<lambda>i addresses. bindE (map_err DeriveDescriptorError (desc_script_at K d i)) (\<lambda>address. Inr (addresses @ [address])))
       (map of_nat [unat index ..< unat (index + quantity)]) []"

definition derive_addresses_from_descriptor :: "('x, 'k) key_api \<Rightarrow> string \<Rightarrow> u32 \<Rightarrow> u32 \<Rightarrow> descriptor_error + script list" where
  "derive_addresses_from_descriptor K s index quantity =
     bindE (parse_and_split_descriptor K s) (\<lambda>ds.
     foldE (\<lambda>d addresses. bindE (derive_addresses_from_parsed_descriptor K d index quantity) (\<lambda>more. Inr (addresses @ more))) ds [])"

end
