(* ===== verification/Wallet_Db.thy ===== *)
theory Wallet_Db
  imports Merkle Stateful Descriptor
begin

text \<open>
  What the watch-only wallet stores (\<^verbatim>\<open>floresta-watch-only/src/lib.rs\<close>): cached transactions, addresses
  and statistics, and the two databases that implement the trait \<^verbatim>\<open>AddressCacheDatabase\<close>:
  \<^verbatim>\<open>memory_database.rs\<close> with its hash maps, and \<^verbatim>\<open>kv_database.rs\<close> over the buckets of the \<^verbatim>\<open>kv\<close> crate.
  The trait is the record \<open>address_db\<close>, its contract the locale \<open>address_store\<close>. The order in which a
  hash map or a bucket is iterated is an argument, as are the JSON and consensus encodings. A bucket is a
  map, and its reads and writes succeed; the locks are never poisoned because every panic ends the run.
\<close>

section \<open>Definitions\<close>

datatype watch_only_error =
    DatabaseError string
  | DuplicateDescriptor string
  | InvalidDescriptor string
  | InternalError string
  | WalletPanic string

record cached_transaction =
  ct_tx :: transaction
  ct_height :: u32
  ct_merkle_block :: "merkle_proof option"
  ct_hash :: hash
  ct_position :: u32

record cached_address =
  ca_script_hash :: hash
  ca_balance :: u64
  ca_script :: script
  ca_transactions :: "hash list"
  ca_utxos :: "outpoint list"

record stats =
  address_count :: usize
  transaction_count :: usize
  utxo_count :: usize
  cache_height :: u32
  txo_count :: usize
  stats_balance :: u64
  derivation_index :: u32

definition stats_default :: stats where
  "stats_default = \<lparr>address_count = 0, transaction_count = 0, utxo_count = 0, cache_height = 0, txo_count = 0,
     stats_balance = 0, derivation_index = 0\<rparr>"

type_synonym ('d, 'a) db_op = "('d, watch_only_error, 'a) stm"

record 'd address_db =
  db_save :: "cached_address \<Rightarrow> ('d, unit) db_op"
  db_load :: "('d, cached_address list) db_op"
  db_get_stats :: "('d, stats) db_op"
  db_save_stats :: "stats \<Rightarrow> ('d, unit) db_op"
  db_update :: "cached_address \<Rightarrow> ('d, unit) db_op"
  db_get_cache_height :: "('d, u32) db_op"
  db_set_cache_height :: "u32 \<Rightarrow> ('d, unit) db_op"
  db_save_descriptor :: "string \<Rightarrow> ('d, unit) db_op"
  db_get_descriptors :: "('d, string list) db_op"
  db_get_transaction :: "hash \<Rightarrow> ('d, cached_transaction) db_op"
  db_save_transaction :: "cached_transaction \<Rightarrow> ('d, unit) db_op"
  db_list_transactions :: "('d, hash list) db_op"

section \<open>The database in memory\<close>

record memory_database =
  md_addresses :: "hash \<rightharpoonup> cached_address"
  md_transactions :: "hash \<rightharpoonup> cached_transaction"
  md_stats :: stats
  md_height :: u32
  md_descriptors :: "string list"

definition memory_database_new :: memory_database where
  "memory_database_new = \<lparr>md_addresses = Map.empty, md_transactions = Map.empty, md_stats = stats_default, md_height = 0,
     md_descriptors = []\<rparr>"

text \<open>The keys of a hash map in the order in which it is iterated.\<close>

type_synonym 'v keys_of = "(hash \<rightharpoonup> 'v) \<Rightarrow> hash list"

definition md_load :: "cached_address keys_of \<Rightarrow> (memory_database, cached_address list) db_op" where
  "md_load ks = gets (\<lambda>d. List.map_filter (md_addresses d) (ks (md_addresses d)))"

definition md_save :: "cached_address \<Rightarrow> (memory_database, unit) db_op" where
  "md_save a = update (\<lambda>d. d\<lparr>md_addresses := (md_addresses d)(ca_script_hash a \<mapsto> a)\<rparr>)"

definition md_update :: "cached_address \<Rightarrow> (memory_database, unit) db_op" where
  "md_update a = update (\<lambda>d.
     case md_addresses d (ca_script_hash a) of
       None \<Rightarrow> d
     | Some _ \<Rightarrow> d\<lparr>md_addresses := (md_addresses d)(ca_script_hash a \<mapsto> a)\<rparr>)"

definition md_get_cache_height :: "(memory_database, u32) db_op" where
  "md_get_cache_height = gets md_height"

definition md_set_cache_height :: "u32 \<Rightarrow> (memory_database, unit) db_op" where
  "md_set_cache_height height = update (\<lambda>d. d\<lparr>md_height := height\<rparr>)"

definition md_save_descriptor :: "string \<Rightarrow> (memory_database, unit) db_op" where
  "md_save_descriptor descriptor = update (\<lambda>d. d\<lparr>md_descriptors := md_descriptors d @ [descriptor]\<rparr>)"

definition md_get_descriptors :: "(memory_database, string list) db_op" where
  "md_get_descriptors = gets md_descriptors"

definition md_get_transaction :: "hash \<Rightarrow> (memory_database, cached_transaction) db_op" where
  "md_get_transaction txid =
     bindS (gets md_transactions) (\<lambda>txs. lift (ok_or (DatabaseError ''Poisoned lock'') (txs txid)))"

definition md_save_transaction :: "cached_transaction \<Rightarrow> (memory_database, unit) db_op" where
  "md_save_transaction tx = update (\<lambda>d. d\<lparr>md_transactions := (md_transactions d)(ct_hash tx \<mapsto> tx)\<rparr>)"

definition md_list_transactions :: "cached_transaction keys_of \<Rightarrow> (memory_database, hash list) db_op" where
  "md_list_transactions ks = gets (\<lambda>d. ks (md_transactions d))"

definition md_get_stats :: "(memory_database, stats) db_op" where
  "md_get_stats = gets md_stats"

definition md_save_stats :: "stats \<Rightarrow> (memory_database, unit) db_op" where
  "md_save_stats st = update (\<lambda>d. d\<lparr>md_stats := st\<rparr>)"

definition memory_db :: "cached_address keys_of \<Rightarrow> cached_transaction keys_of \<Rightarrow> memory_database address_db" where
  "memory_db ks kt = \<lparr>db_save = md_save, db_load = md_load ks, db_get_stats = md_get_stats, db_save_stats = md_save_stats,
     db_update = md_update, db_get_cache_height = md_get_cache_height, db_set_cache_height = md_set_cache_height,
     db_save_descriptor = md_save_descriptor, db_get_descriptors = md_get_descriptors,
     db_get_transaction = md_get_transaction, db_save_transaction = md_save_transaction,
     db_list_transactions = md_list_transactions kt\<rparr>"

section \<open>The key-value database\<close>

record 'a json =
  js_to_vec :: "'a \<Rightarrow> bytes"
  js_from_slice :: "bytes \<Rightarrow> string + 'a"

record kv_codecs =
  kv_address :: "cached_address json"
  kv_transaction :: "cached_transaction json"
  kv_stats :: "stats json"
  kv_descriptors :: "string list json"
  kv_u32 :: "u32 json"
  kv_hash_text :: "hash \<Rightarrow> string"
  kv_compute_txid :: "transaction \<Rightarrow> hash"
  kv_address_items :: "(string \<rightharpoonup> bytes) \<Rightarrow> (string \<times> bytes) list"
  kv_transaction_keys :: "(hash \<rightharpoonup> bytes) \<Rightarrow> hash list"

text \<open>The buckets \<^verbatim>\<open>addresses\<close>, \<^verbatim>\<open>transactions\<close> and \<^verbatim>\<open>stats\<close>, the last with its one key.\<close>

record kv_database =
  b_addresses :: "string \<rightharpoonup> bytes"
  b_transactions :: "hash \<rightharpoonup> bytes"
  b_stats :: "bytes option"

definition kv_new :: kv_database where
  "kv_new = \<lparr>b_addresses = Map.empty, b_transactions = Map.empty, b_stats = None\<rparr>"

datatype kv_database_error = KvError string | SerdeJsonError string | WalletNotInitialized | DeserializeError string | TransactionNotFound

fun kv_error_text :: "kv_database_error \<Rightarrow> string" where
  "kv_error_text (KvError e) = ''kv error: '' @ e"
| "kv_error_text (SerdeJsonError e) = ''JSON error: '' @ e"
| "kv_error_text WalletNotInitialized = ''The wallet is not initialized''"
| "kv_error_text (DeserializeError e) = ''Error whilst deserilializing: '' @ e"
| "kv_error_text TransactionNotFound = ''The requested transaction was not found in the database''"

definition kv_result :: "kv_database_error + 'a \<Rightarrow> ('d, 'a) db_op" where
  "kv_result r = lift (map_err (\<lambda>e. DatabaseError (kv_error_text e)) r)"

definition kv_load_step :: "kv_codecs \<Rightarrow> string \<times> bytes \<Rightarrow> cached_address list \<Rightarrow> kv_database_error + cached_address list" where
  "kv_load_step C item addresses =
     (let (key, value) = item in
      if key = ''height'' \<or> key = ''desc'' then Inr addresses
      else bindE (map_err SerdeJsonError (js_from_slice (kv_address C) value)) (\<lambda>a. Inr (addresses @ [a])))"

definition kv_load :: "kv_codecs \<Rightarrow> (kv_database, cached_address list) db_op" where
  "kv_load C = bindS (gets b_addresses) (\<lambda>bucket. kv_result (foldE (kv_load_step C) (kv_address_items C bucket) []))"

definition kv_save :: "kv_codecs \<Rightarrow> cached_address \<Rightarrow> (kv_database, unit) db_op" where
  "kv_save C a = update (\<lambda>d.
     d\<lparr>b_addresses := (b_addresses d)(kv_hash_text C (ca_script_hash a) \<mapsto> js_to_vec (kv_address C) a)\<rparr>)"

definition kv_update :: "kv_codecs \<Rightarrow> cached_address \<Rightarrow> (kv_database, unit) db_op" where
  "kv_update C a = kv_save C a"

definition kv_get_cache_height :: "kv_codecs \<Rightarrow> (kv_database, u32) db_op" where
  "kv_get_cache_height C = bindS (gets b_addresses) (\<lambda>bucket. kv_result (
     case bucket ''height'' of
       Some h \<Rightarrow> map_err DeserializeError (js_from_slice (kv_u32 C) h)
     | None \<Rightarrow> Inl WalletNotInitialized))"

definition kv_set_cache_height :: "kv_codecs \<Rightarrow> u32 \<Rightarrow> (kv_database, unit) db_op" where
  "kv_set_cache_height C height = update (\<lambda>d. d\<lparr>b_addresses := (b_addresses d)(''height'' \<mapsto> js_to_vec (kv_u32 C) height)\<rparr>)"

definition kv_get_descriptors :: "kv_codecs \<Rightarrow> (kv_database, string list) db_op" where
  "kv_get_descriptors C = bindS (gets b_addresses) (\<lambda>bucket. kv_result (
     case bucket ''desc'' of
       Some ds \<Rightarrow> map_err SerdeJsonError (js_from_slice (kv_descriptors C) ds)
     | None \<Rightarrow> Inr []))"

definition kv_save_descriptor :: "kv_codecs \<Rightarrow> string \<Rightarrow> (kv_database, unit) db_op" where
  "kv_save_descriptor C descriptor =
     bindS (kv_get_descriptors C) (\<lambda>descriptors.
     update (\<lambda>d. d\<lparr>b_addresses := (b_addresses d)(''desc'' \<mapsto> js_to_vec (kv_descriptors C) (descriptors @ [descriptor]))\<rparr>))"

definition kv_get_transaction :: "kv_codecs \<Rightarrow> hash \<Rightarrow> (kv_database, cached_transaction) db_op" where
  "kv_get_transaction C txid = bindS (gets b_transactions) (\<lambda>bucket. kv_result (
     case bucket txid of
       Some tx \<Rightarrow> map_err SerdeJsonError (js_from_slice (kv_transaction C) tx)
     | None \<Rightarrow> Inl TransactionNotFound))"

definition kv_save_transaction :: "kv_codecs \<Rightarrow> cached_transaction \<Rightarrow> (kv_database, unit) db_op" where
  "kv_save_transaction C tx = update (\<lambda>d.
     d\<lparr>b_transactions := (b_transactions d)(kv_compute_txid C (ct_tx tx) \<mapsto> js_to_vec (kv_transaction C) tx)\<rparr>)"

definition kv_list_transactions :: "kv_codecs \<Rightarrow> (kv_database, hash list) db_op" where
  "kv_list_transactions C = gets (\<lambda>d. kv_transaction_keys C (b_transactions d))"

definition kv_get_stats :: "kv_codecs \<Rightarrow> (kv_database, stats) db_op" where
  "kv_get_stats C = bindS (gets b_stats) (\<lambda>bucket. kv_result (
     case bucket of
       Some st \<Rightarrow> map_err SerdeJsonError (js_from_slice (kv_stats C) st)
     | None \<Rightarrow> Inl TransactionNotFound))"

definition kv_save_stats :: "kv_codecs \<Rightarrow> stats \<Rightarrow> (kv_database, unit) db_op" where
  "kv_save_stats C st = update (\<lambda>d. d\<lparr>b_stats := Some (js_to_vec (kv_stats C) st)\<rparr>)"

definition kv_db :: "kv_codecs \<Rightarrow> kv_database address_db" where
  "kv_db C = \<lparr>db_save = kv_save C, db_load = kv_load C, db_get_stats = kv_get_stats C, db_save_stats = kv_save_stats C,
     db_update = kv_update C, db_get_cache_height = kv_get_cache_height C, db_set_cache_height = kv_set_cache_height C,
     db_save_descriptor = kv_save_descriptor C, db_get_descriptors = kv_get_descriptors C,
     db_get_transaction = kv_get_transaction C, db_save_transaction = kv_save_transaction C,
     db_list_transactions = kv_list_transactions C\<rparr>"

section \<open>The contract of a database\<close>

record db_view =
  dv_addresses :: "hash \<rightharpoonup> cached_address"
  dv_transactions :: "hash \<rightharpoonup> cached_transaction"
  dv_stats :: "stats option"
  dv_descriptors :: "string list"
  dv_height :: "u32 option"

definition ok_part :: "'e + 'a \<Rightarrow> 'a option" where
  "ok_part r = (case r of Inl _ \<Rightarrow> None | Inr a \<Rightarrow> Some a)"

lemma ok_part_simps [simp]: "ok_part (Inl e) = None" "ok_part (Inr a) = Some a"
  by (simp_all add: ok_part_def)

locale address_store =
  fixes D :: "'d address_db"
    and txid :: "transaction \<Rightarrow> hash"
    and dinv :: "'d \<Rightarrow> bool"
    and view :: "'d \<Rightarrow> db_view"
  assumes save_law: "dinv d \<Longrightarrow> \<exists>d'. db_save D a d = (Inr (), d') \<and> dinv d'
      \<and> view d' = (view d)\<lparr>dv_addresses := (dv_addresses (view d))(ca_script_hash a \<mapsto> a)\<rparr>"
    and update_law: "dinv d \<Longrightarrow> dv_addresses (view d) (ca_script_hash a) \<noteq> None \<Longrightarrow> \<exists>d'. db_update D a d = (Inr (), d') \<and> dinv d'
      \<and> view d' = (view d)\<lparr>dv_addresses := (dv_addresses (view d))(ca_script_hash a \<mapsto> a)\<rparr>"
    and load_law: "dinv d \<Longrightarrow> \<exists>as. db_load D d = (Inr as, d) \<and> distinct (map ca_script_hash as)
      \<and> dv_addresses (view d) = map_of (map (\<lambda>a. (ca_script_hash a, a)) as)"
    and get_transaction_law: "dinv d \<Longrightarrow> \<exists>r. db_get_transaction D h d = (r, d) \<and> ok_part r = dv_transactions (view d) h"
    and save_transaction_law: "dinv d \<Longrightarrow> ct_hash t = txid (ct_tx t) \<Longrightarrow> \<exists>d'. db_save_transaction D t d = (Inr (), d') \<and> dinv d'
      \<and> view d' = (view d)\<lparr>dv_transactions := (dv_transactions (view d))(ct_hash t \<mapsto> t)\<rparr>"
    and list_transactions_law: "dinv d \<Longrightarrow> \<exists>hs. db_list_transactions D d = (Inr hs, d) \<and> distinct hs \<and> set hs = dom (dv_transactions (view d))"
    and get_stats_law: "dinv d \<Longrightarrow> \<exists>r. db_get_stats D d = (r, d) \<and> ok_part r = dv_stats (view d)"
    and save_stats_law: "dinv d \<Longrightarrow> \<exists>d'. db_save_stats D st d = (Inr (), d') \<and> dinv d' \<and> view d' = (view d)\<lparr>dv_stats := Some st\<rparr>"
    and get_descriptors_law: "dinv d \<Longrightarrow> db_get_descriptors D d = (Inr (dv_descriptors (view d)), d)"
    and save_descriptor_law: "dinv d \<Longrightarrow> \<exists>d'. db_save_descriptor D s d = (Inr (), d') \<and> dinv d'
      \<and> view d' = (view d)\<lparr>dv_descriptors := dv_descriptors (view d) @ [s]\<rparr>"
    and get_cache_height_law: "dinv d \<Longrightarrow> \<exists>r. db_get_cache_height D d = (r, d) \<and> ok_part r = dv_height (view d)"
    and set_cache_height_law: "dinv d \<Longrightarrow> \<exists>d'. db_set_cache_height D k d = (Inr (), d') \<and> dinv d' \<and> view d' = (view d)\<lparr>dv_height := Some k\<rparr>"

section \<open>The database in memory keeps the contract\<close>

text \<open>The iteration of a finite hash map visits every key once.\<close>

definition visits_keys :: "'v keys_of \<Rightarrow> bool" where
  "visits_keys ks \<longleftrightarrow> (\<forall>m. finite (dom m) \<longrightarrow> distinct (ks m) \<and> set (ks m) = dom m)"

definition md_inv :: "cached_address keys_of \<Rightarrow> cached_transaction keys_of \<Rightarrow> memory_database \<Rightarrow> bool" where
  "md_inv ks kt d \<longleftrightarrow> visits_keys ks \<and> visits_keys kt \<and> finite (dom (md_addresses d)) \<and> finite (dom (md_transactions d))
     \<and> (\<forall>h a. md_addresses d h = Some a \<longrightarrow> ca_script_hash a = h)"

definition md_view :: "memory_database \<Rightarrow> db_view" where
  "md_view d = \<lparr>dv_addresses = md_addresses d, dv_transactions = md_transactions d, dv_stats = Some (md_stats d),
     dv_descriptors = md_descriptors d, dv_height = Some (md_height d)\<rparr>"

lemma map_filter_keyed:
  assumes "distinct hs" and "\<forall>h \<in> set hs. \<exists>a. m h = Some a \<and> f a = h"
  shows "map f (List.map_filter m hs) = hs" and "map_of (map (\<lambda>a. (f a, a)) (List.map_filter m hs)) = m |` set hs"
  using assms by (induction hs) (auto simp: map_filter_simps restrict_map_insert fun_eq_iff restrict_map_def)

lemma md_load_keyed:
  assumes "md_inv ks kt d"
  shows "distinct (map ca_script_hash (List.map_filter (md_addresses d) (ks (md_addresses d))))"
    and "map_of (map (\<lambda>a. (ca_script_hash a, a)) (List.map_filter (md_addresses d) (ks (md_addresses d)))) = md_addresses d"
proof -
  let ?m = "md_addresses d"
  have ks: "distinct (ks ?m)" "set (ks ?m) = dom ?m" using assms by (auto simp: md_inv_def visits_keys_def)
  then have all: "\<forall>h \<in> set (ks ?m). \<exists>a. ?m h = Some a \<and> ca_script_hash a = h" using assms by (auto simp: md_inv_def)
  show "distinct (map ca_script_hash (List.map_filter ?m (ks ?m)))" using map_filter_keyed(1) [OF ks(1) all] ks(1) by simp
  show "map_of (map (\<lambda>a. (ca_script_hash a, a)) (List.map_filter ?m (ks ?m))) = ?m"
    using map_filter_keyed(2) [OF ks(1) all] ks(2) by (simp add: restrict_map_def fun_eq_iff domIff)
qed

lemmas md_ops = memory_db_def md_save_def md_update_def md_load_def md_get_transaction_def md_save_transaction_def
  md_list_transactions_def md_get_stats_def md_save_stats_def md_get_descriptors_def md_save_descriptor_def
  md_get_cache_height_def md_set_cache_height_def bindS_gets update_run gets_run lift_run

interpretation md: address_store "memory_db ks kt" txid "md_inv ks kt" md_view
proof
  fix d a h t st s k assume inv: "md_inv ks kt d"
  show "\<exists>as. db_load (memory_db ks kt) d = (Inr as, d) \<and> distinct (map ca_script_hash as)
      \<and> dv_addresses (md_view d) = map_of (map (\<lambda>a. (ca_script_hash a, a)) as)"
    using md_load_keyed [OF inv] by (simp add: md_ops md_view_def)
  show "\<exists>r. db_get_transaction (memory_db ks kt) h d = (r, d) \<and> ok_part r = dv_transactions (md_view d) h"
    by (cases "md_transactions d h") (simp_all add: md_ops md_view_def ok_or_def)
  show "\<exists>hs. db_list_transactions (memory_db ks kt) d = (Inr hs, d) \<and> distinct hs \<and> set hs = dom (dv_transactions (md_view d))"
    using inv by (simp add: md_ops md_view_def md_inv_def visits_keys_def)
qed (auto simp: md_ops md_view_def md_inv_def split: option.splits)

section \<open>The key-value database keeps the contract\<close>

definition json_ok :: "'a json \<Rightarrow> bool" where
  "json_ok c \<longleftrightarrow> (\<forall>x. js_from_slice c (js_to_vec c x) = Inr x)"

text \<open>Documented behaviour of the encodings, of the text of a hash (64 hexadecimal digits), and of the iteration
  of a bucket.\<close>

definition kv_laws :: "kv_codecs \<Rightarrow> bool" where
  "kv_laws C \<longleftrightarrow> json_ok (kv_address C) \<and> json_ok (kv_transaction C) \<and> json_ok (kv_stats C) \<and> json_ok (kv_descriptors C) \<and> json_ok (kv_u32 C)
     \<and> inj (kv_hash_text C) \<and> (\<forall>h. kv_hash_text C h \<noteq> ''height'' \<and> kv_hash_text C h \<noteq> ''desc'')
     \<and> (\<forall>m. finite (dom m) \<longrightarrow> distinct (map fst (kv_address_items C m)) \<and> set (kv_address_items C m) = {(k, v). m k = Some v})
     \<and> (\<forall>m. finite (dom m) \<longrightarrow> distinct (kv_transaction_keys C m) \<and> set (kv_transaction_keys C m) = dom m)"

definition kv_inv :: "kv_codecs \<Rightarrow> kv_database \<Rightarrow> bool" where
  "kv_inv C d \<longleftrightarrow> kv_laws C \<and> finite (dom (b_addresses d)) \<and> finite (dom (b_transactions d))
     \<and> (\<forall>k v. b_addresses d k = Some v \<longrightarrow> k = ''height'' \<or> k = ''desc'' \<or>
         (\<exists>a. k = kv_hash_text C (ca_script_hash a) \<and> v = js_to_vec (kv_address C) a))
     \<and> (\<forall>v. b_addresses d ''height'' = Some v \<longrightarrow> (\<exists>h. v = js_to_vec (kv_u32 C) h))
     \<and> (\<forall>v. b_addresses d ''desc'' = Some v \<longrightarrow> (\<exists>ds. v = js_to_vec (kv_descriptors C) ds))
     \<and> (\<forall>h v. b_transactions d h = Some v \<longrightarrow> (\<exists>t. v = js_to_vec (kv_transaction C) t))
     \<and> (\<forall>v. b_stats d = Some v \<longrightarrow> (\<exists>st. v = js_to_vec (kv_stats C) st))"

definition kv_view :: "kv_codecs \<Rightarrow> kv_database \<Rightarrow> db_view" where
  "kv_view C d = \<lparr>
     dv_addresses = (\<lambda>h. Option.bind (b_addresses d (kv_hash_text C h)) (\<lambda>v. ok_part (js_from_slice (kv_address C) v))),
     dv_transactions = (\<lambda>h. Option.bind (b_transactions d h) (\<lambda>v. ok_part (js_from_slice (kv_transaction C) v))),
     dv_stats = Option.bind (b_stats d) (\<lambda>v. ok_part (js_from_slice (kv_stats C) v)),
     dv_descriptors = (case b_addresses d ''desc'' of None \<Rightarrow> []
       | Some v \<Rightarrow> (case js_from_slice (kv_descriptors C) v of Inl _ \<Rightarrow> [] | Inr ds \<Rightarrow> ds)),
     dv_height = Option.bind (b_addresses d ''height'') (\<lambda>v. ok_part (js_from_slice (kv_u32 C) v))\<rparr>"

lemma kv_lawsD:
  assumes "kv_inv C d"
  shows "js_from_slice (kv_address C) (js_to_vec (kv_address C) a) = Inr a"
    and "js_from_slice (kv_transaction C) (js_to_vec (kv_transaction C) t) = Inr t"
    and "js_from_slice (kv_stats C) (js_to_vec (kv_stats C) st) = Inr st"
    and "js_from_slice (kv_descriptors C) (js_to_vec (kv_descriptors C) ds) = Inr ds"
    and "js_from_slice (kv_u32 C) (js_to_vec (kv_u32 C) k) = Inr k"
    and "kv_hash_text C h = kv_hash_text C h' \<longleftrightarrow> h = h'"
    and "kv_hash_text C h \<noteq> ''height''" and "kv_hash_text C h \<noteq> ''desc''"
    and "''height'' \<noteq> kv_hash_text C h" and "''desc'' \<noteq> kv_hash_text C h"
  using assms by (auto simp: kv_inv_def kv_laws_def json_ok_def inj_eq dest: sym)

lemma kv_load_items:
  assumes inv: "kv_inv C d" and "\<forall>(k, v) \<in> set items. b_addresses d k = Some v" and "distinct (map fst items)"
  shows "\<exists>as. foldE (kv_load_step C) items acc = Inr (acc @ as) \<and> distinct (map ca_script_hash as)
    \<and> set as = {a. (kv_hash_text C (ca_script_hash a), js_to_vec (kv_address C) a) \<in> set items}"
  using assms(2,3)
proof (induction items arbitrary: acc)
  case Nil
  show ?case by simp
next
  case (Cons item items)
  obtain k v where kv: "item = (k, v)" by (cases item)
  show ?case
  proof (cases "k = ''height'' \<or> k = ''desc''")
    case True
    then have "{a. (kv_hash_text C (ca_script_hash a), js_to_vec (kv_address C) a) \<in> set (item # items)}
        = {a. (kv_hash_text C (ca_script_hash a), js_to_vec (kv_address C) a) \<in> set items}"
      using kv_lawsD(7,8) [OF inv] kv by auto
    moreover from True have "kv_load_step C item acc = Inr acc" by (simp add: kv_load_step_def kv)
    ultimately show ?thesis using Cons.IH [of acc] Cons.prems by simp
  next
    case False
    moreover have "b_addresses d k = Some v" using Cons.prems(1) kv by simp
    ultimately obtain a where a: "k = kv_hash_text C (ca_script_hash a)" "v = js_to_vec (kv_address C) a"
      using inv unfolding kv_inv_def by blast
    from False have "kv_load_step C item acc = Inr (acc @ [a])" by (simp add: kv_load_step_def kv a(2) kv_lawsD(1) [OF inv] map_err_def)
    moreover obtain as where as: "foldE (kv_load_step C) items (acc @ [a]) = Inr ((acc @ [a]) @ as)" "distinct (map ca_script_hash as)"
      "set as = {a. (kv_hash_text C (ca_script_hash a), js_to_vec (kv_address C) a) \<in> set items}"
      using Cons.IH [of "acc @ [a]"] Cons.prems by auto
    moreover have "ca_script_hash a \<notin> ca_script_hash ` set as"
      using Cons.prems(2) as(3) a(1) kv by (force simp: image_iff)
    moreover have "js_to_vec (kv_address C) x = v \<longleftrightarrow> x = a" for x
      unfolding a(2) using kv_lawsD(1) [OF inv] by (metis sum.inject(2))
    then have "{x. (kv_hash_text C (ca_script_hash x), js_to_vec (kv_address C) x) \<in> set (item # items)} = insert a (set as)"
      using a(1) as(3) kv by auto
    ultimately show ?thesis by (intro exI [of _ "a # as"]) simp
  qed
qed

lemma kv_loaded:
  assumes inv: "kv_inv C d"
  shows "\<exists>as. kv_load C d = (Inr as, d) \<and> distinct (map ca_script_hash as)
    \<and> dv_addresses (kv_view C d) = map_of (map (\<lambda>a. (ca_script_hash a, a)) as)"
proof -
  let ?items = "kv_address_items C (b_addresses d)"
  have items: "distinct (map fst ?items)" "set ?items = {(k, v). b_addresses d k = Some v}"
    using inv by (simp_all add: kv_inv_def kv_laws_def)
  then obtain as where as: "foldE (kv_load_step C) ?items [] = Inr as" "distinct (map ca_script_hash as)"
    "set as = {a. b_addresses d (kv_hash_text C (ca_script_hash a)) = Some (js_to_vec (kv_address C) a)}"
    using kv_load_items [OF inv, of ?items "[]"] by auto
  have "dv_addresses (kv_view C d) h = map_of (map (\<lambda>a. (ca_script_hash a, a)) as) h" for h
  proof (cases "b_addresses d (kv_hash_text C h)")
    case None
    then have "h \<notin> ca_script_hash ` set as" using as(3) by auto
    then have "map_of (map (\<lambda>a. (ca_script_hash a, a)) as) h = None" by (simp add: map_of_eq_None_iff image_image)
    with None show ?thesis by (simp add: kv_view_def)
  next
    case (Some v)
    then obtain a where a: "kv_hash_text C h = kv_hash_text C (ca_script_hash a)" "v = js_to_vec (kv_address C) a"
      using inv kv_lawsD(7,8) [OF inv, of h] unfolding kv_inv_def by metis
    then have h: "h = ca_script_hash a" using kv_lawsD(6) [OF inv] by simp
    then have "a \<in> set as" using Some a as(3) by simp
    then have "map_of (map (\<lambda>a. (ca_script_hash a, a)) as) h = Some a"
      using as(2) h by (intro map_of_is_SomeI) (auto simp: comp_def)
    with Some a show ?thesis by (simp add: kv_view_def kv_lawsD(1) [OF inv])
  qed
  moreover have "kv_load C d = (Inr as, d)"
    using as(1) by (simp add: kv_load_def kv_result_def bindS_gets lift_run map_err_def)
  ultimately show ?thesis using as(2) by auto
qed

lemma kv_descriptors_read:
  assumes "kv_inv C d"
  shows "kv_get_descriptors C d = (Inr (dv_descriptors (kv_view C d)), d)"
proof (cases "b_addresses d ''desc''")
  case None
  then show ?thesis by (simp add: kv_get_descriptors_def kv_result_def bindS_gets lift_run kv_view_def map_err_def)
next
  case (Some v)
  then obtain ds where "v = js_to_vec (kv_descriptors C) ds" using assms unfolding kv_inv_def by blast
  with Some show ?thesis
    by (simp add: kv_get_descriptors_def kv_result_def bindS_gets lift_run kv_view_def map_err_def kv_lawsD(4) [OF assms])
qed

lemma kv_read:
  assumes "kv_inv C d"
  shows "\<exists>r. kv_get_transaction C h d = (r, d) \<and> ok_part r = dv_transactions (kv_view C d) h"
    and "\<exists>r. kv_get_stats C d = (r, d) \<and> ok_part r = dv_stats (kv_view C d)"
    and "\<exists>r. kv_get_cache_height C d = (r, d) \<and> ok_part r = dv_height (kv_view C d)"
proof -
  show "\<exists>r. kv_get_transaction C h d = (r, d) \<and> ok_part r = dv_transactions (kv_view C d) h"
    by (cases "b_transactions d h") (simp_all add: kv_get_transaction_def kv_result_def bindS_gets lift_run kv_view_def map_err_def split: sum.splits)
  show "\<exists>r. kv_get_stats C d = (r, d) \<and> ok_part r = dv_stats (kv_view C d)"
    by (cases "b_stats d") (simp_all add: kv_get_stats_def kv_result_def bindS_gets lift_run kv_view_def map_err_def split: sum.splits)
  show "\<exists>r. kv_get_cache_height C d = (r, d) \<and> ok_part r = dv_height (kv_view C d)"
    by (cases "b_addresses d ''height''") (simp_all add: kv_get_cache_height_def kv_result_def bindS_gets lift_run kv_view_def map_err_def split: sum.splits)
qed

interpretation kv: address_store "kv_db C" "kv_compute_txid C" "kv_inv C" "kv_view C"
proof
  fix d a h t st s k assume inv: "kv_inv C d"
  note laws = kv_lawsD [OF inv]
  have save: "\<exists>d'. kv_save C a d = (Inr (), d') \<and> kv_inv C d'
      \<and> kv_view C d' = (kv_view C d)\<lparr>dv_addresses := (dv_addresses (kv_view C d))(ca_script_hash a \<mapsto> a)\<rparr>"
    using inv by (auto simp: kv_save_def update_run kv_inv_def kv_view_def laws fun_eq_iff)
  then show "\<exists>d'. db_save (kv_db C) a d = (Inr (), d') \<and> kv_inv C d'
      \<and> kv_view C d' = (kv_view C d)\<lparr>dv_addresses := (dv_addresses (kv_view C d))(ca_script_hash a \<mapsto> a)\<rparr>"
    by (simp add: kv_db_def)
  show "\<exists>d'. db_update (kv_db C) a d = (Inr (), d') \<and> kv_inv C d'
      \<and> kv_view C d' = (kv_view C d)\<lparr>dv_addresses := (dv_addresses (kv_view C d))(ca_script_hash a \<mapsto> a)\<rparr>"
    using save by (simp add: kv_db_def kv_update_def)
  show "\<exists>as. db_load (kv_db C) d = (Inr as, d) \<and> distinct (map ca_script_hash as)
      \<and> dv_addresses (kv_view C d) = map_of (map (\<lambda>a. (ca_script_hash a, a)) as)"
    using kv_loaded [OF inv] by (simp add: kv_db_def)
  show "\<exists>r. db_get_transaction (kv_db C) h d = (r, d) \<and> ok_part r = dv_transactions (kv_view C d) h"
    using kv_read(1) [OF inv] by (simp add: kv_db_def)
  show "\<exists>r. db_get_stats (kv_db C) d = (r, d) \<and> ok_part r = dv_stats (kv_view C d)"
    using kv_read(2) [OF inv] by (simp add: kv_db_def)
  show "\<exists>r. db_get_cache_height (kv_db C) d = (r, d) \<and> ok_part r = dv_height (kv_view C d)"
    using kv_read(3) [OF inv] by (simp add: kv_db_def)
  show "db_get_descriptors (kv_db C) d = (Inr (dv_descriptors (kv_view C d)), d)"
    using kv_descriptors_read [OF inv] by (simp add: kv_db_def)
  show "\<exists>hs. db_list_transactions (kv_db C) d = (Inr hs, d) \<and> distinct hs \<and> set hs = dom (dv_transactions (kv_view C d))"
  proof -
    have "dv_transactions (kv_view C d) h \<noteq> None \<longleftrightarrow> b_transactions d h \<noteq> None" for h
    proof (cases "b_transactions d h")
      case (Some v)
      then obtain t where "v = js_to_vec (kv_transaction C) t" using inv unfolding kv_inv_def by blast
      with Some show ?thesis by (simp add: kv_view_def laws)
    qed (simp add: kv_view_def)
    then have "dom (dv_transactions (kv_view C d)) = dom (b_transactions d)" by (simp add: dom_def)
    then show ?thesis using inv by (simp add: kv_db_def kv_list_transactions_def gets_run kv_inv_def kv_laws_def)
  qed
  show "\<exists>d'. db_save_transaction (kv_db C) t d = (Inr (), d') \<and> kv_inv C d'
      \<and> kv_view C d' = (kv_view C d)\<lparr>dv_transactions := (dv_transactions (kv_view C d))(ct_hash t \<mapsto> t)\<rparr>"
    if "ct_hash t = kv_compute_txid C (ct_tx t)"
    using inv that by (auto simp: kv_db_def kv_save_transaction_def update_run kv_inv_def kv_view_def laws fun_eq_iff)
  show "\<exists>d'. db_save_stats (kv_db C) st d = (Inr (), d') \<and> kv_inv C d' \<and> kv_view C d' = (kv_view C d)\<lparr>dv_stats := Some st\<rparr>"
    using inv by (auto simp: kv_db_def kv_save_stats_def update_run kv_inv_def kv_view_def laws)
  show "\<exists>d'. db_save_descriptor (kv_db C) s d = (Inr (), d') \<and> kv_inv C d'
      \<and> kv_view C d' = (kv_view C d)\<lparr>dv_descriptors := dv_descriptors (kv_view C d) @ [s]\<rparr>"
  proof -
    have "db_save_descriptor (kv_db C) s d = (Inr (), d\<lparr>b_addresses := (b_addresses d)
        (''desc'' \<mapsto> js_to_vec (kv_descriptors C) (dv_descriptors (kv_view C d) @ [s]))\<rparr>)"
      by (simp add: kv_db_def kv_save_descriptor_def bindS_def kv_descriptors_read [OF inv] update_run)
    then show ?thesis using inv by (auto simp: kv_inv_def kv_view_def laws)
  qed
  show "\<exists>d'. db_set_cache_height (kv_db C) k d = (Inr (), d') \<and> kv_inv C d' \<and> kv_view C d' = (kv_view C d)\<lparr>dv_height := Some k\<rparr>"
    using inv by (auto simp: kv_db_def kv_set_cache_height_def update_run kv_inv_def kv_view_def laws)
qed

end
