(* ===== verification/Watch_Only.thy ===== *)
theory Watch_Only
  imports Wallet_Db "HOL-Library.Product_Lexorder" "HOL-Library.List_Lexorder"
begin

text \<open>
  The watch-only wallet, \<^verbatim>\<open>AddressCacheInner\<close> and \<^verbatim>\<open>AddressCache\<close> of \<^verbatim>\<open>floresta-watch-only/src/lib.rs\<close>:
  addresses, coins, balances and history, kept in memory and written to a database. Every operation is
  one function of the state; \<^verbatim>\<open>expect\<close>, \<^verbatim>\<open>unwrap\<close>, \<^verbatim>\<open>assert!\<close> and indexing out of range give the error
  \<open>WalletPanic\<close>. \<^verbatim>\<open>AddressCache\<close> only takes the lock and calls the inner method.
\<close>

section \<open>Definitions\<close>

definition DERIVATION_COUNT :: u32 where
  "DERIVATION_COUNT = 100"

definition GAP_LIMIT :: u32 where
  "GAP_LIMIT = 20"

definition INDEX_INITIAL :: u32 where
  "INDEX_INITIAL = 0"

text \<open>SHA-256, the transaction ids, the Merkle backend, keys and descriptors, and the database.\<close>

record ('d, 'x, 'k) wallet_env =
  w_sha256 :: "bytes \<Rightarrow> hash"
  w_lib :: bitcoin_api
  w_branch :: "hash list \<Rightarrow> nat \<Rightarrow> hash list option"
  w_keys :: "('x, 'k) key_api"
  w_key_error_text :: "descriptor_error \<Rightarrow> string"
  w_db :: "'d address_db"
  w_address_order :: "(hash \<rightharpoonup> cached_address) \<Rightarrow> hash list"

record 'd address_cache_inner =
  database :: 'd
  address_map :: "hash \<rightharpoonup> cached_address"
  script_set :: "hash set"
  utxo_index :: "outpoint \<rightharpoonup> hash"
  derived_index :: "hash \<rightharpoonup> u32"

type_synonym ('d, 'a) wallet_op = "('d address_cache_inner, watch_only_error, 'a) stm"

definition get_spk_hash :: "('d, 'x, 'k) wallet_env \<Rightarrow> script \<Rightarrow> hash" where
  "get_spk_hash W spk = rev (w_sha256 W spk)"

text \<open>A call of the database, with \<^verbatim>\<open>?\<close>; \<open>expect_ok\<close> is the same with \<^verbatim>\<open>expect\<close> or \<^verbatim>\<open>unwrap\<close>.\<close>

definition on_db :: "('d, 'a) db_op \<Rightarrow> ('d, 'a) wallet_op" where
  "on_db m w = (case m (database w) of (r, d) \<Rightarrow> (r, w\<lparr>database := d\<rparr>))"

definition expect_ok :: "string \<Rightarrow> ('d, 'a) wallet_op \<Rightarrow> ('d, 'a) wallet_op" where
  "expect_ok msg m =
     bindS (attempt m) (\<lambda>r. case r of Inl _ \<Rightarrow> fail (WalletPanic msg) | Inr a \<Rightarrow> ret a)"

definition expect_some :: "string \<Rightarrow> 'a option \<Rightarrow> ('d, 'a) wallet_op" where
  "expect_some msg x = lift (ok_or (WalletPanic msg) x)"

definition nth_opt :: "'a list \<Rightarrow> nat \<Rightarrow> 'a option" where
  "nth_opt xs n = (if n < length xs then Some (xs ! n) else None)"

fun watch_only_from_descriptor_error :: "(descriptor_error \<Rightarrow> string) \<Rightarrow> descriptor_error \<Rightarrow> watch_only_error" where
  "watch_only_from_descriptor_error show (XpubParseError (SlipPanic msg)) = WalletPanic msg"
| "watch_only_from_descriptor_error show e = InvalidDescriptor (show e)"

section \<open>Reading\<close>

definition get_transaction :: "('d, 'x, 'k) wallet_env \<Rightarrow> hash \<Rightarrow> ('d, cached_transaction option) wallet_op" where
  "get_transaction W txid = bindS (attempt (on_db (db_get_transaction (w_db W) txid))) (\<lambda>r.
     ret (case r of Inl _ \<Rightarrow> None | Inr t \<Rightarrow> Some t))"

fun address_utxos_loop :: "('d, 'x, 'k) wallet_env \<Rightarrow> outpoint list \<Rightarrow> (txout \<times> outpoint) list \<Rightarrow> ('d, (txout \<times> outpoint) list option) wallet_op" where
  "address_utxos_loop W [] acc = ret (Some acc)"
| "address_utxos_loop W (utxo # utxos) acc =
     bindS (get_transaction W (op_txid utxo)) (\<lambda>tx.
     case Option.bind tx (\<lambda>tx. nth_opt (tx_output (ct_tx tx)) (unat (op_vout utxo))) of
       None \<Rightarrow> ret None
     | Some out \<Rightarrow> address_utxos_loop W utxos (acc @ [(out, utxo)]))"

definition get_address_utxos :: "('d, 'x, 'k) wallet_env \<Rightarrow> hash \<Rightarrow> ('d, (txout \<times> outpoint) list option) wallet_op" where
  "get_address_utxos W script_hash =
     bindS (gets address_map) (\<lambda>m.
     case m script_hash of
       None \<Rightarrow> ret None
     | Some address \<Rightarrow> address_utxos_loop W (ca_utxos address) [])"

text \<open>\<^verbatim>\<open>impl Ord for CachedTransaction\<close>: by height, then position, then id.\<close>

definition cached_transaction_key :: "cached_transaction \<Rightarrow> u32 \<times> u32 \<times> hash" where
  "cached_transaction_key t = (ct_height t, ct_position t, ct_hash t)"

fun history_transactions :: "('d, 'x, 'k) wallet_env \<Rightarrow> hash list \<Rightarrow> ('d, cached_transaction list) wallet_op" where
  "history_transactions W [] = ret []"
| "history_transactions W (txid # txids) =
     bindS (get_transaction W txid) (\<lambda>t.
     bindS (history_transactions W txids) (\<lambda>ts.
     ret (case t of None \<Rightarrow> ts | Some t \<Rightarrow> t # ts)))"

definition get_address_history :: "('d, 'x, 'k) wallet_env \<Rightarrow> hash \<Rightarrow> ('d, cached_transaction list option) wallet_op" where
  "get_address_history W script_hash =
     bindS (gets address_map) (\<lambda>m.
     case m script_hash of
       None \<Rightarrow> ret None
     | Some cached_script \<Rightarrow>
         bindS (history_transactions W (ca_transactions cached_script)) (\<lambda>transactions.
         ret (Some (sort_key cached_transaction_key (filter (\<lambda>t. ct_height t \<noteq> 0) transactions)
           @ filter (\<lambda>t. ct_height t = 0) transactions))))"

definition get_merkle_proof :: "('d, 'x, 'k) wallet_env \<Rightarrow> hash \<Rightarrow> ('d, merkle_proof option) wallet_op" where
  "get_merkle_proof W txid = bindS (get_transaction W txid) (\<lambda>t. ret (Option.bind t ct_merkle_block))"

fun unconfirmed_loop :: "('d, 'x, 'k) wallet_env \<Rightarrow> hash list \<Rightarrow> transaction list \<Rightarrow> ('d, transaction list) wallet_op" where
  "unconfirmed_loop W [] acc = ret acc"
| "unconfirmed_loop W (txid # txids) acc =
     bindS (on_db (db_get_transaction (w_db W) txid)) (\<lambda>t.
     unconfirmed_loop W txids (if ct_height t = 0 then acc @ [ct_tx t] else acc))"

definition find_unconfirmed :: "('d, 'x, 'k) wallet_env \<Rightarrow> ('d, transaction list) wallet_op" where
  "find_unconfirmed W =
     bindS (on_db (db_list_transactions (w_db W))) (\<lambda>transactions. unconfirmed_loop W transactions [])"

fun find_spend_loop :: "('d, 'x, 'k) wallet_env \<Rightarrow> (nat \<times> txin) list \<Rightarrow> (nat \<times> txout) list \<Rightarrow> ('d, (nat \<times> txout) list) wallet_op" where
  "find_spend_loop W [] spends = ret spends"
| "find_spend_loop W ((idx, input) # inputs) spends =
     bindS (gets utxo_index) (\<lambda>index.
     case index (previous_output input) of
       None \<Rightarrow> find_spend_loop W inputs spends
     | Some _ \<Rightarrow>
         bindS (get_transaction W (op_txid (previous_output input))) (\<lambda>prev_tx.
         bindS (expect_some ''called Option::unwrap on a None value'' prev_tx) (\<lambda>prev_tx.
         bindS (expect_some ''index out of bounds'' (nth_opt (tx_output (ct_tx prev_tx)) (unat (op_vout (previous_output input))))) (\<lambda>out.
         find_spend_loop W inputs (spends @ [(idx, out)])))))"

definition find_spend :: "('d, 'x, 'k) wallet_env \<Rightarrow> transaction \<Rightarrow> ('d, (nat \<times> txout) list) wallet_op" where
  "find_spend W transaction = find_spend_loop W (List.enumerate 0 (tx_input transaction)) []"

section \<open>Addresses\<close>

definition cache_address :: "('d, 'x, 'k) wallet_env \<Rightarrow> script \<Rightarrow> ('d, unit) wallet_op" where
  "cache_address W script_pk =
     (let hash = get_spk_hash W script_pk in
     bindS (gets address_map) (\<lambda>m.
     if m hash \<noteq> None then ret ()
     else
       let new_address = \<lparr>ca_script_hash = hash, ca_balance = 0, ca_script = script_pk, ca_transactions = [], ca_utxos = []\<rparr> in
       bindS (on_db (db_save (w_db W) new_address)) (\<lambda>_.
       update (\<lambda>w. w\<lparr>address_map := (address_map w)(hash \<mapsto> new_address), script_set := insert hash (script_set w)\<rparr>))))"

definition derive_plain :: "('d, 'x, 'k) wallet_env \<Rightarrow> script list \<Rightarrow> ('d, unit) wallet_op" where
  "derive_plain W scripts = for_each scripts (cache_address W)"

definition derive_indexed :: "('d, 'x, 'k) wallet_env \<Rightarrow> u32 \<Rightarrow> u32 \<Rightarrow> script list \<Rightarrow> ('d, unit) wallet_op" where
  "derive_indexed W start quantity scripts =
     for_each (List.enumerate 0 scripts) (\<lambda>(position, script).
       let index = start + of_nat position mod quantity in
       bindS (update (\<lambda>w. w\<lparr>derived_index := (derived_index w)(get_spk_hash W script \<mapsto> index)\<rparr>)) (\<lambda>_.
       cache_address W script))"

text \<open>The errors of the descriptor are converted where they arise; in the source every caller converts them or
  panics on them.\<close>

definition descriptor_result :: "('d, 'x, 'k) wallet_env \<Rightarrow> descriptor_error + 'a \<Rightarrow> ('d, 'a) wallet_op" where
  "descriptor_result W r = lift (map_err (watch_only_from_descriptor_error (w_key_error_text W)) r)"

fun derive_range :: "('d, 'x, 'k) wallet_env \<Rightarrow> string list \<Rightarrow> u32 \<Rightarrow> u32 \<Rightarrow> script list \<Rightarrow> ('d, script list) wallet_op" where
  "derive_range W [] start quantity derived = ret derived"
| "derive_range W (descriptor # descriptors) start quantity derived =
     bindS (descriptor_result W (has_wildcard (w_keys W) descriptor)) (\<lambda>wild.
     bindS (if \<not> wild then
              bindS (descriptor_result W (derive_addresses_from_descriptor (w_keys W) descriptor INDEX_INITIAL 1)) (\<lambda>scripts.
              bindS (derive_plain W scripts) (\<lambda>_. ret scripts))
            else
              bindS (descriptor_result W (derive_addresses_from_descriptor (w_keys W) descriptor start quantity)) (\<lambda>scripts.
              bindS (derive_indexed W start quantity scripts) (\<lambda>_. ret scripts))) (\<lambda>scripts.
     derive_range W descriptors start quantity (derived @ scripts)))"

definition derive_addresses :: "('d, 'x, 'k) wallet_env \<Rightarrow> ('d, unit) wallet_op" where
  "derive_addresses W =
     bindS (on_db (db_get_stats (w_db W))) (\<lambda>st.
     bindS (on_db (db_get_descriptors (w_db W))) (\<lambda>descriptors.
     bindS (derive_range W descriptors (derivation_index st) DERIVATION_COUNT []) (\<lambda>_.
     on_db (db_save_stats (w_db W) (st\<lparr>derivation_index := derivation_index st + DERIVATION_COUNT\<rparr>)))))"

text \<open>A failed derivation is only logged; a panic is not caught.\<close>

definition log_error :: "('d, unit) wallet_op \<Rightarrow> ('d, unit) wallet_op" where
  "log_error m = bindS (attempt m) (\<lambda>r. case r of Inl (WalletPanic msg) \<Rightarrow> fail (WalletPanic msg) | _ \<Rightarrow> ret ())"

definition maybe_derive_addresses :: "('d, 'x, 'k) wallet_env \<Rightarrow> hash \<Rightarrow> ('d, unit) wallet_op" where
  "maybe_derive_addresses W hash =
     bindS (gets derived_index) (\<lambda>m.
     case m hash of
       None \<Rightarrow> ret ()
     | Some index \<Rightarrow>
         bindS (expect_ok ''called Result::unwrap on an Err value'' (on_db (db_get_stats (w_db W)))) (\<lambda>st.
         if index + GAP_LIMIT \<ge> derivation_index st then log_error (derive_addresses W) else ret ()))"

section \<open>Transactions\<close>

text \<open>The end of both ways to save a transaction: a new id is added to the address, which is then written.\<close>

definition record_transaction :: "('d, 'x, 'k) wallet_env \<Rightarrow> hash \<Rightarrow> cached_transaction \<Rightarrow> cached_address \<Rightarrow> ('d, unit) wallet_op" where
  "record_transaction W hash t address =
     (if ct_hash t \<notin> set (ca_transactions address) then
        let address = address\<lparr>ca_transactions := ca_transactions address @ [ct_hash t]\<rparr> in
        bindS (update (\<lambda>w. w\<lparr>address_map := (address_map w)(hash \<mapsto> address)\<rparr>)) (\<lambda>_.
        on_db (db_update (w_db W) address))
      else ret ())"

definition save_mempool_tx :: "('d, 'x, 'k) wallet_env \<Rightarrow> hash \<Rightarrow> cached_transaction \<Rightarrow> ('d, unit) wallet_op" where
  "save_mempool_tx W hash t =
     bindS (gets address_map) (\<lambda>m.
     case m hash of
       None \<Rightarrow> ret ()
     | Some address \<Rightarrow>
         record_transaction W hash t address)"

text \<open>The two ways in which a confirmed transaction changes an address: a coin is spent or received. Both
  update the address and the index of coins.\<close>

definition spend_coin :: "transaction \<Rightarrow> u64 \<Rightarrow> nat \<Rightarrow> hash \<Rightarrow> cached_address \<Rightarrow> ('d, cached_address) wallet_op" where
  "spend_coin transaction value index hash address =
     bindS (lift (reject_if (\<not> value \<le> ca_balance address) (WalletPanic ''assertion failed: value <= address.balance''))) (\<lambda>_.
     let address = address\<lparr>ca_balance := ca_balance address - value\<rparr> in
     bindS (update (\<lambda>w. w\<lparr>address_map := (address_map w)(hash \<mapsto> address)\<rparr>)) (\<lambda>_.
     bindS (expect_some ''Malformed call, index is bigger than the output vector'' (nth_opt (tx_input transaction) index)) (\<lambda>input.
     if previous_output input \<in> set (ca_utxos address) then
       let address = address\<lparr>ca_utxos := remove1 (previous_output input) (ca_utxos address)\<rparr> in
       bindS (update (\<lambda>w. w\<lparr>address_map := (address_map w)(hash \<mapsto> address),
         utxo_index := (utxo_index w)(previous_output input := None)\<rparr>)) (\<lambda>_. ret address)
     else ret address)))"

definition receive_coin :: "('d, 'x, 'k) wallet_env \<Rightarrow> transaction \<Rightarrow> u64 \<Rightarrow> nat \<Rightarrow> hash \<Rightarrow> cached_address \<Rightarrow> ('d, cached_address) wallet_op" where
  "receive_coin W transaction value index hash address =
     (let utxo = \<lparr>op_txid = compute_txid (w_lib W) transaction, op_vout = of_nat index\<rparr>;
          address = address\<lparr>ca_utxos := ca_utxos address @ [utxo], ca_balance := ca_balance address + value\<rparr> in
     bindS (update (\<lambda>w. w\<lparr>address_map := (address_map w)(hash \<mapsto> address), utxo_index := (utxo_index w)(utxo \<mapsto> hash)\<rparr>)) (\<lambda>_.
     ret address))"

definition save_non_mempool_tx ::
  "('d, 'x, 'k) wallet_env \<Rightarrow> transaction \<Rightarrow> bool \<Rightarrow> u64 \<Rightarrow> nat \<Rightarrow> hash \<Rightarrow> cached_transaction \<Rightarrow> ('d, unit) wallet_op" where
  "save_non_mempool_tx W transaction is_spend value index hash t =
     bindS (gets address_map) (\<lambda>m.
     case m hash of
       None \<Rightarrow> ret ()
     | Some address \<Rightarrow>
         bindS (if is_spend then spend_coin transaction value index hash address
                else receive_coin W transaction value index hash address) (\<lambda>address.
         record_transaction W hash t address))"

definition follow_output :: "('d, 'x, 'k) wallet_env \<Rightarrow> transaction \<Rightarrow> nat \<Rightarrow> hash \<Rightarrow> ('d, unit) wallet_op" where
  "follow_output W transaction index hash =
     bindS (gets address_map) (\<lambda>m.
     if m hash \<noteq> None then ret ()
     else
       bindS (expect_some ''index out of bounds'' (nth_opt (tx_output transaction) index)) (\<lambda>out.
       let new_address = \<lparr>ca_script_hash = hash, ca_balance = 0, ca_script = script_pubkey out, ca_transactions = [], ca_utxos = []\<rparr> in
       bindS (on_db (db_save (w_db W) new_address)) (\<lambda>_.
       update (\<lambda>w. w\<lparr>address_map := (address_map w)(hash \<mapsto> new_address), script_set := insert hash (script_set w)\<rparr>))))"

definition cache_transaction ::
  "('d, 'x, 'k) wallet_env \<Rightarrow> transaction \<Rightarrow> u32 \<Rightarrow> u64 \<Rightarrow> merkle_proof \<Rightarrow> u32 \<Rightarrow> nat \<Rightarrow> bool \<Rightarrow> hash \<Rightarrow> ('d, unit) wallet_op" where
  "cache_transaction W transaction height value merkle_block position index is_spend hash =
     (let t = \<lparr>ct_tx = transaction, ct_height = height, ct_merkle_block = Some merkle_block,
                ct_hash = compute_txid (w_lib W) transaction, ct_position = position\<rparr> in
     bindS (expect_ok ''Database not working'' (on_db (db_save_transaction (w_db W) t))) (\<lambda>_.
     bindS (follow_output W transaction index hash) (\<lambda>_.
     bindS (maybe_derive_addresses W hash) (\<lambda>_.
     if height > 0 then save_non_mempool_tx W transaction is_spend value index hash t
     else save_mempool_tx W hash t))))"

section \<open>Blocks\<close>

definition process_block_input ::
  "('d, 'x, 'k) wallet_env \<Rightarrow> block \<Rightarrow> u32 \<Rightarrow> nat \<Rightarrow> transaction \<Rightarrow> nat \<times> txin \<Rightarrow> ('d, unit) wallet_op" where
  "process_block_input W b height position transaction vtxin =
     (let (vin, txin) = vtxin; prev = previous_output txin in
     bindS (gets utxo_index) (\<lambda>index.
     case index prev of
       None \<Rightarrow> ret ()
     | Some script \<Rightarrow>
         bindS (gets address_map) (\<lambda>m.
         bindS (expect_some ''Cannot cache a utxo for a address we do not have'' (m script)) (\<lambda>address.
         bindS (get_transaction W (op_txid prev)) (\<lambda>tx.
         bindS (expect_some ''We cached a utxo for a transaction we do not have'' tx) (\<lambda>tx.
         bindS (expect_some ''Did we cache an invalid utxo?'' (nth_opt (tx_output (ct_tx tx)) (unat (op_vout prev)))) (\<lambda>utxo.
         bindS (expect_some ''target is in transaction list'' (from_block (w_lib W) (w_branch W) b (of_nat position))) (\<lambda>merkle_block.
         cache_transaction W transaction height (value_sat utxo) merkle_block (of_nat position) vin True
           (ca_script_hash address)))))))))"

definition process_block_output ::
  "('d, 'x, 'k) wallet_env \<Rightarrow> block \<Rightarrow> u32 \<Rightarrow> nat \<Rightarrow> transaction \<Rightarrow> nat \<times> txout \<Rightarrow> ('d, (transaction \<times> txout) list) wallet_op" where
  "process_block_output W b height position transaction vtxout =
     (let (vout, out) = vtxout; hash = get_spk_hash W (script_pubkey out) in
     bindS (gets script_set) (\<lambda>scripts.
     if hash \<notin> scripts then ret []
     else
       bindS (expect_some ''target is in transaction list'' (from_block (w_lib W) (w_branch W) b (of_nat position))) (\<lambda>merkle_block.
       bindS (cache_transaction W transaction height (value_sat out) merkle_block (of_nat position) vout False hash) (\<lambda>_.
       ret [(transaction, out)]))))"

fun process_block_outputs ::
  "('d, 'x, 'k) wallet_env \<Rightarrow> block \<Rightarrow> u32 \<Rightarrow> nat \<Rightarrow> transaction \<Rightarrow> (nat \<times> txout) list \<Rightarrow> ('d, (transaction \<times> txout) list) wallet_op" where
  "process_block_outputs W b height position transaction [] = ret []"
| "process_block_outputs W b height position transaction (out # outs) =
     bindS (process_block_output W b height position transaction out) (\<lambda>mine.
     bindS (process_block_outputs W b height position transaction outs) (\<lambda>more. ret (mine @ more)))"

fun block_process_loop ::
  "('d, 'x, 'k) wallet_env \<Rightarrow> block \<Rightarrow> u32 \<Rightarrow> (nat \<times> transaction) list \<Rightarrow> ('d, (transaction \<times> txout) list) wallet_op" where
  "block_process_loop W b height [] = ret []"
| "block_process_loop W b height ((position, transaction) # txs) =
     bindS (for_each (List.enumerate 0 (tx_input transaction)) (process_block_input W b height position transaction)) (\<lambda>_.
     bindS (process_block_outputs W b height position transaction (List.enumerate 0 (tx_output transaction))) (\<lambda>mine.
     bindS (block_process_loop W b height txs) (\<lambda>more. ret (mine @ more))))"

definition block_process :: "('d, 'x, 'k) wallet_env \<Rightarrow> block \<Rightarrow> u32 \<Rightarrow> ('d, (transaction \<times> txout) list) wallet_op" where
  "block_process W b height = block_process_loop W b height (List.enumerate 0 (txdata b))"

text \<open>\<^verbatim>\<open>BlockConsumer::on_block\<close>: an error is logged, and the spent outputs are not asked for.\<close>

definition wallet_wants_spent_utxos :: bool where
  "wallet_wants_spent_utxos = False"

definition wallet_on_block :: "('d, 'x, 'k) wallet_env \<Rightarrow> block \<Rightarrow> u32 \<Rightarrow> ('d, unit) wallet_op" where
  "wallet_on_block W b height = log_error (bindS (block_process W b height) (\<lambda>_. ret ()))"

section \<open>Unconfirmed transactions\<close>

text \<open>The addresses are looked up by the script of the spent output and of the new one.\<close>

definition cache_mempool_coin :: "('d, 'x, 'k) wallet_env \<Rightarrow> transaction \<Rightarrow> nat \<times> txout \<Rightarrow> ('d, unit) wallet_op" where
  "cache_mempool_coin W transaction coin =
     (let (idx, out) = coin in
     bindS (gets address_map) (\<lambda>m.
     bindS (expect_some ''called Option::unwrap on a None value'' (m (get_spk_hash W (script_pubkey out)))) (\<lambda>address.
     cache_transaction W transaction 0 (value_sat out) merkle_proof_new 0 idx True (ca_script_hash address))))"

fun cache_mempool_outputs :: "('d, 'x, 'k) wallet_env \<Rightarrow> transaction \<Rightarrow> (nat \<times> txout) list \<Rightarrow> (nat \<times> txout) list \<Rightarrow> ('d, (nat \<times> txout) list) wallet_op" where
  "cache_mempool_outputs W transaction [] coins = ret coins"
| "cache_mempool_outputs W transaction ((idx, out) # outs) coins =
     bindS (gets script_set) (\<lambda>scripts.
     if get_spk_hash W (script_pubkey out) \<in> scripts then
       bindS (cache_mempool_coin W transaction (idx, out)) (\<lambda>_.
       cache_mempool_outputs W transaction outs (coins @ [(idx, out)]))
     else cache_mempool_outputs W transaction outs coins)"

definition cache_mempool_transaction :: "('d, 'x, 'k) wallet_env \<Rightarrow> transaction \<Rightarrow> ('d, txout list) wallet_op" where
  "cache_mempool_transaction W transaction =
     bindS (find_spend W transaction) (\<lambda>coins.
     bindS (for_each coins (cache_mempool_coin W transaction)) (\<lambda>_.
     bindS (cache_mempool_outputs W transaction (List.enumerate 0 (tx_output transaction)) coins) (\<lambda>coins.
     ret (map snd coins))))"

section \<open>Opening a wallet\<close>

definition load_address :: "cached_address \<Rightarrow> 'd address_cache_inner \<Rightarrow> 'd address_cache_inner" where
  "load_address address w = w\<lparr>
     utxo_index := foldl (\<lambda>m utxo. m(utxo \<mapsto> ca_script_hash address)) (utxo_index w) (ca_utxos address),
     script_set := insert (ca_script_hash address) (script_set w),
     address_map := (address_map w)(ca_script_hash address \<mapsto> address)\<rparr>"

definition restore_descriptors :: "('d, 'x, 'k) wallet_env \<Rightarrow> ('d, unit) wallet_op" where
  "restore_descriptors W =
     bindS (expect_ok ''Could not load descriptors'' (on_db (db_get_descriptors (w_db W)))) (\<lambda>descriptors.
     bindS (expect_ok ''Could not load stats'' (on_db (db_get_stats (w_db W)))) (\<lambda>st.
     if descriptors = [] then ret ()
     else
       bindS (if derivation_index st < DERIVATION_COUNT
              then let st = st\<lparr>derivation_index := DERIVATION_COUNT\<rparr> in
                bindS (expect_ok ''Could not save stats'' (on_db (db_save_stats (w_db W) st))) (\<lambda>_. ret st)
              else ret st) (\<lambda>st.
       bindS (expect_ok ''Stored descriptors are valid''
         (derive_range W descriptors INDEX_INITIAL (derivation_index st) [])) (\<lambda>_. ret ()))))"

text \<open>\<^verbatim>\<open>new\<close> starts from the database alone.\<close>

definition address_cache_new :: "('d, 'x, 'k) wallet_env \<Rightarrow> ('d, unit) wallet_op" where
  "address_cache_new W =
     bindS (expect_ok ''Could not load database'' (on_db (db_load (w_db W)))) (\<lambda>scripts.
     bindS (attempt (on_db (db_get_stats (w_db W)))) (\<lambda>st.
     bindS (case st of
         Inl _ \<Rightarrow> expect_ok ''Could not save stats'' (on_db (db_save_stats (w_db W) stats_default))
       | Inr _ \<Rightarrow> ret ()) (\<lambda>_.
     bindS (update (fold load_address scripts)) (\<lambda>_.
     restore_descriptors W))))"

definition opened :: "'d \<Rightarrow> 'd address_cache_inner" where
  "opened d = \<lparr>database = d, address_map = Map.empty, script_set = {}, utxo_index = Map.empty, derived_index = Map.empty\<rparr>"

definition wallet_setup :: "('d, 'x, 'k) wallet_env \<Rightarrow> ('d, unit) wallet_op" where
  "wallet_setup W =
     bindS (attempt (on_db (db_get_descriptors (w_db W)))) (\<lambda>r.
     case r of Inl _ \<Rightarrow> on_db (db_set_cache_height (w_db W) 0) | Inr _ \<Rightarrow> ret ())"

section \<open>The operations of the cache\<close>

definition get_utxo :: "('d, 'x, 'k) wallet_env \<Rightarrow> outpoint \<Rightarrow> ('d, txout option) wallet_op" where
  "get_utxo W outpoint =
     bindS (gets utxo_index) (\<lambda>index.
     if index outpoint = None then ret None
     else
       bindS (get_transaction W (op_txid outpoint)) (\<lambda>tx.
       case tx of
         None \<Rightarrow> ret None
       | Some tx \<Rightarrow>
           bindS (expect_some ''index out of bounds'' (nth_opt (tx_output (ct_tx tx)) (unat (op_vout outpoint)))) (\<lambda>out. ret (Some out))))"

definition n_cached_addresses :: "('d, nat) wallet_op" where
  "n_cached_addresses = gets (\<lambda>w. card (dom (address_map w)))"

definition get_address_balance :: "hash \<Rightarrow> ('d, u64 option) wallet_op" where
  "get_address_balance script_hash = gets (\<lambda>w. map_option ca_balance (address_map w script_hash))"

definition get_cached_addresses :: "('d, 'x, 'k) wallet_env \<Rightarrow> ('d, script list) wallet_op" where
  "get_cached_addresses W =
     gets (\<lambda>w. map ca_script (List.map_filter (address_map w) (w_address_order W (address_map w))))"

definition bump_height :: "('d, 'x, 'k) wallet_env \<Rightarrow> u32 \<Rightarrow> ('d, unit) wallet_op" where
  "bump_height W height = on_db (db_set_cache_height (w_db W) height)"

definition get_cache_height :: "('d, 'x, 'k) wallet_env \<Rightarrow> ('d, u32) wallet_op" where
  "get_cache_height W =
     bindS (attempt (on_db (db_get_cache_height (w_db W)))) (\<lambda>r. ret (case r of Inl _ \<Rightarrow> 0 | Inr h \<Rightarrow> h))"

definition is_cached :: "('d, 'x, 'k) wallet_env \<Rightarrow> string \<Rightarrow> ('d, bool) wallet_op" where
  "is_cached W desc = bindS (on_db (db_get_descriptors (w_db W))) (\<lambda>known_descs. ret (desc \<in> set known_descs))"

definition is_address_cached :: "hash \<Rightarrow> ('d, bool) wallet_op" where
  "is_address_cached script_hash = gets (\<lambda>w. address_map w script_hash \<noteq> None)"

definition push_descriptor :: "('d, 'x, 'k) wallet_env \<Rightarrow> string \<Rightarrow> ('d, script list) wallet_op" where
  "push_descriptor W descriptor =
     bindS (is_cached W descriptor) (\<lambda>cached.
     bindS (lift (reject_if cached (DuplicateDescriptor descriptor))) (\<lambda>_.
     bindS (on_db (db_get_stats (w_db W))) (\<lambda>st.
     let horizon = max (derivation_index st) DERIVATION_COUNT in
     bindS (derive_range W [descriptor] INDEX_INITIAL horizon []) (\<lambda>address_descriptors.
     bindS (on_db (db_save_descriptor (w_db W) descriptor)) (\<lambda>_.
     bindS (on_db (db_save_stats (w_db W) (st\<lparr>derivation_index := horizon\<rparr>))) (\<lambda>_.
     ret address_descriptors))))))"

definition push_xpub :: "('d, 'x, 'k) wallet_env \<Rightarrow> string \<Rightarrow> network \<Rightarrow> ('d, unit) wallet_op" where
  "push_xpub W xpub net =
     bindS (descriptor_result W (parse_xpub (w_keys W) xpub net)) (\<lambda>descriptors.
     for_each descriptors (\<lambda>descriptor. bindS (push_descriptor W descriptor) (\<lambda>_. ret ())))"

definition get_position :: "('d, 'x, 'k) wallet_env \<Rightarrow> hash \<Rightarrow> ('d, u32 option) wallet_op" where
  "get_position W txid = bindS (get_transaction W txid) (\<lambda>t. ret (map_option ct_position t))"

definition get_height :: "('d, 'x, 'k) wallet_env \<Rightarrow> hash \<Rightarrow> ('d, u32 option) wallet_op" where
  "get_height W txid = bindS (get_transaction W txid) (\<lambda>t. ret (map_option ct_height t))"

definition get_stats :: "('d, 'x, 'k) wallet_env \<Rightarrow> ('d, stats) wallet_op" where
  "get_stats W = on_db (db_get_stats (w_db W))"

definition get_descriptors :: "('d, 'x, 'k) wallet_env \<Rightarrow> ('d, string list) wallet_op" where
  "get_descriptors W = on_db (db_get_descriptors (w_db W))"

end
