(* ===== verification/Wallet_Rules.thy ===== *)
theory Wallet_Rules
  imports Watch_Only
begin

text \<open>
  What the watch-only wallet guarantees over any database that keeps the contract \<open>address_store\<close>: the
  books balance, no operation panics, and processing a block replays its effect on the watched coins.
\<close>

section \<open>Definitions\<close>

text \<open>The output an outpoint refers to, by the transactions in the database.\<close>

definition coin_at :: "(hash \<rightharpoonup> cached_transaction) \<Rightarrow> outpoint \<Rightarrow> txout option" where
  "coin_at txs op = Option.bind (txs (op_txid op)) (\<lambda>t. nth_opt (tx_output (ct_tx t)) (unat (op_vout op)))"

definition owns :: "('d, 'x, 'k) wallet_env \<Rightarrow> (hash \<rightharpoonup> cached_transaction) \<Rightarrow> (outpoint \<rightharpoonup> hash) \<Rightarrow> hash \<Rightarrow> cached_address \<Rightarrow> bool" where
  "owns W txs index h a \<longleftrightarrow> ca_script_hash a = h \<and> distinct (ca_utxos a)
     \<and> (\<forall>op \<in> set (ca_utxos a). index op = Some h \<and> (\<exists>out. coin_at txs op = Some out \<and> get_spk_hash W (script_pubkey out) = h))
     \<and> unat (ca_balance a) = (\<Sum>op \<leftarrow> ca_utxos a. unat (value_sat (the (coin_at txs op))))"

text \<open>The addresses, the index of coins and the database agree: each coin of the index belongs to one watched
  address, which pays its script, and the balance of an address is the sum of its coins.\<close>

definition books :: "('d, 'x, 'k) wallet_env \<Rightarrow> db_view \<Rightarrow> 'd address_cache_inner \<Rightarrow> bool" where
  "books W v w \<longleftrightarrow> script_set w = dom (address_map w) \<and> dom (address_map w) \<subseteq> dom (dv_addresses v) \<and> dv_stats v \<noteq> None
     \<and> (\<forall>op h. utxo_index w op = Some h \<longrightarrow> (\<exists>a. address_map w h = Some a \<and> op \<in> set (ca_utxos a)))
     \<and> (\<forall>h a. address_map w h = Some a \<longrightarrow> owns W (dv_transactions v) (utxo_index w) h a)"

definition sound :: "('d, 'x, 'k) wallet_env \<Rightarrow> ('d \<Rightarrow> bool) \<Rightarrow> ('d \<Rightarrow> db_view) \<Rightarrow> 'd address_cache_inner \<Rightarrow> bool" where
  "sound W dinv view w \<longleftrightarrow> dinv (database w) \<and> books W (view (database w)) w"

definition owned :: "('d \<Rightarrow> db_view) \<Rightarrow> 'd address_cache_inner \<Rightarrow> outpoint \<rightharpoonup> txout" where
  "owned view w op = (if utxo_index w op = None then None else coin_at (dv_transactions (view (database w))) op)"

definition saved :: "('d, 'x, 'k) wallet_env \<Rightarrow> ('d \<Rightarrow> db_view) \<Rightarrow> transaction \<Rightarrow> 'd address_cache_inner \<Rightarrow> bool" where
  "saved W view t w \<longleftrightarrow> (\<exists>ct. dv_transactions (view (database w)) (compute_txid (w_lib W) t) = Some ct \<and> tx_output (ct_tx ct) = tx_output t)"

text \<open>A transaction with the id of an owned coin has the outputs of the one in the database.\<close>

definition agrees :: "('d, 'x, 'k) wallet_env \<Rightarrow> ('d \<Rightarrow> db_view) \<Rightarrow> transaction \<Rightarrow> 'd address_cache_inner \<Rightarrow> bool" where
  "agrees W view t w \<longleftrightarrow> (\<exists>op. utxo_index w op \<noteq> None \<and> op_txid op = compute_txid (w_lib W) t) \<longrightarrow> saved W view t w"

text \<open>New addresses only, without coins.\<close>

definition grows :: "('d \<Rightarrow> db_view) \<Rightarrow> 'd address_cache_inner \<Rightarrow> 'd address_cache_inner \<Rightarrow> bool" where
  "grows view w0 w \<longleftrightarrow> (\<forall>h a. address_map w0 h = Some a \<longrightarrow> address_map w h = Some a)
     \<and> (\<forall>h a. address_map w0 h = None \<longrightarrow> address_map w h = Some a \<longrightarrow> ca_balance a = 0 \<and> ca_utxos a = [])
     \<and> utxo_index w = utxo_index w0 \<and> dv_transactions (view (database w)) = dv_transactions (view (database w0))"

definition room :: "nat \<Rightarrow> 'd address_cache_inner \<Rightarrow> bool" where
  "room n w \<longleftrightarrow> n < 2 ^ 64 \<and> (\<forall>h a. address_map w h = Some a \<longrightarrow> unat (ca_balance a) + n < 2 ^ 64)"

text \<open>The effect of a transaction and of a block on a map of coins.\<close>

definition new_coin :: "('d, 'x, 'k) wallet_env \<Rightarrow> transaction \<Rightarrow> nat \<Rightarrow> outpoint" where
  "new_coin W t j = \<lparr>op_txid = compute_txid (w_lib W) t, op_vout = of_nat j\<rparr>"

definition replay_inputs :: "txin list \<Rightarrow> (outpoint \<rightharpoonup> txout) \<Rightarrow> outpoint \<rightharpoonup> txout" where
  "replay_inputs ins M = fold (\<lambda>i M. M(previous_output i := None)) ins M"

definition replay_outputs :: "('d, 'x, 'k) wallet_env \<Rightarrow> transaction \<Rightarrow> (nat \<times> txout) list \<Rightarrow> (outpoint \<rightharpoonup> txout) \<Rightarrow> outpoint \<rightharpoonup> txout" where
  "replay_outputs W t outs M = fold (\<lambda>(j, out) M. M(new_coin W t j \<mapsto> out)) outs M"

definition replay_tx :: "('d, 'x, 'k) wallet_env \<Rightarrow> transaction \<Rightarrow> (outpoint \<rightharpoonup> txout) \<Rightarrow> outpoint \<rightharpoonup> txout" where
  "replay_tx W t M = replay_outputs W t (List.enumerate 0 (tx_output t)) (replay_inputs (tx_input t) M)"

definition replay_block :: "('d, 'x, 'k) wallet_env \<Rightarrow> block \<Rightarrow> (outpoint \<rightharpoonup> txout) \<Rightarrow> outpoint \<rightharpoonup> txout" where
  "replay_block W b M = fold (replay_tx W) (txdata b) M"

definition outputs_value :: "txout list \<Rightarrow> nat" where
  "outputs_value outs = (\<Sum>out \<leftarrow> outs. unat (value_sat out))"

definition block_value :: "block \<Rightarrow> nat" where
  "block_value b = (\<Sum>t \<leftarrow> txdata b. outputs_value (tx_output t))"

text \<open>A block the wallet can process: confirmed, with distinct transaction ids none of which belongs to an owned
  coin, with fewer than \<open>2 ^ 32\<close> outputs per transaction, a Merkle branch for each transaction, and a total
  value that overflows no balance.\<close>

definition processable :: "('d, 'x, 'k) wallet_env \<Rightarrow> ('d \<Rightarrow> db_view) \<Rightarrow> block \<Rightarrow> u32 \<Rightarrow> 'd address_cache_inner \<Rightarrow> bool" where
  "processable W view b height w \<longleftrightarrow> height > 0 \<and> distinct (map (compute_txid (w_lib W)) (txdata b))
     \<and> (\<forall>op. utxo_index w op \<noteq> None \<longrightarrow> op_txid op \<notin> set (map (compute_txid (w_lib W)) (txdata b)))
     \<and> (\<forall>t \<in> set (txdata b). length (tx_output t) < 2 ^ 32) \<and> length (txdata b) < 2 ^ 64
     \<and> (\<forall>i < length (txdata b). w_branch W (map (compute_txid (w_lib W)) (txdata b)) i \<noteq> None)
     \<and> room (block_value b) w"

text \<open>While a block is processed: the owned coins are among those of the map \<open>M\<close>, and include those that pay a
  script of \<open>V\<close>.\<close>

definition tracks :: "('d, 'x, 'k) wallet_env \<Rightarrow> ('d \<Rightarrow> db_view) \<Rightarrow> hash set \<Rightarrow> (outpoint \<rightharpoonup> txout) \<Rightarrow> 'd address_cache_inner \<Rightarrow> bool" where
  "tracks W view V M w \<longleftrightarrow> V \<subseteq> script_set w \<and> (\<forall>op out. owned view w op = Some out \<longrightarrow> M op = Some out)
     \<and> (\<forall>op out. M op = Some out \<longrightarrow> get_spk_hash W (script_pubkey out) \<in> V \<longrightarrow> owned view w op = Some out)"

fun is_panic :: "watch_only_error \<Rightarrow> bool" where
  "is_panic (WalletPanic msg) = True"
| "is_panic _ = False"

section \<open>Descriptors do not panic\<close>

lemma foldE_Inl:
  assumes "foldE f xs s = Inl e" and "\<And>x t e. f x t = Inl e \<Longrightarrow> P e"
  shows "P e"
  using assms(1) by (induction xs arbitrary: s) (auto simp: res_simps bindE_def split: sum.splits intro: assms(2))

lemma no_slip_error:
  "has_wildcard K s = Inl e \<Longrightarrow> \<exists>m. e = MiniscriptError m"
  "derive_addresses_from_parsed_descriptor K d i q = Inl e \<Longrightarrow> \<exists>m. e = DeriveDescriptorError m"
  "derive_addresses_from_descriptor K s i q = Inl e \<Longrightarrow> (\<exists>m. e = MiniscriptError m) \<or> (\<exists>m. e = DeriveDescriptorError m)"
proof -
  have parsed: "\<exists>m. e = DeriveDescriptorError m" if "derive_addresses_from_parsed_descriptor K d i q = Inl e" for d e
    using that unfolding derive_addresses_from_parsed_descriptor_def
    by (rule foldE_Inl) (auto simp: bindE_def map_err_def split: sum.splits)
  then show "derive_addresses_from_parsed_descriptor K d i q = Inl e \<Longrightarrow> \<exists>m. e = DeriveDescriptorError m" .
  show "has_wildcard K s = Inl e \<Longrightarrow> \<exists>m. e = MiniscriptError m"
    by (auto simp: has_wildcard_def bindE_def map_err_def split: sum.splits)
  assume "derive_addresses_from_descriptor K s i q = Inl e"
  then consider "parse_and_split_descriptor K s = Inl e"
    | ds where "foldE (\<lambda>d addresses. bindE (derive_addresses_from_parsed_descriptor K d i q) (\<lambda>more. Inr (addresses @ more))) ds [] = Inl e"
    by (auto simp: derive_addresses_from_descriptor_def bindE_def split: sum.splits)
  then show "(\<exists>m. e = MiniscriptError m) \<or> (\<exists>m. e = DeriveDescriptorError m)"
  proof cases
    case 1
    then show ?thesis by (auto simp: parse_and_split_descriptor_def bindE_def map_err_def split: sum.splits)
  next
    case 2
    then show ?thesis by (rule foldE_Inl) (auto simp: bindE_def split: sum.splits dest: parsed)
  qed
qed

section \<open>Growing\<close>

lemma grows_refl: "grows view w w"
  by (simp add: grows_def)

lemma grows_trans: "grows view u v \<Longrightarrow> grows view v w \<Longrightarrow> grows view u w"
  by (auto simp: grows_def) (metis option.exhaust)+

lemma grows_owned: "grows view w0 w \<Longrightarrow> owned view w = owned view w0"
  by (rule ext) (simp add: grows_def owned_def)

lemma grows_saved: "grows view w0 w \<Longrightarrow> saved W view t w = saved W view t w0"
  by (simp add: grows_def saved_def)

lemma grows_room:
  assumes "grows view w0 w" and "room n w0"
  shows "room n w"
proof -
  have "unat (ca_balance a) + n < 2 ^ 64" if "address_map w h = Some a" for h a
    using assms that by (cases "address_map w0 h") (auto simp: grows_def room_def)
  then show ?thesis using assms(2) by (simp add: room_def)
qed

lemma room_update:
  assumes "room n w" and "address_map w' = (address_map w)(h \<mapsto> b)" and "unat (ca_balance b) + m < 2 ^ 64" and "m \<le> n"
  shows "room m w'"
proof -
  have "unat (ca_balance c) + m < 2 ^ 64" if "address_map w k = Some c" for k c
  proof -
    have "unat (ca_balance c) + n < 2 ^ 64" using assms(1) that by (auto simp: room_def)
    then show ?thesis using assms(4) by linarith
  qed
  then show ?thesis using assms by (auto simp: room_def)
qed

lemma room_less: "room n w \<Longrightarrow> m \<le> n \<Longrightarrow> room m w"
  by (auto simp: room_def intro: le_less_trans [OF add_left_mono])

lemma tracks_sub: "tracks W view V M w \<Longrightarrow> owned view w op = Some out \<Longrightarrow> M op = Some out"
  unfolding tracks_def by blast

lemma tracks_sup: "tracks W view V M w \<Longrightarrow> M op = Some out \<Longrightarrow> get_spk_hash W (script_pubkey out) \<in> V \<Longrightarrow> owned view w op = Some out"
  unfolding tracks_def by blast

lemma tracks_update:
  assumes "tracks W view V M w" and "owned view w' = (owned view w)(op := x)" and "script_set w \<subseteq> script_set w'"
  shows "tracks W view V (M(op := x)) w'"
  unfolding tracks_def
proof (intro conjI allI impI)
  show "V \<subseteq> script_set w'" using assms(1,3) by (auto simp: tracks_def)
next
  fix p out assume "owned view w' p = Some out"
  then show "(M(op := x)) p = Some out" using assms(2) tracks_sub [OF assms(1), of p out] by (cases "p = op") simp_all
next
  fix p out assume "(M(op := x)) p = Some out" "get_spk_hash W (script_pubkey out) \<in> V"
  then show "owned view w' p = Some out" using assms(2) tracks_sup [OF assms(1), of p out] by (cases "p = op") simp_all
qed

lemma drop_Cons_split: "drop k xs = y # ys \<Longrightarrow> y = xs ! k \<and> ys = drop (Suc k) xs"
  by (metis drop_Suc list.sel(3) nth_via_drop tl_drop)

section \<open>Replaying\<close>

lemma replay_Cons:
  "replay_inputs (i # ins) M = replay_inputs ins (M(previous_output i := None))"
  "replay_outputs W t ((j, out) # outs) M = replay_outputs W t outs (M(new_coin W t j \<mapsto> out))"
  by (simp_all add: replay_inputs_def replay_outputs_def)

lemma replay_inputs_None: "M op = None \<Longrightarrow> replay_inputs ins M op = None"
  by (induction ins arbitrary: M) (simp_all add: replay_inputs_def)

lemma replay_outputs_other: "(\<And>j. op \<noteq> new_coin W t j) \<Longrightarrow> replay_outputs W t outs M op = M op"
  by (induction outs arbitrary: M) (auto simp: replay_outputs_def split: prod.splits)

lemma replay_tx_other: "op_txid op \<noteq> compute_txid (w_lib W) t \<Longrightarrow> M op = None \<Longrightarrow> replay_tx W t M op = None"
  unfolding replay_tx_def by (subst replay_outputs_other) (auto simp: new_coin_def intro: replay_inputs_None)

lemma new_coin_inj: "i < 2 ^ 32 \<Longrightarrow> j < 2 ^ 32 \<Longrightarrow> new_coin W t i = new_coin W t j \<longleftrightarrow> i = j"
  by (auto simp: new_coin_def dest!: arg_cong [of _ _ unat] simp: unat_of_nat)

text \<open>The wallet over a database that keeps its contract.\<close>

locale wallet_store = address_store "w_db W" "compute_txid (w_lib W)" dinv view
  for W :: "('d, 'x, 'k) wallet_env" and dinv :: "'d \<Rightarrow> bool" and view :: "'d \<Rightarrow> db_view"
begin

lemma soundD:
  assumes "sound W dinv view w"
  shows "dinv (database w)" and "script_set w = dom (address_map w)" and "dom (address_map w) \<subseteq> dom (dv_addresses (view (database w)))"
    and "dv_stats (view (database w)) \<noteq> None"
    and "utxo_index w op = Some h \<Longrightarrow> \<exists>a. address_map w h = Some a \<and> op \<in> set (ca_utxos a)"
    and "address_map w h = Some a \<Longrightarrow> owns W (dv_transactions (view (database w))) (utxo_index w) h a"
  using assms by (auto simp: sound_def books_def)

text \<open>A change of the database that keeps its transactions and adds to its addresses.\<close>

lemma sound_database:
  assumes "sound W dinv view w" and "dinv d" and "dom (dv_addresses (view (database w))) \<subseteq> dom (dv_addresses (view d))" and "dv_stats (view d) \<noteq> None"
    and "dv_transactions (view d) = dv_transactions (view (database w))"
  shows "sound W dinv view (w\<lparr>database := d\<rparr>)" and "grows view w (w\<lparr>database := d\<rparr>)"
  using assms order_trans [OF soundD(3) [OF assms(1)] assms(3)] by (simp_all add: sound_def books_def grows_def)

lemma cache_address_run:
  assumes "sound W dinv view w"
  shows "\<exists>w'. cache_address W s w = (Inr (), w') \<and> sound W dinv view w' \<and> grows view w w'"
proof (cases "address_map w (get_spk_hash W s)")
  case (Some a)
  then show ?thesis using assms grows_refl by (simp add: cache_address_def bindS_gets ret_run Let_def)
next
  case None
  let ?h = "get_spk_hash W s"
  let ?a = "\<lparr>ca_script_hash = ?h, ca_balance = 0, ca_script = s, ca_transactions = [], ca_utxos = []\<rparr>"
  from save_law [OF soundD(1) [OF assms], of ?a] obtain d where d: "db_save (w_db W) ?a (database w) = (Inr (), d)" "dinv d"
    "view d = (view (database w))\<lparr>dv_addresses := (dv_addresses (view (database w)))(?h \<mapsto> ?a)\<rparr>" by auto
  let ?w = "w\<lparr>database := d, address_map := (address_map w)(?h \<mapsto> ?a), script_set := insert ?h (script_set w)\<rparr>"
  have "cache_address W s w = (Inr (), ?w)"
    using None d(1) by (simp add: cache_address_def bindS_def gets_run on_db_def update_run Let_def)
  moreover have "sound W dinv view ?w"
  proof -
    have "utxo_index w op \<noteq> Some ?h" for op using soundD(5) [OF assms, of op ?h] None by auto
    then show ?thesis using assms d(2,3) None by (auto simp: sound_def books_def owns_def)
  qed
  moreover have "grows view w ?w" using None d(3) by (auto simp: grows_def)
  ultimately show ?thesis by blast
qed

text \<open>Code that keeps the books and only adds addresses; it may return an error but does not panic.\<close>

definition only_grows :: "('d, 'a) wallet_op \<Rightarrow> bool" where
  "only_grows m \<longleftrightarrow> (\<forall>w. sound W dinv view w \<longrightarrow> (\<exists>r w'. m w = (r, w') \<and> sound W dinv view w' \<and> grows view w w'
     \<and> (\<forall>e. r = Inl e \<longrightarrow> \<not> is_panic e)))"

lemma only_growsE:
  assumes "only_grows m" and "sound W dinv view w"
  obtains r w' where "m w = (r, w')" and "sound W dinv view w'" and "grows view w w'" and "\<forall>e. r = Inl e \<longrightarrow> \<not> is_panic e"
  using assms by (auto simp: only_grows_def)

lemma only_grows_bind:
  assumes "only_grows m" and "\<And>a. only_grows (f a)"
  shows "only_grows (bindS m f)"
  unfolding only_grows_def
proof (intro allI impI)
  fix w assume "sound W dinv view w"
  with assms(1) obtain r u where u: "m w = (r, u)" "sound W dinv view u" "grows view w u" "\<forall>e. r = Inl e \<longrightarrow> \<not> is_panic e"
    by (rule only_growsE)
  show "\<exists>r w'. bindS m f w = (r, w') \<and> sound W dinv view w' \<and> grows view w w' \<and> (\<forall>e. r = Inl e \<longrightarrow> \<not> is_panic e)"
  proof (cases r)
    case (Inl e)
    with u show ?thesis by (simp add: bindS_def)
  next
    case (Inr a)
    from assms(2) [of a] u(2) obtain r' v where v: "f a u = (r', v)" "sound W dinv view v" "grows view u v" "\<forall>e. r' = Inl e \<longrightarrow> \<not> is_panic e"
      by (rule only_growsE)
    with u Inr grows_trans [OF u(3) v(3)] show ?thesis by (simp add: bindS_def)
  qed
qed

lemma only_grows_basic:
  "only_grows (ret a)" "only_grows (gets f)" "(\<And>e. r = Inl e \<Longrightarrow> \<not> is_panic e) \<Longrightarrow> only_grows (lift r)"
  by (auto simp: only_grows_def ret_def gets_def lift_def grows_refl)

lemma only_grows_for_each: "(\<And>x. only_grows (body x)) \<Longrightarrow> only_grows (for_each xs body)"
  by (induction xs) (simp_all add: only_grows_basic only_grows_bind)

lemma only_grows_cache_address: "only_grows (cache_address W s)"
  using cache_address_run by (fastforce simp: only_grows_def)

lemma only_grows_descriptor_result:
  assumes "\<And>e. r = Inl e \<Longrightarrow> (\<exists>m. e = MiniscriptError m) \<or> (\<exists>m. e = DeriveDescriptorError m)"
  shows "only_grows (descriptor_result W r)"
  unfolding descriptor_result_def
  by (rule only_grows_basic(3)) (use assms in \<open>auto simp: map_err_def split: sum.splits\<close>)

lemma only_grows_derived_index: "only_grows (update (\<lambda>w. w\<lparr>derived_index := f w\<rparr>))"
  by (auto simp: only_grows_def update_run sound_def books_def grows_def)

lemma only_grows_derive_indexed: "only_grows (derive_indexed W start quantity scripts)"
  unfolding derive_indexed_def
  by (rule only_grows_for_each)
    (auto simp: Let_def split: prod.split intro!: only_grows_bind only_grows_derived_index only_grows_cache_address)

lemma only_grows_derive_range: "only_grows (derive_range W ds start quantity derived)"
proof (induction ds arbitrary: derived)
  case (Cons d ds)
  have "only_grows (derive_plain W scripts)" for scripts
    unfolding derive_plain_def by (rule only_grows_for_each) (rule only_grows_cache_address)
  moreover have "only_grows (descriptor_result W (has_wildcard (w_keys W) d))"
    by (rule only_grows_descriptor_result) (drule no_slip_error(1), blast)
  moreover have "only_grows (descriptor_result W (derive_addresses_from_descriptor (w_keys W) d i q))" for i q
    by (rule only_grows_descriptor_result) (rule no_slip_error(3))
  ultimately show ?case
    using Cons.IH only_grows_derive_indexed by (auto intro!: only_grows_bind only_grows_basic)
qed (simp add: only_grows_basic)

lemma on_db_read:
  "sound W dinv view w \<Longrightarrow> on_db (db_get_descriptors (w_db W)) w = (Inr (dv_descriptors (view (database w))), w)"
  "sound W dinv view w \<Longrightarrow> \<exists>st. on_db (db_get_stats (w_db W)) w = (Inr st, w)"
proof -
  assume s: "sound W dinv view w"
  show "on_db (db_get_descriptors (w_db W)) w = (Inr (dv_descriptors (view (database w))), w)"
    using get_descriptors_law [OF soundD(1) [OF s]] by (simp add: on_db_def)
  obtain r where "db_get_stats (w_db W) (database w) = (r, database w)" "ok_part r = dv_stats (view (database w))"
    using get_stats_law [OF soundD(1) [OF s]] by blast
  then show "\<exists>st. on_db (db_get_stats (w_db W)) w = (Inr st, w)"
    using soundD(4) [OF s] by (cases r) (simp_all add: on_db_def)
qed

lemma only_grows_reads: "only_grows (on_db (db_get_descriptors (w_db W)))" "only_grows (on_db (db_get_stats (w_db W)))"
  using on_db_read grows_refl by (fastforce simp: only_grows_def)+

lemma only_grows_save_stats: "only_grows (on_db (db_save_stats (w_db W) st))"
  unfolding only_grows_def
proof (intro allI impI)
  fix w assume s: "sound W dinv view w"
  obtain d where "db_save_stats (w_db W) st (database w) = (Inr (), d)" "dinv d" "view d = (view (database w))\<lparr>dv_stats := Some st\<rparr>"
    using save_stats_law [OF soundD(1) [OF s]] by blast
  with sound_database [OF s, of d] show "\<exists>r w'. on_db (db_save_stats (w_db W) st) w = (r, w') \<and> sound W dinv view w' \<and> grows view w w'
      \<and> (\<forall>e. r = Inl e \<longrightarrow> \<not> is_panic e)" by (simp add: on_db_def)
qed

lemma only_grows_derive_addresses: "only_grows (derive_addresses W)"
  unfolding derive_addresses_def
  by (intro only_grows_bind only_grows_reads only_grows_save_stats only_grows_derive_range)

lemma maybe_derive_run:
  assumes "sound W dinv view w"
  shows "\<exists>w'. maybe_derive_addresses W h w = (Inr (), w') \<and> sound W dinv view w' \<and> grows view w w'"
proof -
  obtain st where st: "on_db (db_get_stats (w_db W)) w = (Inr st, w)" using on_db_read(2) [OF assms] by blast
  obtain r w' where "derive_addresses W w = (r, w')" "sound W dinv view w'" "grows view w w'" "\<forall>e. r = Inl e \<longrightarrow> \<not> is_panic e"
    using only_growsE [OF only_grows_derive_addresses assms] by blast
  then have "\<exists>w'. log_error (derive_addresses W) w = (Inr (), w') \<and> sound W dinv view w' \<and> grows view w w'"
    by (cases r) (auto simp: log_error_def bindS_def attempt_run ret_run split: watch_only_error.splits)
  then show ?thesis
    using st assms grows_refl
    by (auto simp: maybe_derive_addresses_def gets_run expect_ok_def bindS_def attempt_run ret_run split: option.splits)
qed

text \<open>Saving a transaction leaves the owned coins as they are.\<close>

lemma coin_at_saved:
  assumes "agrees W view t w" and "utxo_index w op \<noteq> None" and "ct_tx ct = t"
  shows "coin_at ((dv_transactions (view (database w)))(compute_txid (w_lib W) t \<mapsto> ct)) op = coin_at (dv_transactions (view (database w))) op"
proof (cases "op_txid op = compute_txid (w_lib W) t")
  case True
  with assms obtain ct' where "dv_transactions (view (database w)) (compute_txid (w_lib W) t) = Some ct'" "tx_output (ct_tx ct') = tx_output t"
    by (auto simp: agrees_def saved_def)
  with True assms(3) show ?thesis by (simp add: coin_at_def)
qed (simp add: coin_at_def)

lemma owns_cong:
  assumes "\<And>op. op \<in> set (ca_utxos a) \<Longrightarrow> coin_at txs' op = coin_at txs op" and "\<And>op. op \<in> set (ca_utxos a) \<Longrightarrow> index' op = index op"
  shows "owns W txs' index' h a = owns W txs index h a"
proof -
  have "(\<Sum>op \<leftarrow> ca_utxos a. unat (value_sat (the (coin_at txs' op)))) = (\<Sum>op \<leftarrow> ca_utxos a. unat (value_sat (the (coin_at txs op))))"
    using assms(1) by (metis (mono_tags, lifting) map_eq_conv)
  then show ?thesis using assms by (auto simp: owns_def)
qed

lemma owns_frame: "owns W txs index h a \<Longrightarrow> op \<notin> set (ca_utxos a) \<Longrightarrow> owns W txs (index(op := x)) h a"
  by (auto simp: owns_def)

lemma save_transaction_run:
  assumes s: "sound W dinv view w" and ag: "agrees W view t w" and ct: "ct_tx ct = t" "ct_hash ct = compute_txid (w_lib W) t"
  shows "\<exists>w'. expect_ok msg (on_db (db_save_transaction (w_db W) ct)) w = (Inr (), w') \<and> sound W dinv view w' \<and> saved W view t w'
    \<and> owned view w' = owned view w \<and> address_map w' = address_map w \<and> script_set w' = script_set w \<and> utxo_index w' = utxo_index w"
proof -
  obtain d where d: "db_save_transaction (w_db W) ct (database w) = (Inr (), d)" "dinv d"
    "view d = (view (database w))\<lparr>dv_transactions := (dv_transactions (view (database w)))(ct_hash ct \<mapsto> ct)\<rparr>"
    using save_transaction_law [OF soundD(1) [OF s], of ct] ct by auto
  let ?w = "w\<lparr>database := d\<rparr>"
  have same: "coin_at (dv_transactions (view d)) op = coin_at (dv_transactions (view (database w))) op" if "utxo_index w op \<noteq> None" for op
    using coin_at_saved [OF ag that ct(1)] d(3) ct(2) by simp
  have "owns W (dv_transactions (view d)) (utxo_index w) h a" if "address_map w h = Some a" for h a
  proof -
    have "owns W (dv_transactions (view (database w))) (utxo_index w) h a" using soundD(6) [OF s that] .
    moreover from this have "utxo_index w op \<noteq> None" if "op \<in> set (ca_utxos a)" for op using that by (auto simp: owns_def)
    then have "coin_at (dv_transactions (view d)) op = coin_at (dv_transactions (view (database w))) op" if "op \<in> set (ca_utxos a)" for op
      using same that by blast
    ultimately show ?thesis using owns_cong [of a "dv_transactions (view d)" "dv_transactions (view (database w))" "utxo_index w" "utxo_index w"] by simp
  qed
  then have "sound W dinv view ?w" using s d(2,3) by (simp add: sound_def books_def)
  moreover have "owned view ?w = owned view w" using same by (auto simp: owned_def fun_eq_iff)
  moreover have "saved W view t ?w" using d(3) ct by (simp add: saved_def)
  ultimately show ?thesis using d(1) by (simp add: expect_ok_def bindS_def attempt_run on_db_def ret_run)
qed

text \<open>Recording the transaction of an address.\<close>

lemma record_tx_run:
  assumes s: "sound W dinv view w" and a: "address_map w h = Some a"
  shows "\<exists>w'. record_transaction W h ct a w = (Inr (), w') \<and> sound W dinv view w'
    \<and> owned view w' = owned view w \<and> utxo_index w' = utxo_index w \<and> script_set w' = script_set w
    \<and> dv_transactions (view (database w')) = dv_transactions (view (database w))
    \<and> (\<exists>xs. address_map w' = (address_map w)(h \<mapsto> a\<lparr>ca_transactions := xs\<rparr>))"
proof (cases "ct_hash ct \<in> set (ca_transactions a)")
  case True
  then show ?thesis using s a by (auto simp: record_transaction_def ret_run intro!: exI [of _ "ca_transactions a"])
next
  case False
  let ?a = "a\<lparr>ca_transactions := ca_transactions a @ [ct_hash ct]\<rparr>"
  have own: "owns W (dv_transactions (view (database w))) (utxo_index w) h a" by (rule soundD(6) [OF s a])
  then have h: "ca_script_hash ?a = h" by (simp add: owns_def)
  have "dv_addresses (view (database w)) (ca_script_hash ?a) \<noteq> None" unfolding h using soundD(3) [OF s] a by blast
  then obtain d where d: "db_update (w_db W) ?a (database w) = (Inr (), d)" "dinv d"
    "view d = (view (database w))\<lparr>dv_addresses := (dv_addresses (view (database w)))(h \<mapsto> ?a)\<rparr>"
    using update_law [OF soundD(1) [OF s], of ?a] h by auto
  let ?w = "w\<lparr>address_map := (address_map w)(h \<mapsto> ?a), database := d\<rparr>"
  have "owns W (dv_transactions (view (database w))) (utxo_index w) h ?a" using own by (simp add: owns_def)
  moreover have "op \<in> set (ca_utxos a)" if "utxo_index w op = Some h" for op using soundD(5) [OF s that] a by simp
  ultimately have "sound W dinv view ?w" using s d(2,3) a by (auto simp: sound_def books_def)
  moreover have "owned view ?w = owned view w" using d(3) by (simp add: owned_def fun_eq_iff)
  ultimately show ?thesis using False d(1,3)
    by (auto simp: record_transaction_def bindS_def update_run on_db_def Let_def intro!: exI [of _ "ca_transactions a @ [ct_hash ct]"])
qed

lemma receive_run:
  assumes s: "sound W dinv view w" and sv: "saved W view t w" and a: "address_map w h = Some a"
    and j: "j < length (tx_output t)" "length (tx_output t) < 2 ^ 32" and out: "get_spk_hash W (script_pubkey (tx_output t ! j)) = h"
    and new: "utxo_index w \<lparr>op_txid = compute_txid (w_lib W) t, op_vout = of_nat j\<rparr> = None"
    and rm: "room n w" and v: "unat (value_sat (tx_output t ! j)) \<le> n"
  shows "\<exists>w'. save_non_mempool_tx W t False (value_sat (tx_output t ! j)) j h ct w = (Inr (), w') \<and> sound W dinv view w' \<and> saved W view t w'
    \<and> script_set w' = script_set w \<and> room (n - unat (value_sat (tx_output t ! j))) w'
    \<and> owned view w' = (owned view w)(\<lparr>op_txid = compute_txid (w_lib W) t, op_vout = of_nat j\<rparr> \<mapsto> tx_output t ! j)"
proof -
  let ?op = "\<lparr>op_txid = compute_txid (w_lib W) t, op_vout = of_nat j\<rparr>" and ?out = "tx_output t ! j"
  let ?txs = "dv_transactions (view (database w))"
  let ?a = "a\<lparr>ca_utxos := ca_utxos a @ [?op], ca_balance := ca_balance a + value_sat ?out\<rparr>"
  let ?w = "w\<lparr>address_map := (address_map w)(h \<mapsto> ?a), utxo_index := (utxo_index w)(?op \<mapsto> h)\<rparr>"
  have own: "owns W ?txs (utxo_index w) h a" by (rule soundD(6) [OF s a])
  have coin: "coin_at ?txs ?op = Some ?out"
    using sv j by (auto simp: saved_def coin_at_def nth_opt_def unat_of_nat)
  have notin: "?op \<notin> set (ca_utxos b)" if "address_map w k = Some b" for k b
    using soundD(6) [OF s that] new by (auto simp: owns_def)
  have "unat (ca_balance a) + unat (value_sat ?out) < 2 ^ 64" using rm a v by (force simp: room_def)
  then have bal: "unat (ca_balance a + value_sat ?out) = unat (ca_balance a) + unat (value_sat ?out)"
    by (simp add: unat_word_ariths)
  have new_own: "owns W ?txs ((utxo_index w)(?op \<mapsto> h)) h ?a"
    using own coin out bal notin [OF a] by (auto simp: owns_def)
  have "owns W ?txs ((utxo_index w)(?op \<mapsto> h)) k b" if "address_map w k = Some b" for k b
    by (rule owns_frame [OF soundD(6) [OF s that] notin [OF that]])
  moreover have "\<exists>b. ((address_map w)(h \<mapsto> ?a)) k = Some b \<and> op \<in> set (ca_utxos b)" if "((utxo_index w)(?op \<mapsto> h)) op = Some k" for op k
    using that soundD(5) [OF s, of op k] a by (auto split: if_splits)
  ultimately have s1: "sound W dinv view ?w" using s new_own a by (auto simp: sound_def books_def)
  have o1: "owned view ?w = (owned view w)(?op \<mapsto> ?out)" using coin by (auto simp: owned_def fun_eq_iff)
  have rb: "unat (ca_balance ?a) + (n - unat (value_sat ?out)) < 2 ^ 64" using rm v bal a by (auto simp: room_def)
  have r1: "room (n - unat (value_sat ?out)) ?w" by (rule room_update [OF rm, of _ h ?a]) (use rb in simp_all)
  have "address_map ?w h = Some ?a" by simp
  from record_tx_run [OF s1 this] obtain w' xs where w': "record_transaction W h ct ?a ?w = (Inr (), w')" "sound W dinv view w'"
    "owned view w' = owned view ?w" "script_set w' = script_set ?w"
    "dv_transactions (view (database w')) = dv_transactions (view (database ?w))" "address_map w' = (address_map ?w)(h \<mapsto> ?a\<lparr>ca_transactions := xs\<rparr>)"
    by blast
  have "receive_coin W t (value_sat ?out) j h a w = (Inr ?a, ?w)"
    by (simp add: receive_coin_def bindS_def update_run ret_run Let_def)
  then have "save_non_mempool_tx W t False (value_sat ?out) j h ct w = (Inr (), w')"
    using w'(1) a by (simp add: save_non_mempool_tx_def bindS_gets bindS_ok)
  moreover have "room (n - unat (value_sat ?out)) w'"
    by (rule room_update [OF r1 w'(6)]) (use rb in simp_all)
  moreover have "saved W view t w'" using sv w'(5) by (simp add: saved_def)
  ultimately show ?thesis using w'(2-4) o1 by auto
qed

lemma spend_coin_run:
  assumes "value \<le> ca_balance a" and "i < length (tx_input t)" and "previous_output (tx_input t ! i) \<in> set (ca_utxos a)"
  shows "spend_coin t value i h a w =
    (let op = previous_output (tx_input t ! i); a' = a\<lparr>ca_balance := ca_balance a - value, ca_utxos := remove1 op (ca_utxos a)\<rparr> in
     (Inr a', w\<lparr>address_map := (address_map w)(h \<mapsto> a'), utxo_index := (utxo_index w)(op := None)\<rparr>))"
  using assms by (simp add: spend_coin_def bindS_def lift_run update_run expect_some_def ok_or_def nth_opt_def ret_run Let_def)

lemma spend_run:
  assumes s: "sound W dinv view w" and idx: "utxo_index w op = Some h" and coin: "coin_at (dv_transactions (view (database w))) op = Some out"
    and i: "i < length (tx_input t)" "previous_output (tx_input t ! i) = op" and rm: "room n w"
  shows "\<exists>w'. save_non_mempool_tx W t True (value_sat out) i h ct w = (Inr (), w') \<and> sound W dinv view w' \<and> saved W view u w' = saved W view u w
    \<and> script_set w' = script_set w \<and> room n w' \<and> owned view w' = (owned view w)(op := None)"
proof -
  let ?txs = "dv_transactions (view (database w))"
  obtain a where a: "address_map w h = Some a" and op: "op \<in> set (ca_utxos a)" using soundD(5) [OF s idx] by blast
  let ?a = "a\<lparr>ca_balance := ca_balance a - value_sat out, ca_utxos := remove1 op (ca_utxos a)\<rparr>"
  let ?w = "w\<lparr>address_map := (address_map w)(h \<mapsto> ?a), utxo_index := (utxo_index w)(op := None)\<rparr>"
  have own: "owns W ?txs (utxo_index w) h a" by (rule soundD(6) [OF s a])
  have sum: "unat (ca_balance a) = unat (value_sat out) + (\<Sum>op \<leftarrow> remove1 op (ca_utxos a). unat (value_sat (the (coin_at ?txs op))))"
    using own coin sum_list_map_remove1 [OF op, of "\<lambda>op. unat (value_sat (the (coin_at ?txs op)))"] by (simp add: owns_def)
  then have le: "value_sat out \<le> ca_balance a" by (simp add: word_le_nat_alt)
  then have bal: "unat (ca_balance a - value_sat out) = unat (ca_balance a) - unat (value_sat out)" by (rule unat_sub)
  have new_own: "owns W ?txs ((utxo_index w)(op := None)) h ?a"
    using own sum bal by (auto simp: owns_def set_remove1_eq)
  have notin: "op \<notin> set (ca_utxos b)" if "address_map w k = Some b" "k \<noteq> h" for k b
    using soundD(6) [OF s that(1)] idx that(2) by (auto simp: owns_def)
  have "owns W ?txs ((utxo_index w)(op := None)) k b" if "address_map w k = Some b" "k \<noteq> h" for k b
    by (rule owns_frame [OF soundD(6) [OF s that(1)] notin [OF that]])
  moreover have "\<exists>b. ((address_map w)(h \<mapsto> ?a)) k = Some b \<and> p \<in> set (ca_utxos b)" if "((utxo_index w)(op := None)) p = Some k" for p k
    using that soundD(5) [OF s, of p k] a own by (auto simp: owns_def set_remove1_eq split: if_splits)
  ultimately have s1: "sound W dinv view ?w" using s new_own a by (auto simp: sound_def books_def)
  have "unat (ca_balance a) + n < 2 ^ 64" using rm a by (auto simp: room_def)
  then have rb: "unat (ca_balance ?a) + n < 2 ^ 64" using bal by simp
  have r1: "room n ?w" by (rule room_update [OF rm, of _ h ?a]) (use rb in simp_all)
  have "address_map ?w h = Some ?a" by simp
  from record_tx_run [OF s1 this] obtain w' xs where w': "record_transaction W h ct ?a ?w = (Inr (), w')" "sound W dinv view w'"
    "owned view w' = owned view ?w" "script_set w' = script_set ?w"
    "dv_transactions (view (database w')) = dv_transactions (view (database ?w))" "address_map w' = (address_map ?w)(h \<mapsto> ?a\<lparr>ca_transactions := xs\<rparr>)"
    by blast
  have "spend_coin t (value_sat out) i h a w = (Inr ?a, ?w)"
    using spend_coin_run [OF le i(1)] op i(2) by (simp add: Let_def)
  then have "save_non_mempool_tx W t True (value_sat out) i h ct w = (Inr (), w')"
    using w'(1) a by (simp add: save_non_mempool_tx_def bindS_gets bindS_ok)
  moreover have "room n w'" by (rule room_update [OF r1 w'(6)]) (use rb in simp_all)
  moreover have "saved W view u w' = saved W view u w" using w'(5) by (simp add: saved_def)
  moreover have "owned view w' = (owned view w)(op := None)" using w'(3) by (auto simp: owned_def fun_eq_iff)
  ultimately show ?thesis using w'(2,4) by auto
qed

text \<open>What holds between two steps of the processing of a block.\<close>

definition in_step :: "hash set \<Rightarrow> (outpoint \<rightharpoonup> txout) \<Rightarrow> nat \<Rightarrow> 'd address_cache_inner \<Rightarrow> bool" where
  "in_step V M n w \<longleftrightarrow> sound W dinv view w \<and> tracks W view V M w \<and> room n w"

lemma owned_iff: "sound W dinv view w \<Longrightarrow> utxo_index w op \<noteq> None \<longleftrightarrow> owned view w op \<noteq> None"
proof -
  assume s: "sound W dinv view w"
  have "coin_at (dv_transactions (view (database w))) op \<noteq> None" if idx: "utxo_index w op = Some h" for h
  proof -
    obtain a where "address_map w h = Some a" "op \<in> set (ca_utxos a)" using soundD(5) [OF s idx] by blast
    then show ?thesis using soundD(6) [OF s] by (fastforce simp: owns_def)
  qed
  then show ?thesis by (auto simp: owned_def)
qed

lemma owned_watched:
  assumes s: "sound W dinv view w" and "owned view w op = Some out"
  shows "get_spk_hash W (script_pubkey out) \<in> script_set w"
proof -
  obtain h where h: "utxo_index w op = Some h" "coin_at (dv_transactions (view (database w))) op = Some out"
    using assms(2) by (auto simp: owned_def split: if_splits)
  obtain a where "address_map w h = Some a" "op \<in> set (ca_utxos a)" using soundD(5) [OF s h(1)] by blast
  then show ?thesis using soundD(2) [OF s] soundD(6) [OF s] h(2) by (fastforce simp: owns_def)
qed

text \<open>The common start of every cached transaction: it is saved, and addresses may be derived.\<close>

lemma cache_start_run:
  assumes "sound W dinv view w" and "agrees W view t w" and "address_map w h \<noteq> None"
    and ct: "ct = \<lparr>ct_tx = t, ct_height = height, ct_merkle_block = Some mb, ct_hash = compute_txid (w_lib W) t, ct_position = position\<rparr>"
  shows "\<exists>w1. sound W dinv view w1 \<and> saved W view t w1 \<and> owned view w1 = owned view w \<and> utxo_index w1 = utxo_index w
    \<and> script_set w \<subseteq> script_set w1 \<and> (\<forall>n. room n w \<longrightarrow> room n w1)
    \<and> (\<forall>k a. address_map w k = Some a \<longrightarrow> address_map w1 k = Some a)
    \<and> cache_transaction W t height value mb position i spend h w =
       (if height > 0 then save_non_mempool_tx W t spend value i h ct else save_mempool_tx W h ct) w1"
proof -
  obtain w0 where w0: "expect_ok ''Database not working'' (on_db (db_save_transaction (w_db W) ct)) w = (Inr (), w0)"
    "sound W dinv view w0" "saved W view t w0" "owned view w0 = owned view w" "address_map w0 = address_map w"
    "script_set w0 = script_set w" "utxo_index w0 = utxo_index w"
    using save_transaction_run [OF assms(1,2), of ct] ct by auto
  have follow: "follow_output W t i h w0 = (Inr (), w0)" using assms(3) w0(5) by (simp add: follow_output_def bindS_gets ret_run)
  obtain w1 where w1: "maybe_derive_addresses W h w0 = (Inr (), w1)" "sound W dinv view w1" "grows view w0 w1"
    using maybe_derive_run [OF w0(2)] by blast
  have "cache_transaction W t height value mb position i spend h w =
       (if height > 0 then save_non_mempool_tx W t spend value i h ct else save_mempool_tx W h ct) w1"
    using w0(1) follow w1(1) by (simp add: cache_transaction_def ct [symmetric] bindS_ok Let_def)
  moreover have "script_set w \<subseteq> script_set w1"
    using soundD(2) [OF w0(2)] soundD(2) [OF w1(2)] w0(6) w1(3) by (auto simp: grows_def)
  moreover have "room n w1" if "room n w" for n
    using grows_room [OF w1(3), of n] that w0(5) by (simp add: room_def)
  moreover have "saved W view t w1" using w0(3) by (simp add: grows_saved [OF w1(3)])
  moreover have "owned view w1 = owned view w" using grows_owned [OF w1(3)] w0(4) by simp
  ultimately show ?thesis using w1(2,3) w0(5,7) by (intro exI [of _ w1]) (simp add: grows_def)
qed

lemma cache_receive:
  assumes st: "in_step V M n w" and ag: "agrees W view t w" and j: "j < length (tx_output t)" "length (tx_output t) < 2 ^ 32"
    and h: "h = get_spk_hash W (script_pubkey (tx_output t ! j))" "h \<in> script_set w"
    and new: "M (new_coin W t j) = None" and v: "unat (value_sat (tx_output t ! j)) \<le> n" and height: "height > 0"
  shows "\<exists>w'. cache_transaction W t height (value_sat (tx_output t ! j)) mb position j False h w = (Inr (), w') \<and> saved W view t w'
    \<and> in_step V (M(new_coin W t j \<mapsto> tx_output t ! j)) (n - unat (value_sat (tx_output t ! j))) w' \<and> script_set w \<subseteq> script_set w'"
proof -
  let ?op = "new_coin W t j" and ?out = "tx_output t ! j"
  have s: "sound W dinv view w" and tr: "tracks W view V M w" and rm: "room n w" using st by (simp_all add: in_step_def)
  obtain a where a: "address_map w h = Some a" using soundD(2) [OF s] h(2) by auto
  define ct where "ct = \<lparr>ct_tx = t, ct_height = height, ct_merkle_block = Some mb, ct_hash = compute_txid (w_lib W) t, ct_position = position\<rparr>"
  from a have "address_map w h \<noteq> None" by simp
  from cache_start_run [OF s ag this ct_def, of "value_sat ?out" j False] obtain w1 where start: "sound W dinv view w1 \<and> saved W view t w1
      \<and> owned view w1 = owned view w \<and> utxo_index w1 = utxo_index w \<and> script_set w \<subseteq> script_set w1 \<and> (\<forall>n. room n w \<longrightarrow> room n w1)
      \<and> (\<forall>k a. address_map w k = Some a \<longrightarrow> address_map w1 k = Some a)
      \<and> cache_transaction W t height (value_sat ?out) mb position j False h w =
         (if height > 0 then save_non_mempool_tx W t False (value_sat ?out) j h ct else save_mempool_tx W h ct) w1" ..
  then have w1: "sound W dinv view w1" "saved W view t w1" "owned view w1 = owned view w" "utxo_index w1 = utxo_index w"
    "script_set w \<subseteq> script_set w1" "room n w1" "address_map w1 h = Some a" using rm a by simp_all
  have run: "cache_transaction W t height (value_sat ?out) mb position j False h w = save_non_mempool_tx W t False (value_sat ?out) j h ct w1"
    using start height by simp
  have "owned view w ?op = None" using tracks_sub [OF tr, of ?op] new by (cases "owned view w ?op") simp_all
  then have "utxo_index w1 ?op = None" using owned_iff [OF s, of ?op] w1(4) by simp
  from receive_run [OF w1(1,2,7) j h(1) [symmetric] this [unfolded new_coin_def] w1(6) v, of ct] obtain w' where
    w': "save_non_mempool_tx W t False (value_sat ?out) j h ct w1 = (Inr (), w')" "sound W dinv view w'" "saved W view t w'"
    "script_set w' = script_set w1" "room (n - unat (value_sat ?out)) w'" "owned view w' = (owned view w1)(?op \<mapsto> ?out)"
    by (auto simp: new_coin_def)
  have "tracks W view V (M(?op \<mapsto> ?out)) w'" 
    by (rule tracks_update [OF tr]) (use w'(4,6) w1(3,5) in simp_all)
  then show ?thesis using run w' w1(5) by (auto simp: in_step_def)
qed

lemma cache_spend:
  assumes st: "in_step V M n w" and ag: "agrees W view t w" and idx: "utxo_index w op = Some h"
    and coin: "coin_at (dv_transactions (view (database w))) op = Some out"
    and i: "i < length (tx_input t)" "previous_output (tx_input t ! i) = op" and height: "height > 0"
  shows "\<exists>w'. cache_transaction W t height (value_sat out) mb position i True h w = (Inr (), w') \<and> saved W view t w'
    \<and> in_step V (M(op := None)) n w'"
proof -
  have s: "sound W dinv view w" and tr: "tracks W view V M w" and rm: "room n w" using st by (simp_all add: in_step_def)
  obtain a where a: "address_map w h = Some a" using soundD(5) [OF s idx] by blast
  define ct where "ct = \<lparr>ct_tx = t, ct_height = height, ct_merkle_block = Some mb, ct_hash = compute_txid (w_lib W) t, ct_position = position\<rparr>"
  from a have "address_map w h \<noteq> None" by simp
  from cache_start_run [OF s ag this ct_def, of "value_sat out" i True] obtain w1 where start: "sound W dinv view w1 \<and> saved W view t w1
      \<and> owned view w1 = owned view w \<and> utxo_index w1 = utxo_index w \<and> script_set w \<subseteq> script_set w1 \<and> (\<forall>n. room n w \<longrightarrow> room n w1)
      \<and> (\<forall>k a. address_map w k = Some a \<longrightarrow> address_map w1 k = Some a)
      \<and> cache_transaction W t height (value_sat out) mb position i True h w =
         (if height > 0 then save_non_mempool_tx W t True (value_sat out) i h ct else save_mempool_tx W h ct) w1" ..
  then have w1: "sound W dinv view w1" "saved W view t w1" "owned view w1 = owned view w" "utxo_index w1 = utxo_index w"
    "script_set w \<subseteq> script_set w1" "room n w1" "address_map w1 h = Some a" using rm a by simp_all
  have run: "cache_transaction W t height (value_sat out) mb position i True h w = save_non_mempool_tx W t True (value_sat out) i h ct w1"
    using start height by simp
  have "owned view w1 op = Some out" using w1(3) idx coin by (simp add: owned_def)
  then have "coin_at (dv_transactions (view (database w1))) op = Some out" by (simp add: owned_def split: if_splits)
  moreover have "utxo_index w1 op = Some h" using w1(4) idx by simp
  ultimately obtain w' where w': "save_non_mempool_tx W t True (value_sat out) i h ct w1 = (Inr (), w')" "sound W dinv view w'"
    "saved W view t w' = saved W view t w1" "script_set w' = script_set w1" "room n w'" "owned view w' = (owned view w1)(op := None)"
    using spend_run [OF w1(1) _ _ i w1(6), of h out ct t] by blast
  have "tracks W view V (M(op := None)) w'" 
    by (rule tracks_update [OF tr]) (use w'(4,6) w1(3,5) in simp_all)
  then show ?thesis using run w' w1(2) by (auto simp: in_step_def)
qed

lemma get_transaction_run:
  assumes "sound W dinv view w"
  shows "get_transaction W x w = (Inr (dv_transactions (view (database w)) x), w)"
proof -
  obtain r where r: "db_get_transaction (w_db W) x (database w) = (r, database w)" "ok_part r = dv_transactions (view (database w)) x"
    using get_transaction_law [OF soundD(1) [OF assms]] by blast
  then show ?thesis by (cases r) (auto simp: get_transaction_def bindS_def attempt_run on_db_def ret_run)
qed

lemma input_run:
  assumes st: "in_step V M n w" and ag: "agrees W view t w" and i: "i < length (tx_input t)"
    and mb: "from_block (w_lib W) (w_branch W) b (of_nat position) = Some mb" and height: "height > 0"
  shows "\<exists>w'. process_block_input W b height position t (i, tx_input t ! i) w = (Inr (), w') \<and> agrees W view t w'
    \<and> in_step V (M(previous_output (tx_input t ! i) := None)) n w'"
proof -
  let ?op = "previous_output (tx_input t ! i)"
  have s: "sound W dinv view w" and tr: "tracks W view V M w" using st by (simp_all add: in_step_def)
  show ?thesis
  proof (cases "utxo_index w ?op")
    case None
    then have "owned view w = (owned view w)(?op := None)" by (auto simp: owned_def)
    then have "in_step V (M(?op := None)) n w" using st tracks_update [OF tr, of w ?op None] by (simp add: in_step_def)
    with None ag show ?thesis by (simp add: process_block_input_def bindS_gets ret_run Let_def)
  next
    case (Some h)
    obtain a where a: "address_map w h = Some a" "ca_script_hash a = h" using soundD(5) [OF s Some] soundD(6) [OF s] by (auto simp: owns_def)
    have "owned view w ?op \<noteq> None" using owned_iff [OF s, of ?op] Some by simp
    then obtain out where coin: "coin_at (dv_transactions (view (database w))) ?op = Some out" using Some by (auto simp: owned_def)
    then obtain ct where ct: "dv_transactions (view (database w)) (op_txid ?op) = Some ct" "nth_opt (tx_output (ct_tx ct)) (unat (op_vout ?op)) = Some out"
      by (auto simp: coin_at_def bind_eq_Some_conv)
    have "process_block_input W b height position t (i, tx_input t ! i) w =
        cache_transaction W t height (value_sat out) mb (of_nat position) i True h w"
      using Some a ct mb get_transaction_run [OF s, of "op_txid ?op"]
      by (simp add: process_block_input_def bindS_gets expect_some_def ok_or_def bindS_ok lift_run Let_def)
    then show ?thesis using cache_spend [OF st ag Some coin i refl height, of mb "of_nat position"] by (auto simp: agrees_def)
  qed
qed

lemma inputs_run:
  assumes "in_step V M n w" and "agrees W view t w" and "k + length ins = length (tx_input t)" and "ins = drop k (tx_input t)"
    and mb: "from_block (w_lib W) (w_branch W) b (of_nat position) = Some mb" and height: "height > 0"
  shows "\<exists>w'. for_each (List.enumerate k ins) (process_block_input W b height position t) w = (Inr (), w') \<and> agrees W view t w'
    \<and> in_step V (replay_inputs ins M) n w'"
  using assms(1-4)
proof (induction ins arbitrary: k M w)
  case Nil
  then show ?case by (simp add: ret_run replay_inputs_def)
next
  case (Cons x ins)
  have k: "k < length (tx_input t)" "x = tx_input t ! k" "ins = drop (Suc k) (tx_input t)"
    using Cons.prems(3) drop_Cons_split [OF Cons.prems(4) [symmetric]] by simp_all
  obtain u where u: "process_block_input W b height position t (k, x) w = (Inr (), u)" "agrees W view t u"
    "in_step V (M(previous_output x := None)) n u"
    using input_run [OF Cons.prems(1,2) k(1) mb height] k(2) by auto
  have "Suc k + length ins = length (tx_input t)" using Cons.prems(3) by simp
  from Cons.IH [OF u(3,2) this k(3)] u(1) show ?case by (auto simp: bindS_ok replay_Cons simp del: fun_upd_apply)
qed

lemma output_run:
  assumes st: "in_step V M n w" and ag: "agrees W view t w" and j: "j < length (tx_output t)" "length (tx_output t) < 2 ^ 32"
    and new: "M (new_coin W t j) = None" and v: "unat (value_sat (tx_output t ! j)) \<le> n"
    and mb: "from_block (w_lib W) (w_branch W) b (of_nat position) = Some mb" and height: "height > 0"
  shows "\<exists>mine w'. process_block_output W b height position t (j, tx_output t ! j) w = (Inr mine, w') \<and> agrees W view t w'
    \<and> in_step V (M(new_coin W t j \<mapsto> tx_output t ! j)) (n - unat (value_sat (tx_output t ! j))) w'"
proof (cases "get_spk_hash W (script_pubkey (tx_output t ! j)) \<in> script_set w")
  case True
  from cache_receive [OF st ag j refl True new v height, of mb "of_nat position"] True mb show ?thesis
    by (auto simp: process_block_output_def bindS_gets expect_some_def ok_or_def bindS_ok lift_run ret_run agrees_def Let_def)
next
  case False
  have tr: "tracks W view V M w" and rm: "room n w" using st by (simp_all add: in_step_def)
  have "tracks W view V (M(new_coin W t j \<mapsto> tx_output t ! j)) w"
    unfolding tracks_def
  proof (intro conjI allI impI)
    show sub: "V \<subseteq> script_set w" using tr by (simp add: tracks_def)
    fix op out
    show "(M(new_coin W t j \<mapsto> tx_output t ! j)) op = Some out" if "owned view w op = Some out"
      using tracks_sub [OF tr that] new by auto
    show "owned view w op = Some out" if "(M(new_coin W t j \<mapsto> tx_output t ! j)) op = Some out" "get_spk_hash W (script_pubkey out) \<in> V"
      using that sub False tracks_sup [OF tr, of op out] by (cases "op = new_coin W t j") auto
  qed
  moreover have "room (n - unat (value_sat (tx_output t ! j))) w" by (rule room_less [OF rm]) simp
  ultimately show ?thesis using False ag st
    by (simp add: process_block_output_def bindS_gets ret_run in_step_def Let_def)
qed

lemma outputs_run:
  assumes "in_step V M n w" and "agrees W view t w" and "k + length outs = length (tx_output t)" and "outs = drop k (tx_output t)"
    and "\<And>j. k \<le> j \<Longrightarrow> j < length (tx_output t) \<Longrightarrow> M (new_coin W t j) = None" and "outputs_value outs \<le> n"
    and len: "length (tx_output t) < 2 ^ 32"
    and mb: "from_block (w_lib W) (w_branch W) b (of_nat position) = Some mb" and height: "height > 0"
  shows "\<exists>mine w'. process_block_outputs W b height position t (List.enumerate k outs) w = (Inr mine, w')
    \<and> in_step V (replay_outputs W t (List.enumerate k outs) M) (n - outputs_value outs) w'"
  using assms(1-6)
proof (induction outs arbitrary: k M n w)
  case Nil
  then show ?case by (simp add: ret_run replay_outputs_def outputs_value_def)
next
  case (Cons x outs)
  have k: "k < length (tx_output t)" "x = tx_output t ! k" "outs = drop (Suc k) (tx_output t)"
    using Cons.prems(3) drop_Cons_split [OF Cons.prems(4) [symmetric]] by simp_all
  have v: "unat (value_sat x) \<le> n" "outputs_value outs \<le> n - unat (value_sat x)"
    "n - unat (value_sat x) - outputs_value outs = n - outputs_value (x # outs)"
    using Cons.prems(6) by (simp_all add: outputs_value_def)
  obtain mine u where u: "process_block_output W b height position t (k, x) w = (Inr mine, u)" "agrees W view t u"
    "in_step V (M(new_coin W t k \<mapsto> x)) (n - unat (value_sat x)) u"
    using output_run [OF Cons.prems(1,2) k(1) len Cons.prems(5) [OF le_refl k(1)] _ mb height] k(2) v(1) by auto
  have "(M(new_coin W t k \<mapsto> x)) (new_coin W t j) = None" if "Suc k \<le> j" "j < length (tx_output t)" for j
    using Cons.prems(5) [of j] that new_coin_inj [of j k W t] len by simp
  moreover have "Suc k + length outs = length (tx_output t)" using Cons.prems(3) by simp
  ultimately obtain more w' where
    "process_block_outputs W b height position t (List.enumerate (Suc k) outs) u = (Inr more, w')"
    "in_step V (replay_outputs W t (List.enumerate (Suc k) outs) (M(new_coin W t k \<mapsto> x))) (n - outputs_value (x # outs)) w'"
    using Cons.IH [OF u(3,2) _ k(3) _ v(2)] unfolding v(3) by blast
  with u(1) show ?case by (auto simp: bindS_ok ret_run replay_Cons simp del: fun_upd_apply)
qed

lemma fresh_agrees:
  assumes "in_step V M n w" and "\<And>op. op_txid op = compute_txid (w_lib W) t \<Longrightarrow> M op = None"
  shows "agrees W view t w"
proof -
  have s: "sound W dinv view w" and tr: "tracks W view V M w" using assms(1) by (simp_all add: in_step_def)
  have "utxo_index w op = None" if "op_txid op = compute_txid (w_lib W) t" for op
    using assms(2) [OF that] tracks_sub [OF tr, of op] owned_iff [OF s, of op] by (cases "owned view w op") simp_all
  then show ?thesis by (auto simp: agrees_def)
qed

lemma txs_run:
  assumes "in_step V M n w" and "distinct (map (compute_txid (w_lib W)) txs)"
    and "\<And>op. op_txid op \<in> set (map (compute_txid (w_lib W)) txs) \<Longrightarrow> M op = None"
    and "\<forall>t \<in> set txs. length (tx_output t) < 2 ^ 32" and "(\<Sum>t \<leftarrow> txs. outputs_value (tx_output t)) \<le> n"
    and "k + length txs = length (txdata b)"
    and mb: "\<And>p. p < length (txdata b) \<Longrightarrow> from_block (w_lib W) (w_branch W) b (of_nat p) \<noteq> None" and height: "height > 0"
  shows "\<exists>mine w'. block_process_loop W b height (List.enumerate k txs) w = (Inr mine, w')
    \<and> in_step V (fold (replay_tx W) txs M) (n - (\<Sum>t \<leftarrow> txs. outputs_value (tx_output t))) w'"
  using assms(1-6)
proof (induction txs arbitrary: k M n w)
  case Nil
  then show ?case by (simp add: ret_run)
next
  case (Cons t txs)
  let ?v = "outputs_value (tx_output t)" and ?rest = "\<Sum>t \<leftarrow> txs. outputs_value (tx_output t)"
  obtain m where m: "from_block (w_lib W) (w_branch W) b (of_nat k) = Some m" using mb [of k] Cons.prems(6) by auto
  have ag: "agrees W view t w" by (rule fresh_agrees [OF Cons.prems(1)]) (simp add: Cons.prems(3))
  obtain u where u: "for_each (List.enumerate 0 (tx_input t)) (process_block_input W b height k t) w = (Inr (), u)" "agrees W view t u"
    "in_step V (replay_inputs (tx_input t) M) n u"
    using inputs_run [OF Cons.prems(1) ag, of 0 "tx_input t", OF _ _ m height] by auto
  have "replay_inputs (tx_input t) M (new_coin W t j) = None" for j
    by (rule replay_inputs_None) (simp add: Cons.prems(3) new_coin_def)
  then obtain mine x where x: "process_block_outputs W b height k t (List.enumerate 0 (tx_output t)) u = (Inr mine, x)"
    "in_step V (replay_tx W t M) (n - ?v) x"
    using outputs_run [OF u(3,2), of 0 "tx_output t", OF _ _ _ _ _ m height] Cons.prems(4,5) by (auto simp: replay_tx_def)
  have "replay_tx W t M op = None" if "op_txid op \<in> set (map (compute_txid (w_lib W)) txs)" for op
    by (rule replay_tx_other) (use that Cons.prems(2,3) in auto)
  moreover have "?rest \<le> n - ?v" "Suc k + length txs = length (txdata b)" using Cons.prems(5,6) by simp_all
  ultimately obtain more w' where "block_process_loop W b height (List.enumerate (Suc k) txs) x = (Inr more, w')"
    "in_step V (fold (replay_tx W) txs (replay_tx W t M)) (n - ?v - ?rest) w'"
    using Cons.IH [OF x(2), of "Suc k"] Cons.prems(2,4) by auto
  with u(1) x(1) show ?case by (auto simp: bindS_ok ret_run)
qed

lemma block_processed:
  assumes s: "sound W dinv view w" and p: "processable W view b height w"
  shows "\<exists>mine w'. block_process W b height w = (Inr mine, w') \<and> sound W dinv view w'
    \<and> tracks W view (script_set w) (replay_block W b (owned view w)) w'"
proof -
  have "in_step (script_set w) (owned view w) (block_value b) w"
    using s p by (simp add: in_step_def tracks_def processable_def)
  moreover have "owned view w op = None" if "op_txid op \<in> set (map (compute_txid (w_lib W)) (txdata b))" for op
    using p that by (auto simp: processable_def owned_def)
  moreover have "from_block (w_lib W) (w_branch W) b (of_nat i) \<noteq> None" if "i < length (txdata b)" for i
    using p that by (auto simp: processable_def from_block_def from_block_hashes_def unat_of_nat split: option.splits)
  ultimately show ?thesis
    using txs_run [of "script_set w" "owned view w" "block_value b" w "txdata b" 0 b height] p
    by (auto simp: processable_def block_process_def block_value_def replay_block_def in_step_def)
qed

text \<open>An unconfirmed transaction changes no coin.\<close>

definition keeps :: "'d address_cache_inner \<Rightarrow> 'd address_cache_inner \<Rightarrow> bool" where
  "keeps w w' \<longleftrightarrow> sound W dinv view w' \<and> owned view w' = owned view w \<and> utxo_index w' = utxo_index w \<and> script_set w \<subseteq> script_set w'"

lemma keeps_trans: "keeps u v \<Longrightarrow> keeps v w \<Longrightarrow> keeps u w"
  by (auto simp: keeps_def)

lemma save_mempool_run:
  assumes "sound W dinv view w" and "address_map w h = Some a"
  shows "\<exists>w'. save_mempool_tx W h ct w = (Inr (), w') \<and> keeps w w' \<and> saved W view u w' = saved W view u w"
  using record_tx_run [OF assms, of ct] assms(2) by (auto simp: save_mempool_tx_def bindS_gets keeps_def saved_def)

lemma mempool_coin_run:
  assumes s: "sound W dinv view w" and ag: "agrees W view t w" and h: "get_spk_hash W (script_pubkey out) \<in> script_set w"
  shows "\<exists>w'. cache_mempool_coin W t (idx, out) w = (Inr (), w') \<and> keeps w w' \<and> agrees W view t w'"
proof -
  let ?h = "get_spk_hash W (script_pubkey out)"
  obtain a where a: "address_map w ?h = Some a" "ca_script_hash a = ?h"
    using soundD(2) [OF s] h soundD(6) [OF s] by (auto simp: owns_def)
  define ct where "ct = \<lparr>ct_tx = t, ct_height = 0, ct_merkle_block = Some merkle_proof_new, ct_hash = compute_txid (w_lib W) t, ct_position = 0\<rparr>"
  from a have "address_map w ?h \<noteq> None" by simp
  from cache_start_run [OF s ag this ct_def, of "value_sat out" idx True] obtain w1 where w1: "sound W dinv view w1" "saved W view t w1"
    "owned view w1 = owned view w" "utxo_index w1 = utxo_index w" "script_set w \<subseteq> script_set w1"
    "\<forall>k a. address_map w k = Some a \<longrightarrow> address_map w1 k = Some a"
    "cache_transaction W t 0 (value_sat out) merkle_proof_new 0 idx True ?h w = save_mempool_tx W ?h ct w1" by auto
  moreover from this a obtain w' where "save_mempool_tx W ?h ct w1 = (Inr (), w')" "keeps w1 w'" "saved W view t w'"
    using save_mempool_run [OF w1(1), of ?h a ct t] by auto
  ultimately show ?thesis
    using a by (auto simp: cache_mempool_coin_def bindS_gets expect_some_def ok_or_def bindS_ok lift_run keeps_def agrees_def)
qed

lemma mempool_coins_run:
  assumes "sound W dinv view w" and "agrees W view t w" and "\<forall>(idx, out) \<in> set coins. get_spk_hash W (script_pubkey out) \<in> script_set w"
  shows "\<exists>w'. for_each coins (cache_mempool_coin W t) w = (Inr (), w') \<and> keeps w w' \<and> agrees W view t w'"
  using assms
proof (induction coins arbitrary: w)
  case Nil
  then show ?case by (simp add: ret_run keeps_def)
next
  case (Cons c coins)
  obtain idx out where c: "c = (idx, out)" by (cases c)
  obtain u where u: "cache_mempool_coin W t c w = (Inr (), u)" "keeps w u" "agrees W view t u"
    using mempool_coin_run [OF Cons.prems(1,2), of out idx] Cons.prems(3) c by auto
  have "\<forall>(idx, out) \<in> set coins. get_spk_hash W (script_pubkey out) \<in> script_set u" using Cons.prems(3) u(2) by (auto simp: keeps_def)
  then obtain w' where w': "for_each coins (cache_mempool_coin W t) u = (Inr (), w')" "keeps u w'" "agrees W view t w'"
    using Cons.IH [of u] u(2,3) by (auto simp: keeps_def)
  with u keeps_trans [OF u(2) w'(2)] show ?case by (auto simp: bindS_ok)
qed

lemma mempool_outputs_run:
  assumes "sound W dinv view w" and "agrees W view t w"
  shows "\<exists>cs w'. cache_mempool_outputs W t outs coins w = (Inr cs, w') \<and> keeps w w'"
  using assms
proof (induction outs arbitrary: w coins)
  case Nil
  then show ?case by (simp add: ret_run keeps_def)
next
  case (Cons c outs)
  obtain idx out where c: "c = (idx, out)" by (cases c)
  show ?case
  proof (cases "get_spk_hash W (script_pubkey out) \<in> script_set w")
    case True
    obtain u where u: "cache_mempool_coin W t c w = (Inr (), u)" "keeps w u" "agrees W view t u"
      using mempool_coin_run [OF Cons.prems True, of idx] c by auto
    then obtain cs w' where w': "cache_mempool_outputs W t outs (coins @ [c]) u = (Inr cs, w')" "keeps u w'"
      using Cons.IH [of u "coins @ [c]"] by (auto simp: keeps_def)
    with u(1) keeps_trans [OF u(2) w'(2)] True c show ?thesis by (auto simp: bindS_gets bindS_ok)
  next
    case False
    then show ?thesis using Cons.IH [OF Cons.prems] c by (simp add: bindS_gets)
  qed
qed

lemma find_spend_run:
  assumes s: "sound W dinv view w" and "\<forall>(idx, out) \<in> set spends. get_spk_hash W (script_pubkey out) \<in> script_set w"
  shows "\<exists>cs. find_spend_loop W ins spends w = (Inr cs, w) \<and> (\<forall>(idx, out) \<in> set cs. get_spk_hash W (script_pubkey out) \<in> script_set w)"
  using assms(2)
proof (induction ins arbitrary: spends)
  case Nil
  then show ?case by (simp add: ret_run)
next
  case (Cons c ins)
  obtain idx i where c: "c = (idx, i)" by (cases c)
  let ?op = "previous_output i"
  show ?case
  proof (cases "utxo_index w ?op")
    case None
    then show ?thesis using Cons c by (simp add: bindS_gets)
  next
    case (Some h)
    obtain a where a: "address_map w h = Some a" "?op \<in> set (ca_utxos a)" using soundD(5) [OF s Some] by blast
    then obtain out where out: "coin_at (dv_transactions (view (database w))) ?op = Some out" "get_spk_hash W (script_pubkey out) = h"
      using soundD(6) [OF s a(1)] by (auto simp: owns_def)
    then obtain ct where ct: "dv_transactions (view (database w)) (op_txid ?op) = Some ct" "nth_opt (tx_output (ct_tx ct)) (unat (op_vout ?op)) = Some out"
      by (auto simp: coin_at_def bind_eq_Some_conv)
    have "h \<in> script_set w" using soundD(2) [OF s] a(1) by auto
    then have "\<forall>(idx, out) \<in> set (spends @ [(idx, out)]). get_spk_hash W (script_pubkey out) \<in> script_set w" using Cons.prems out(2) by auto
    from Cons.IH [OF this] show ?thesis
      using Some c ct get_transaction_run [OF s, of "op_txid ?op"]
      by (simp add: bindS_gets expect_some_def ok_or_def bindS_ok lift_run)
  qed
qed

lemma mempool_run:
  assumes "sound W dinv view w" and "agrees W view t w"
  shows "\<exists>outs w'. cache_mempool_transaction W t w = (Inr outs, w') \<and> keeps w w'"
proof -
  obtain cs where cs: "find_spend W t w = (Inr cs, w)" "\<forall>(idx, out) \<in> set cs. get_spk_hash W (script_pubkey out) \<in> script_set w"
    using find_spend_run [OF assms(1), of "[]"] by (auto simp: find_spend_def)
  obtain u where u: "for_each cs (cache_mempool_coin W t) w = (Inr (), u)" "keeps w u" "agrees W view t u"
    using mempool_coins_run [OF assms cs(2)] by blast
  obtain ds w' where w': "cache_mempool_outputs W t (List.enumerate 0 (tx_output t)) cs u = (Inr ds, w')" "keeps u w'"
    using mempool_outputs_run [OF _ u(3)] u(2) unfolding keeps_def by blast
  show ?thesis using cs(1) u(1) w' keeps_trans [OF u(2) w'(2)] by (auto simp: cache_mempool_transaction_def bindS_ok ret_run)
qed

text \<open>Descriptors.\<close>

lemma only_grows_save_descriptor: "only_grows (on_db (db_save_descriptor (w_db W) d))"
  unfolding only_grows_def
proof (intro allI impI)
  fix w assume s: "sound W dinv view w"
  obtain x where "db_save_descriptor (w_db W) d (database w) = (Inr (), x)" "dinv x"
    "view x = (view (database w))\<lparr>dv_descriptors := dv_descriptors (view (database w)) @ [d]\<rparr>"
    using save_descriptor_law [OF soundD(1) [OF s]] by blast
  with sound_database [OF s, of x] soundD(4) [OF s] show "\<exists>r w'. on_db (db_save_descriptor (w_db W) d) w = (r, w') \<and> sound W dinv view w'
      \<and> grows view w w' \<and> (\<forall>e. r = Inl e \<longrightarrow> \<not> is_panic e)" by (simp add: on_db_def)
qed

lemma only_grows_push_descriptor: "only_grows (push_descriptor W d)"
  unfolding push_descriptor_def is_cached_def Let_def
  by (intro only_grows_bind only_grows_reads only_grows_save_stats only_grows_derive_range only_grows_save_descriptor only_grows_basic)
    (auto simp: reject_if_def split: if_splits)

end

section \<open>The two databases\<close>

definition mem_ready :: "(memory_database, 'x, 'k) wallet_env \<Rightarrow> cached_address keys_of \<Rightarrow> cached_transaction keys_of \<Rightarrow> memory_database \<Rightarrow> bool" where
  "mem_ready W ks kt d \<longleftrightarrow> w_db W = memory_db ks kt \<and> md_inv ks kt d"

definition kv_ready :: "(kv_database, 'x, 'k) wallet_env \<Rightarrow> kv_codecs \<Rightarrow> kv_database \<Rightarrow> bool" where
  "kv_ready W C d \<longleftrightarrow> w_db W = kv_db C \<and> kv_compute_txid C = compute_txid (w_lib W) \<and> kv_inv C d"

interpretation mem: wallet_store W "mem_ready W ks kt" md_view
  using md.save_law md.update_law md.load_law md.get_transaction_law md.save_transaction_law md.list_transactions_law
    md.get_stats_law md.save_stats_law md.get_descriptors_law md.save_descriptor_law md.get_cache_height_law md.set_cache_height_law
  by unfold_locales (simp_all add: mem_ready_def)

interpretation kvs: wallet_store W "kv_ready W C" "kv_view C"
proof unfold_locales
  fix d and t :: cached_transaction assume "kv_ready W C d" "ct_hash t = compute_txid (w_lib W) (ct_tx t)"
  then show "\<exists>d'. db_save_transaction (w_db W) t d = (Inr (), d') \<and> kv_ready W C d'
      \<and> kv_view C d' = (kv_view C d)\<lparr>dv_transactions := (dv_transactions (kv_view C d))(ct_hash t \<mapsto> t)\<rparr>"
    using kv.save_transaction_law [of C d t] by (simp add: kv_ready_def)
qed (use kv.save_law kv.update_law kv.load_law kv.get_transaction_law kv.list_transactions_law kv.get_stats_law kv.save_stats_law
    kv.get_descriptors_law kv.save_descriptor_law kv.get_cache_height_law kv.set_cache_height_law in \<open>simp_all add: kv_ready_def\<close>)

section \<open>Reachable wallets\<close>

text \<open>A wallet on a new database, and the operations that change it. A confirmed block is processable, and an
  unconfirmed transaction that has the id of an owned coin is the known one. An operation that returns an
  error keeps the changes it made.\<close>

inductive wallet_reach :: "(memory_database, 'x, 'k) wallet_env \<Rightarrow> memory_database address_cache_inner \<Rightarrow> bool" for W where
  start: "address_cache_new W (opened memory_database_new) = (Inr (), w) \<Longrightarrow> wallet_reach W w"
| address: "wallet_reach W w \<Longrightarrow> cache_address W s w = (r, w') \<Longrightarrow> wallet_reach W w'"
| descriptor: "wallet_reach W w \<Longrightarrow> push_descriptor W d w = (r, w') \<Longrightarrow> wallet_reach W w'"
| derive: "wallet_reach W w \<Longrightarrow> derive_addresses W w = (r, w') \<Longrightarrow> wallet_reach W w'"
| mempool: "wallet_reach W w \<Longrightarrow> agrees W md_view t w \<Longrightarrow> cache_mempool_transaction W t w = (r, w') \<Longrightarrow> wallet_reach W w'"
| block: "wallet_reach W w \<Longrightarrow> processable W md_view b height w \<Longrightarrow> block_process W b height w = (r, w') \<Longrightarrow> wallet_reach W w'"

lemma new_wallet:
  assumes "w_db W = memory_db ks kt" and "visits_keys ks" and "visits_keys kt"
  shows "address_cache_new W (opened memory_database_new) = (Inr (), opened memory_database_new)"
    and "sound W (mem_ready W ks kt) md_view (opened memory_database_new)"
proof -
  have "ks Map.empty = []" using assms(2) unfolding visits_keys_def by (metis dom_empty finite.emptyI set_empty)
  then have "db_load (w_db W) memory_database_new = (Inr [], memory_database_new)"
    "db_get_stats (w_db W) memory_database_new = (Inr stats_default, memory_database_new)"
    "db_get_descriptors (w_db W) memory_database_new = (Inr [], memory_database_new)"
    by (simp_all add: assms(1) md_ops memory_database_new_def map_filter_simps)
  then show "address_cache_new W (opened memory_database_new) = (Inr (), opened memory_database_new)"
    by (simp add: address_cache_new_def restore_descriptors_def expect_ok_def on_db_def bindS_def attempt_run ret_run update_run opened_def)
  show "sound W (mem_ready W ks kt) md_view (opened memory_database_new)"
    using assms by (simp add: sound_def books_def mem_ready_def md_inv_def opened_def md_view_def memory_database_new_def)
qed

lemma reach_sound:
  assumes "wallet_reach W w" and "w_db W = memory_db ks kt" and "visits_keys ks" and "visits_keys kt"
  shows "sound W (mem_ready W ks kt) md_view w"
  using assms(1)
proof induction
  case (start w)
  with new_wallet [OF assms(2-4)] show ?case by simp
next
  case (address w s r w')
  from mem.only_growsE [OF mem.only_grows_cache_address address.IH, of s] address.hyps(2) show ?case by auto
next
  case (descriptor w d r w')
  from mem.only_growsE [OF mem.only_grows_push_descriptor descriptor.IH, of d] descriptor.hyps(2) show ?case by auto
next
  case (derive w r w')
  from mem.only_growsE [OF mem.only_grows_derive_addresses derive.IH] derive.hyps(2) show ?case by auto
next
  case (mempool w t r w')
  from mem.mempool_run [OF mempool.IH mempool.hyps(2)] mempool.hyps(3) show ?case by (auto simp: mem.keeps_def)
next
  case (block w b height r w')
  from mem.block_processed [OF block.IH block.hyps(2)] block.hyps(3) show ?case by auto
qed

lemma payment_run:
  assumes "address_map w h = Some a" and "ct_hash ct \<in> set (ca_transactions a)"
  shows "save_non_mempool_tx W t False value j h ct w = (Inr (), w\<lparr>
    address_map := (address_map w)(h \<mapsto> a\<lparr>ca_utxos := ca_utxos a @ [new_coin W t j], ca_balance := ca_balance a + value\<rparr>),
    utxo_index := (utxo_index w)(new_coin W t j \<mapsto> h)\<rparr>)"
  using assms
  by (simp add: save_non_mempool_tx_def bindS_gets receive_coin_def record_transaction_def new_coin_def Let_def)
    (simp add: bindS_def update_run ret_run record_transaction_def)

section \<open>A concrete wallet\<close>

definition demo_keys :: "'v keys_of" where
  "demo_keys m = sorted_list_of_set (dom m)"

definition demo_key_api :: "(unit, unit) key_api" where
  "demo_key_api = \<lparr>base58_decode_check = (\<lambda>_. Inr []), xpub_decode = (\<lambda>_. Inr ()), xpub_text = (\<lambda>_. []),
     desc_from_str = (\<lambda>_. Inr ()), desc_text = (\<lambda>_. []), desc_sanity_check = (\<lambda>_. Inr ()), desc_into_single = (\<lambda>_. Inr [()]),
     desc_has_wildcard = (\<lambda>_. False), desc_script_at = (\<lambda>_ _. Inr [1])\<rparr>"

definition demo_wallet :: "(memory_database, unit, unit) wallet_env" where
  "demo_wallet = \<lparr>w_sha256 = id, w_lib = demo_api, w_branch = (\<lambda>ls i. if i < length ls then Some [] else None), w_keys = demo_key_api,
     w_key_error_text = (\<lambda>_. []), w_db = memory_db demo_keys demo_keys, w_address_order = demo_keys\<rparr>"

definition payment :: transaction where
  "payment = \<lparr>tx_version = 2, lock_time = Blocks 0, tx_input = [], tx_output = [\<lparr>value_sat = 50, script_pubkey = [1]\<rparr>]\<rparr>"

definition payment_block :: block where
  "payment_block = \<lparr>blk_header = \<lparr>hdr_version = 1, prev_blockhash = all_zeros, merkle_root = all_zeros, hdr_time = 0, hdr_bits = 0, hdr_nonce = 0\<rparr>,
     txdata = [payment]\<rparr>"

definition watched_address :: cached_address where
  "watched_address = \<lparr>ca_script_hash = [1], ca_balance = 0, ca_script = [1], ca_transactions = [], ca_utxos = []\<rparr>"

definition demo_watching :: "memory_database address_cache_inner" where
  "demo_watching = \<lparr>database = memory_database_new\<lparr>md_addresses := [[1] \<mapsto> watched_address]\<rparr>, address_map = [[1] \<mapsto> watched_address],
     script_set = {[1]}, utxo_index = Map.empty, derived_index = Map.empty\<rparr>"

lemma demo_wallet_ready: "w_db demo_wallet = memory_db demo_keys demo_keys" "visits_keys demo_keys"
  by (simp_all add: demo_wallet_def visits_keys_def demo_keys_def)

lemma demo_watching_run: "cache_address demo_wallet [1] (opened memory_database_new) = (Inr (), demo_watching)"
  by (simp add: cache_address_def bindS_def gets_run on_db_def update_run demo_wallet_def md_ops get_spk_hash_def opened_def
      memory_database_new_def demo_watching_def watched_address_def Let_def)

lemma demo_watching_reached: "wallet_reach demo_wallet demo_watching"
  using wallet_reach.address [OF wallet_reach.start [OF new_wallet(1) [OF demo_wallet_ready demo_wallet_ready(2)]] demo_watching_run] .

lemma demo_processable: "processable demo_wallet md_view payment_block 1 demo_watching"
  by (simp add: processable_def demo_watching_def demo_wallet_def payment_block_def payment_def room_def block_value_def outputs_value_def
      watched_address_def)

section \<open>Properties\<close>



text \<open>C26. Processing a block replays it on the coins of the wallet: every coin afterwards is a coin of the replayed
  map and pays a watched script, and every coin of the replayed map that pays a script watched before the
  block is a coin of the wallet. Scripts watched in between are those derived while the block is processed.\<close>

theorem block_process_replays:
  assumes "wallet_reach W w" and "w_db W = memory_db ks kt" and "visits_keys ks" and "visits_keys kt"
    and "processable W md_view b height w"
  shows "\<exists>mine w'. block_process W b height w = (Inr mine, w') \<and> script_set w \<subseteq> script_set w'
    \<and> (\<forall>op out. owned md_view w' op = Some out \<longrightarrow> replay_block W b (owned md_view w) op = Some out
        \<and> get_spk_hash W (script_pubkey out) \<in> script_set w')
    \<and> (\<forall>op out. replay_block W b (owned md_view w) op = Some out \<longrightarrow> get_spk_hash W (script_pubkey out) \<in> script_set w
        \<longrightarrow> owned md_view w' op = Some out)"
proof -
  have s: "sound W (mem_ready W ks kt) md_view w" by (rule reach_sound [OF assms(1-4)])
  obtain mine w' where w': "block_process W b height w = (Inr mine, w')" "sound W (mem_ready W ks kt) md_view w'"
    "tracks W md_view (script_set w) (replay_block W b (owned md_view w)) w'"
    using mem.block_processed [OF s assms(5)] by blast
  have "get_spk_hash W (script_pubkey out) \<in> script_set w'" if "owned md_view w' op = Some out" for op out
    using mem.owned_watched [OF w'(2) that] .
  with w'(1,3) show ?thesis unfolding tracks_def by blast
qed

theorem block_process_replays_witness:
  "\<exists>mine w'. block_process demo_wallet payment_block 1 demo_watching = (Inr mine, w')
     \<and> owned md_view w' (new_coin demo_wallet payment 0) = Some \<lparr>value_sat = 50, script_pubkey = [1]\<rparr>"
proof -
  have coin: "replay_block demo_wallet payment_block (owned md_view demo_watching) (new_coin demo_wallet payment 0)
      = Some \<lparr>value_sat = 50, script_pubkey = [1]\<rparr>"
    by (simp add: replay_block_def payment_block_def replay_tx_def replay_outputs_def replay_inputs_def payment_def)
  have watched: "get_spk_hash demo_wallet (script_pubkey \<lparr>value_sat = 50, script_pubkey = [1]\<rparr>) \<in> script_set demo_watching"
    by (simp add: get_spk_hash_def demo_wallet_def demo_watching_def)
  obtain mine w' where "block_process demo_wallet payment_block 1 demo_watching = (Inr mine, w')"
    "\<forall>op out. replay_block demo_wallet payment_block (owned md_view demo_watching) op = Some out \<longrightarrow>
       get_spk_hash demo_wallet (script_pubkey out) \<in> script_set demo_watching \<longrightarrow> owned md_view w' op = Some out"
    using block_process_replays [OF demo_watching_reached demo_wallet_ready demo_wallet_ready(2) demo_processable] by blast
  with coin watched show ?thesis by blast
qed



end
