(* ===== verification/Spec2Isabelle.thy ===== *)
theory Spec2Isabelle
  imports Merkle Supply Block_Rules Stump_Updater Header_Rules Mempool Flat_Store Chain_Locator Partial_Rules Address_Rules Onion Wallet_Rules
begin

text \<open>
  A verification development of Floresta, a Bitcoin node with a Utreexo accumulator.

  \<^bold>\<open>The program.\<close> A node follows the chain of headers with the most work, validates blocks against the
  headers, and keeps in place of the unspent outputs an accumulator against which each block comes with
  a proof of the outputs it spends. Headers, the height index and the accumulators are in a flat store
  on disk. Around the chain are a mempool, a manager of peer addresses, and a watch-only wallet that is
  told of each connected block. The initial download can be done in intervals or with SwiftSync, which
  checks by a sum of hashes that the outputs of all blocks and the inputs of all blocks cancel.

  \<^bold>\<open>Conventions.\<close> Paths are below \<^verbatim>\<open>src/crates\<close>. A struct is a record, an enum a datatype, a \<^verbatim>\<open>u32\<close> a
  32-bit word whose arithmetic wraps around; fallible code returns a sum with the error on the left
  (theory Prelude), and code that changes a state is a function from the state to a result and the state
  after it (theory Stateful), where changes made before an error stay. Panics, failed assertions and
  indexing out of range are errors. Code outside the repository (rust-bitcoin, rustreexo, hash functions, the
  script verifier, JSON, miniscript) is a field of a record that every definition calling it takes as an
  argument; what is assumed of it is a named hypothesis, and each property with one is applied at a
  concrete instance. The order of hash maps, the clock and random choices are arguments too.

  \<^bold>\<open>Consensus rules\<close>, \<^verbatim>\<open>floresta-chain/src\<close>. Bitcoin_Types holds the data and the interface of rust-bitcoin,
  Errors the error types (\<^verbatim>\<open>pruned_utreexo/error.rs\<close>), Chain_Params \<^verbatim>\<open>pruned_utreexo/chainparams.rs\<close>.
  \<^item> Merkle: roots with mutation detection, branches (\<^verbatim>\<open>pruned_utreexo/merkle.rs\<close>) and the proofs of the wallet. A
    proof verifies, equal roots of trees of equal depth mean equal leaves or a hash collision, and
    duplicated tails are found.
  \<^item> Sigops and Extensions: signature-operation cost; work, median time and block checks (\<^verbatim>\<open>sigops.rs\<close>,
    \<^verbatim>\<open>extensions.rs\<close>). The multiplication of 256-bit work is exact, the median time is a median.
  \<^item> Consensus: \<^verbatim>\<open>consensus.rs\<close>. Transaction_Rules gives the exact condition under which a transaction
    is accepted, Block_Rules what an accepted block guarantees (no inflation, no double spend, maturity),
    Supply the closed form of the supply, Header_Rules the header checks.
  \<^item> Udata: leaves of the accumulator and proofs (\<^verbatim>\<open>udata.rs\<close>). Each coin taken from a proof is bound by a
    deleted leaf, and compact leaves are rebuilt to the same leaf.
  \<^item> Swift_Sync_Agg, Swift_Sync: the SwiftSync part of \<^verbatim>\<open>consensus.rs\<close>; the locale \<open>aggregator\<close> is the group
    in which hashes are added and removed. The deltas of a chain cancel.
  \<^item> Stump_Updater: \<^verbatim>\<open>floresta-wire/src/p2p_wire/stump_updater.rs\<close>. Updates in any order give the accumulator
    of the updates in order.

  \<^bold>\<open>Chain\<close>, \<^verbatim>\<open>floresta-chain/src/pruned_utreexo\<close>.
  \<^item> Chain_Store, Flat_Chain_Store: \<^verbatim>\<open>chainstore.rs\<close> and \<^verbatim>\<open>flat_chain_store.rs\<close>, the files as lists and the
    index as an open-addressing table. Flat_Index shows that probing ends and that insertions
    affect one key, Flat_Store that the store refines a map from hashes to headers.
  \<^item> Chain_Env, Chain_State: \<^verbatim>\<open>mod.rs\<close>, \<^verbatim>\<open>chain_state.rs\<close> and \<^verbatim>\<open>chain_state_builder.rs\<close>, over the operations of a
    store. The locale \<open>header_store\<close> of Chain_Queries is the contract of a store, \<open>growing_store\<close> of
    Chain_Headers adds what a new header does to it; both are interpreted by the flat store. Chain_Frames and
    Chain_Effects say what each operation leaves alone. Chain_Headers covers accepting headers, Chain_Reorg the
    choice between branches and their work, Chain_Blocks connecting blocks, Chain_Locator the locators.
  \<^item> Partial_Chain, Partial_Rules: \<^verbatim>\<open>partial_chain.rs\<close>, the intervals of the initial download.

  \<^bold>\<open>Around the chain.\<close>
  \<^item> Mempool: \<^verbatim>\<open>floresta-mempool/src/mempool.rs\<close>. An invariant over all reachable pools, and that block templates
    are built without a panic and list each transaction after its dependencies.
  \<^item> Net_Address, Address_Man, Address_Rules: \<^verbatim>\<open>floresta-wire/src/p2p_wire/address_man.rs\<close>. An invariant over all
    reachable managers, which peers are selected, and which are dropped.
  \<^item> Onion: \<^verbatim>\<open>floresta-wire/src/p2p_wire/onion.rs\<close>. Text and key of an onion address determine each other.
  \<^item> Descriptor, Wallet_Db, Watch_Only: \<^verbatim>\<open>floresta-watch-only/src\<close>, keys and descriptors, the two databases, and
    the wallet. The locale \<open>address_store\<close> is the contract of a database and both databases satisfy it;
    Wallet_Rules extends it to \<open>wallet_store\<close>, in which the wallet is verified once for both. Its books balance in
    every reachable state, and a block changes the owned coins as replaying it does.

  \<^bold>\<open>Fuel and bounds.\<close> Loops over the ancestors of a header follow the links of the store, which need not
  end on a corrupt store; they take at most \<open>e_fuel\<close> steps and return \<open>OutOfFuel\<close> after that, an error no
  property counts as success. Where a property says that such a loop returns, the fuel it needs is a hypothesis or follows from the
  height. The loops of the locators have 43 steps; at most 42 are needed for any 32-bit height, which
  Chain_Locator shows. The search for the last block of normal difficulty has 2016 steps, since it stops at the
  start of a period. The index is probed at most once per bucket, as in the source. The recursion that
  assembles a block template takes its fuel as an argument; the number of held transactions is enough because
  the dependencies are acyclic, which is shown for every reachable pool. All other loops are recursions over lists
  or have a termination proof.

  \<^bold>\<open>Not modelled.\<close>
  \<^item> Peers and the event loops of the node (\<^verbatim>\<open>floresta-wire/src/p2p_wire\<close>: \<^verbatim>\<open>peer.rs\<close>, \<^verbatim>\<open>transport.rs\<close>, \<^verbatim>\<open>socks.rs\<close>,
    \<^verbatim>\<open>node/\<close>): asynchronous tasks over sockets, timers and channels. The message codecs of
    \<^verbatim>\<open>block_proof.rs\<close> and \<^verbatim>\<open>network_message_ext.rs\<close> are over stream interfaces of rust-bitcoin, and the text parser of
    \<^verbatim>\<open>bitcoin_socket_addr.rs\<close> rests on parsers of the standard library and on DNS.
  \<^item> The Electrum and JSON-RPC servers, the clients, the daemon, configuration, logging and metrics: marshalling
    and process start-up.
  \<^item> Compact block filters (\<^verbatim>\<open>floresta-compact-filters\<close>): a file of filters matched by rust-bitcoin.
  \<^item> Floating point (\<^verbatim>\<open>floresta-common/src/ema.rs\<close>, fee and difficulty estimates), texts for the user,
    procedural macros, and locks: every modelled operation runs under the lock of its component.
\<close>

end
